(* ===== verification/Prelude.thy ===== *)
theory Prelude
  imports Main "HOL-Library.Word" "HOL-Library.Monad_Syntax"
begin

text \<open>
  Shared vocabulary of the development.

  \<^item> Machine types: \<open>uint8_t\<close>, \<open>uint16_t\<close>, \<open>uint32_t\<close> and \<open>uint64_t\<close>/\<open>size_t\<close>/\<open>uintptr_t\<close> are
    words of that width; a C \<open>int\<close> is an \<open>int\<close> together with the conversion \<open>to_int32\<close>
    where a wider value is narrowed to it.
  \<^item> Undefined behaviour: a function that indexes a C array or follows a pointer has the
    type \<open>'a option\<close>; \<open>None\<close> says the access is out of bounds or through a null pointer.
    \<open>arr_get\<close> and \<open>arr_set\<close> are the checked accesses.  Error \<^emph>\<open>codes\<close> of the source are
    values of \<open>ncclResult\<close> and never \<open>None\<close>.
  \<^item> Byte order: the plugin runs on little-endian hosts (it includes \<open>x86intrin.h\<close>), so the
    bytes of an object in memory are least significant first and \<open>htonl\<close> reverses them.
  \<^item> \<open>unordered_map\<close> and \<open>map\<close> objects are association lists with distinct keys, in the
    order in which the source iterates over them.
\<close>

unbundle bit_operations_syntax

type_synonym u8 = "8 word"
type_synonym u16 = "16 word"
type_synonym u32 = "32 word"
type_synonym u64 = "64 word"
type_synonym byte = "8 word"

text \<open>Rules that unfold the checked accesses and the control flow of the model.\<close>

named_theorems ub_simps \<open>evaluation of the checked memory accesses\<close>
named_theorems codec_simps \<open>sizes and round trips of the byte encodings\<close>
named_theorems step_defs \<open>definitions of the operations of a component\<close>

subsection \<open>Result codes\<close>

text \<open>
  The result codes the plugin returns itself, and the codes it only passes on from the
  RCCL helpers it calls.
\<close>

datatype ncclResult =
    ncclSuccess
  | ncclSystemError
  | ncclInternalError
  | ncclRemoteError
  | ncclOtherError nat

subsection \<open>Checked array accesses\<close>

definition arr_get :: "'a list \<Rightarrow> nat \<Rightarrow> 'a option" where
  "arr_get xs i = (if i < length xs then Some (xs ! i) else None)"

definition arr_set :: "'a list \<Rightarrow> nat \<Rightarrow> 'a \<Rightarrow> 'a list option" where
  "arr_set xs i v = (if i < length xs then Some (xs[i := v]) else None)"

lemma arr_get_in [ub_simps]: "i < length xs \<Longrightarrow> arr_get xs i = Some (xs ! i)"
  by (simp add: arr_get_def)

lemma arr_get_oob [ub_simps]: "length xs \<le> i \<Longrightarrow> arr_get xs i = None"
  by (simp add: arr_get_def)

lemma arr_set_in [ub_simps]: "i < length xs \<Longrightarrow> arr_set xs i v = Some (xs[i := v])"
  by (simp add: arr_set_def)

lemma arr_set_oob [ub_simps]: "length xs \<le> i \<Longrightarrow> arr_set xs i v = None"
  by (simp add: arr_set_def)

lemma arr_get_SomeD: "arr_get xs i = Some v \<Longrightarrow> i < length xs \<and> v = xs ! i"
  by (auto simp: arr_get_def split: if_splits)

lemma arr_set_SomeD: "arr_set xs i v = Some ys \<Longrightarrow> i < length xs \<and> ys = xs[i := v]"
  by (auto simp: arr_set_def split: if_splits)

lemma arr_get_None_iff: "arr_get xs i = None \<longleftrightarrow> length xs \<le> i"
  by (auto simp: arr_get_def)

subsection \<open>Maps of the C++ library\<close>

text \<open>\<open>m[k] = v\<close>, \<open>m[k]++\<close> and \<open>m.erase(k)\<close>.\<close>

fun map_put :: "'k \<Rightarrow> 'v \<Rightarrow> ('k \<times> 'v) list \<Rightarrow> ('k \<times> 'v) list" where
  "map_put k v [] = [(k, v)]"
| "map_put k v (p # m) = (if fst p = k then (k, v) # m else p # map_put k v m)"

definition map_get :: "'v \<Rightarrow> 'k \<Rightarrow> ('k \<times> 'v) list \<Rightarrow> 'v" where
  "map_get d k m = (case map_of m k of Some v \<Rightarrow> v | None \<Rightarrow> d)"

definition map_bump :: "'k \<Rightarrow> ('k \<times> u64) list \<Rightarrow> ('k \<times> u64) list" where
  "map_bump k m = map_put k (map_get 0 k m + 1) m"

definition map_erase :: "'k \<Rightarrow> ('k \<times> 'v) list \<Rightarrow> ('k \<times> 'v) list" where
  "map_erase k m = filter (\<lambda>p. fst p \<noteq> k) m"

lemma map_of_map_put: "map_of (map_put k v m) = (map_of m)(k \<mapsto> v)"
  by (induction m) auto

lemma map_of_map_erase: "map_of (map_erase k m) = (map_of m)(k := None)"
  by (induction m) (auto simp: map_erase_def)

lemma set_map_put: "set (map_put k v m) \<subseteq> insert (k, v) (set m)"
  by (induction m) auto

lemma keys_map_put: "set (map fst (map_put k v m)) = insert k (set (map fst m))"
  by (induction m) auto

lemma distinct_map_put: "distinct (map fst m) \<Longrightarrow> distinct (map fst (map_put k v m))"
proof (induction m)
  case (Cons p m)
  then show ?case using keys_map_put [of k v m] by auto
qed simp

lemma sum_map_put:
  "distinct (map fst m) \<Longrightarrow> sum_list (map f (map_put k v m)) = sum_list (map f m) + f (k, v) - (case map_of m k of Some u \<Rightarrow> f (k, u) | None \<Rightarrow> (0 :: 'a :: ab_group_add))"
proof (induction m)
  case (Cons p m)
  have "fst p = k \<Longrightarrow> map_of m k = None" using Cons.prems by (auto simp: map_of_eq_None_iff)
  then show ?case using Cons by (cases p) auto
qed simp

lemma sum_map_bump: "distinct (map fst m) \<Longrightarrow> sum_list (map snd (map_bump k m)) = sum_list (map snd m) + 1"
  by (simp add: map_bump_def map_get_def sum_map_put split: option.split)

subsection \<open>Narrowing to int\<close>

lemma unat_lt: "unat (w :: 'a::len word) < 2 ^ LENGTH('a)"
  by (rule unsigned_less)

lemma unat_Suc_below: "unat w < unat (n :: 'a word) \<Longrightarrow> unat (w + 1) = Suc (unat (w :: 'a::len word))"
proof -
  assume "unat w < unat n"
  then have "Suc (unat w) \<le> unat n" by simp
  from le_less_trans [OF this unat_lt] have "unat w + unat (1 :: 'a word) < 2 ^ LENGTH('a)" by simp
  then show ?thesis unfolding unat_add_lem by simp
qed

definition to_int32 :: "u64 \<Rightarrow> int" where
  "to_int32 w = sint (ucast w :: u32)"

lemma to_int32_small: "uint w < 2 ^ 31 \<Longrightarrow> to_int32 w = uint w"
proof -
  assume w: "uint w < 2 ^ 31"
  then have u: "uint (ucast w :: u32) = uint w"
    by (simp add: unsigned_ucast_eq take_bit_int_eq_self)
  have "- (2 ^ 31) \<le> uint w"
    by (rule order_trans [OF _ uint_ge_0]) simp
  with w have "signed_take_bit 31 (uint w) = uint w"
    by (intro signed_take_bit_int_eq_self)
  then show ?thesis by (simp add: to_int32_def sint_uint u)
qed

subsection \<open>Page arithmetic on 64-bit addresses\<close>

lemma take_bit_uint64: "take_bit 64 (uint (x :: u64)) = uint x"
  using uint_lt2p [of x] by (intro take_bit_int_eq_self) auto

lemma uint_exp2: "k < 64 \<Longrightarrow> uint (2 ^ k :: u64) = 2 ^ k"
proof -
  assume k: "k < 64"
  have lt: "(2::int) ^ k < 2 ^ 64" using k by (intro power_strict_increasing) auto
  have "uint (2 ^ k :: u64) = uint (push_bit k 1 :: u64)" by simp
  also have "\<dots> = take_bit 64 (2 ^ k)" unfolding unsigned_push_bit_eq by (simp add: push_bit_eq_mult)
  also have "\<dots> = 2 ^ k" using lt by (intro take_bit_int_eq_self) auto
  finally show ?thesis .
qed

lemma uint_page_base:
  fixes x :: u64
  shows "uint (x AND (- (2 ^ k))) = uint x div 2 ^ k * 2 ^ k"
proof -
  have "x AND (- (2 ^ k)) = push_bit k (drop_bit k x)"
    by (rule bit_word_eqI) (auto simp: minus_exp_eq_not_mask bit_simps)
  moreover have "uint (push_bit k (drop_bit k x)) = take_bit 64 (uint x div 2 ^ k * 2 ^ k)"
    unfolding unsigned_push_bit_eq unsigned_drop_bit_eq
    by (simp add: push_bit_eq_mult drop_bit_eq_div take_bit_uint64)
  moreover have "uint x div 2 ^ k * 2 ^ k \<le> uint x"
  proof -
    have "0 \<le> uint x mod 2 ^ k" by simp
    then show ?thesis using div_mult_mod_eq [of "uint x" "2 ^ k"] by linarith
  qed
  moreover have "0 \<le> uint x div 2 ^ k * 2 ^ k" by (simp add: pos_imp_zdiv_nonneg_iff)
  moreover have "uint x < 2 ^ 64" using uint_lt2p [of x] by simp
  ultimately show ?thesis using take_bit_int_eq_self [of "uint x div 2 ^ k * 2 ^ k" 64] by simp
qed

lemma mult_le_imp_less:
  fixes m p B :: int
  assumes "m * p \<le> B" "1 < p" "0 < B"
  shows "m < B"
proof (rule ccontr)
  assume "\<not> m < B"
  then have "B * p \<le> m * p" using assms by (intro mult_right_mono) auto
  moreover have "B * 2 \<le> B * p" using assms by (intro mult_left_mono) auto
  ultimately show False using assms by linarith
qed

end
