(* ===== verification/Codec.thy ===== *)
theory Codec
  imports Prelude
begin

text \<open>
  Byte-level encoding as the bootstrap code does it: the bytes of a 32-bit object in the
  memory of a little-endian host, \<open>htonl\<close>/\<open>ntohl\<close>, fixed-size \<open>char\<close> arrays holding
  NUL-terminated strings, reads at an offset of a byte vector (out of bounds is \<open>None\<close>), and
  the loops that write and read the elements of an array.

  The locale \<open>codec\<close> is the contract between the serialiser and the deserialiser of one
  kind of element; its client lemmas lift the round trip to the loops over arrays of such
  elements.  It is interpreted in Hosts for planar interfaces, devices and hosts.
\<close>

subsection \<open>32-bit objects in memory\<close>

definition mem32 :: "u32 \<Rightarrow> byte list" where
  "mem32 w = map (\<lambda>i. ucast (drop_bit (8 * i) w)) [0, 1, 2, 3]"

definition load32 :: "byte list \<Rightarrow> u32" where
  "load32 bs = (case bs of
     [a, b, c, d] \<Rightarrow> ucast a OR push_bit 8 (ucast b) OR push_bit 16 (ucast c) OR push_bit 24 (ucast d)
   | _ \<Rightarrow> 0)"

definition htonl :: "u32 \<Rightarrow> u32" where
  "htonl w = load32 (rev (mem32 w))"

lemma length_mem32 [simp, codec_simps]: "length (mem32 w) = 4"
  by (simp add: mem32_def)

lemma load32_mem32 [simp, codec_simps]: "load32 (mem32 w) = w"
proof (rule bit_word_eqI)
  fix n :: nat assume "n < LENGTH(32)"
  then have "n < 8 \<or> 8 \<le> n \<and> n < 16 \<or> 16 \<le> n \<and> n < 24 \<or> 24 \<le> n \<and> n < 32" by auto
  then show "bit (load32 (mem32 w)) n = bit w n"
    by (auto simp: load32_def mem32_def bit_simps)
qed

lemma mem32_load32 [codec_simps]: "length bs = 4 \<Longrightarrow> mem32 (load32 bs) = bs"
proof -
  assume "length bs = 4"
  then obtain a b c d where bs: "bs = [a, b, c, d]"
    by (auto simp: numeral_eq_Suc length_Suc_conv)
  have "ucast (drop_bit (8 * i) (load32 bs)) = bs ! i" if "i < 4" for i
  proof (rule bit_word_eqI)
    fix n :: nat assume "n < LENGTH(8)"
    moreover from that have "i = 0 \<or> i = 1 \<or> i = 2 \<or> i = 3" by auto
    ultimately show "bit (ucast (drop_bit (8 * i) (load32 bs)) :: byte) n = bit (bs ! i) n"
      by (auto simp: bs load32_def bit_simps dest: bit_imp_le_length)
  qed
  from this [of 0] this [of 1] this [of 2] this [of 3] show ?thesis by (simp add: mem32_def bs)
qed

lemma mem32_htonl: "mem32 (htonl w) = rev (mem32 w)"
  by (simp add: htonl_def mem32_load32)

lemma htonl_htonl [simp]: "htonl (htonl w) = w"
  by (metis htonl_def load32_mem32 mem32_htonl rev_rev_ident)

subsection \<open>Strings\<close>

definition byte_of_char :: "char \<Rightarrow> byte" where
  "byte_of_char c = word_of_nat (of_char c)"

definition char_of_byte :: "byte \<Rightarrow> char" where
  "char_of_byte b = char_of (unat b)"

lemma char_of_byte_of_char [simp]: "char_of_byte (byte_of_char c) = c"
proof -
  have "of_char c < (256 :: nat)" by simp
  then have "unat (byte_of_char c) = of_char c"
    by (simp add: byte_of_char_def unsigned_of_nat take_bit_nat_eq_self)
  then show ?thesis by (simp add: char_of_byte_def)
qed

lemma map_char_of_byte_of_char [simp]: "map char_of_byte (map byte_of_char s) = s"
  by (simp add: comp_def)

text \<open>The string in a \<open>char\<close> array; \<open>strlen\<close> runs off the array when it holds no NUL.\<close>

definition cstr :: "byte list \<Rightarrow> byte list" where
  "cstr a = takeWhile (\<lambda>b. b \<noteq> 0) a"

definition c_strlen :: "byte list \<Rightarrow> nat option" where
  "c_strlen a = (if 0 \<in> set a then Some (length (cstr a)) else None)"

lemma cstr_no_nul: "0 \<notin> set (cstr a)"
  by (auto simp: cstr_def dest: set_takeWhileD)

lemma take_cstr: "take (length (cstr a)) a = cstr a"
  unfolding cstr_def by (induction a) auto

lemma cstr_stored: "0 \<notin> set s \<Longrightarrow> cstr (s @ 0 # rest) = s"
  unfolding cstr_def by (induction s) auto

lemma length_cstr_less: "0 \<in> set a \<Longrightarrow> length (cstr a) < length a"
  unfolding cstr_def by (induction a) auto

subsection \<open>Reads at an offset\<close>

definition rd_bytes :: "byte list \<Rightarrow> nat \<Rightarrow> nat \<Rightarrow> (byte list \<times> nat) option" where
  "rd_bytes buf off n = (if off + n \<le> length buf then Some (take n (drop off buf), off + n) else None)"

definition rd_u32 :: "byte list \<Rightarrow> nat \<Rightarrow> (u32 \<times> nat) option" where
  "rd_u32 buf off = map_option (\<lambda>(bs, o'). (load32 bs, o')) (rd_bytes buf off 4)"

text \<open>\<open>memcpy\<close> of \<open>len\<close> bytes into a \<open>char\<close> array followed by a NUL at index \<open>len\<close>.\<close>

definition store_cstr :: "byte list \<Rightarrow> byte list \<Rightarrow> byte list option" where
  "store_cstr dst src =
     (if length src < length dst then Some (src @ 0 # drop (Suc (length src)) dst) else None)"

lemma rd_bytes_at [codec_simps]:
  "length bs = n \<Longrightarrow> rd_bytes (pre @ bs @ suf) (length pre) n = Some (bs, length pre + n)"
  by (simp add: rd_bytes_def)

lemma rd_u32_at [codec_simps]:
  "rd_u32 (pre @ mem32 w @ suf) (length pre) = Some (w, length pre + 4)"
  using rd_bytes_at [of "mem32 w" 4 pre suf] by (simp add: rd_u32_def)

lemma rd_bytes_SomeD: "rd_bytes buf off n = Some (bs, o') \<Longrightarrow> o' = off + n \<and> o' \<le> length buf \<and> length bs = n"
  by (auto simp: rd_bytes_def split: if_splits)

lemma length_store_cstr: "store_cstr dst src = Some a \<Longrightarrow> length a = length dst"
  by (auto simp: store_cstr_def split: if_splits)

lemma store_cstr_ok:
  assumes "length s < length dst" "0 \<notin> set s"
  shows "\<exists>a. store_cstr dst s = Some a \<and> cstr a = s \<and> length a = length dst \<and> 0 \<in> set a"
  using assms by (auto simp: store_cstr_def cstr_stored)

subsection \<open>Loops over the elements of an array\<close>

fun ser_loop :: "('b \<Rightarrow> byte list option) \<Rightarrow> 'b list \<Rightarrow> nat \<Rightarrow> nat \<Rightarrow> byte list option" where
  "ser_loop f xs i 0 = Some []"
| "ser_loop f xs i (Suc n) = do { x \<leftarrow> arr_get xs i; a \<leftarrow> f x; b \<leftarrow> ser_loop f xs (Suc i) n; Some (a @ b) }"

fun des_loop :: "('b \<Rightarrow> byte list \<Rightarrow> nat \<Rightarrow> ('b \<times> nat) option) \<Rightarrow> 'b list \<Rightarrow> nat \<Rightarrow> nat \<Rightarrow> byte list \<Rightarrow> nat \<Rightarrow> ('b list \<times> nat) option" where
  "des_loop f xs i 0 buf off = Some (xs, off)"
| "des_loop f xs i (Suc n) buf off =
     do { x \<leftarrow> arr_get xs i; (y, off') \<leftarrow> f x buf off; xs' \<leftarrow> arr_set xs i y; des_loop f xs' (Suc i) n buf off' }"

locale codec =
  fixes enc :: "'b \<Rightarrow> byte list option"
    and dec :: "'b \<Rightarrow> byte list \<Rightarrow> nat \<Rightarrow> ('b \<times> nat) option"
    and ok :: "'b \<Rightarrow> bool"
    and shape :: "'b \<Rightarrow> bool"
    and view :: "'b \<Rightarrow> 'v"
  assumes ok_shape: "ok x \<Longrightarrow> shape x"
    and enc_ok: "ok x \<Longrightarrow> \<exists>bs. enc x = Some bs"
    and dec_enc: "ok x \<Longrightarrow> enc x = Some bs \<Longrightarrow> shape s \<Longrightarrow>
      \<exists>y. dec s (pre @ bs @ suf) (length pre) = Some (y, length pre + length bs) \<and> view y = view x \<and> ok y"
begin

lemma ser_loop_ok:
  "i + n \<le> length xs \<Longrightarrow> \<forall>j<n. ok (xs ! (i + j)) \<Longrightarrow> \<exists>bs. ser_loop enc xs i n = Some bs"
proof (induction n arbitrary: i)
  case 0
  then show ?case by simp
next
  case (Suc n)
  have "ok (xs ! i)" using Suc.prems(2) by (metis add_0_right zero_less_Suc)
  then obtain a where "enc (xs ! i) = Some a" using enc_ok by blast
  moreover have "\<forall>j<n. ok (xs ! (Suc i + j))" using Suc.prems(2) by (metis Suc_less_eq add_Suc_shift)
  then obtain b where "ser_loop enc xs (Suc i) n = Some b" using Suc.IH [of "Suc i"] Suc.prems(1) by auto
  ultimately show ?case using Suc.prems(1) by (simp add: ub_simps)
qed

lemma des_ser_loop:
  assumes "i + n \<le> length xs" "\<forall>j<n. ok (xs ! (i + j))" "ser_loop enc xs i n = Some bs"
    and "i + n \<le> length st" "list_all shape st"
  shows "\<exists>ys. des_loop dec st i n (pre @ bs @ suf) (length pre) = Some (ys, length pre + length bs) \<and>
    length ys = length st \<and> list_all shape ys \<and> (\<forall>j<i. ys ! j = st ! j) \<and>
    (\<forall>j<n. ok (ys ! (i + j)) \<and> view (ys ! (i + j)) = view (xs ! (i + j)))"
  using assms
proof (induction n arbitrary: i bs st pre)
  case 0
  then show ?case by simp
next
  case (Suc n)
  have okx: "ok (xs ! i)" using Suc.prems(2) by (metis add_0_right zero_less_Suc)
  obtain a b where ab: "enc (xs ! i) = Some a" "ser_loop enc xs (Suc i) n = Some b" "bs = a @ b"
    using Suc.prems(1,3) by (auto simp: ub_simps bind_eq_Some_conv)
  have sh: "shape (st ! i)" using Suc.prems(4,5) by (simp add: list_all_length)
  obtain y where y: "dec (st ! i) (pre @ a @ b @ suf) (length pre) = Some (y, length pre + length a)"
      "view y = view (xs ! i)" "ok y"
    using dec_enc [OF okx ab(1) sh, of pre "b @ suf"] by auto
  have okr: "\<forall>j<n. ok (xs ! (Suc i + j))" using Suc.prems(2) by (metis Suc_less_eq add_Suc_shift)
  have "list_all shape (st[i := y])"
    using Suc.prems(5) ok_shape [OF y(3)] by (auto simp: list_all_iff dest!: set_update_subset_insert [THEN subsetD])
  then obtain ys where ys: "des_loop dec (st[i := y]) (Suc i) n ((pre @ a) @ b @ suf) (length (pre @ a))
        = Some (ys, length (pre @ a) + length b)" "length ys = length st" "list_all shape ys"
      "\<forall>j<Suc i. ys ! j = st[i := y] ! j" "\<forall>j<n. ok (ys ! (Suc i + j)) \<and> view (ys ! (Suc i + j)) = view (xs ! (Suc i + j))"
    using Suc.IH [of "Suc i" b "st[i := y]" "pre @ a"] okr ab(2) Suc.prems(1,4) by auto
  have "ok (ys ! (i + j)) \<and> view (ys ! (i + j)) = view (xs ! (i + j))" if "j < Suc n" for j
    using that ys(4,5) y(2,3) Suc.prems(4) by (cases j) auto
  moreover have "ys ! j = st ! j" if "j < i" for j using that ys(4) by auto
  ultimately show ?case using y(1) ys ab(3) Suc.prems(4) by (auto simp: ub_simps add.assoc)
qed

lemma ser_prefix_ok:
  assumes "n \<le> length xs" "list_all ok (take n xs)"
  shows "\<exists>bs. ser_loop enc xs 0 n = Some bs"
  using assms by (intro ser_loop_ok) (auto simp: list_all_length)

lemma des_ser_prefix:
  assumes "n \<le> length xs" "list_all ok (take n xs)" "ser_loop enc xs 0 n = Some bs"
    and "n \<le> length st" "list_all shape st"
  shows "\<exists>ys. des_loop dec st 0 n (pre @ bs @ suf) (length pre) = Some (ys, length pre + length bs) \<and>
    length ys = length st \<and> list_all shape ys \<and> list_all ok (take n ys) \<and> map view (take n ys) = map view (take n xs)"
proof -
  have "\<forall>j<n. ok (xs ! (0 + j))" using assms(1,2) by (auto simp: list_all_length)
  then obtain ys where ys: "des_loop dec st 0 n (pre @ bs @ suf) (length pre) = Some (ys, length pre + length bs)"
      "length ys = length st" "list_all shape ys" "\<forall>j<n. ok (ys ! (0 + j)) \<and> view (ys ! (0 + j)) = view (xs ! (0 + j))"
    using des_ser_loop [of 0 n xs bs st pre suf] assms by auto
  moreover have "list_all ok (take n ys)" using ys(4) by (auto simp: list_all_length)
  moreover have "map view (take n ys) = map view (take n xs)"
    using ys(2,4) assms(1,4) by (intro nth_equalityI) auto
  ultimately show ?thesis by blast
qed

end

end
