(* ===== verification/Text.thy ===== *)
theory Text
  imports Codec
begin

text \<open>
  Text handling the program takes from its standard library: decimal printing,
  \<open>std::string::find\<close> and \<open>replace\<close>, \<open>strncpy\<close>, and the dotted-quad conversions
  \<open>inet_pton\<close>/\<open>inet_ntop\<close> for IPv4.  An IPv4 address is the \<open>s_addr\<close> word of a
  \<open>struct in_addr\<close>, whose bytes in memory are in network order.
\<close>

subsection \<open>Decimal numbers\<close>

definition digit_char :: "nat \<Rightarrow> char" where
  "digit_char d = char_of (48 + d)"

fun dec_of_nat :: "nat \<Rightarrow> string" where
  "dec_of_nat n = (if n < 10 then [digit_char n] else dec_of_nat (n div 10) @ [digit_char (n mod 10)])"

declare dec_of_nat.simps [simp del]

definition char_digit :: "char \<Rightarrow> nat option" where
  "char_digit c = (let n = of_char c in if 48 \<le> n \<and> n < 58 then Some (n - 48) else None)"

lemma char_digit_digit_char [simp]: "d < 10 \<Longrightarrow> char_digit (digit_char d) = Some d"
  by (simp add: char_digit_def digit_char_def Let_def of_char_of)

lemma char_digit_less: "char_digit c = Some d \<Longrightarrow> d < 10"
  by (auto simp: char_digit_def Let_def split: if_splits)

subsection \<open>Searching and replacing in a string\<close>

fun str_find :: "'a list \<Rightarrow> 'a list \<Rightarrow> nat option" where
  "str_find p [] = (if p = [] then Some 0 else None)"
| "str_find p (c # s) = (if take (length p) (c # s) = p then Some 0 else map_option Suc (str_find p s))"

definition str_replace :: "'a list \<Rightarrow> nat \<Rightarrow> nat \<Rightarrow> 'a list \<Rightarrow> 'a list" where
  "str_replace s pos n r = take pos s @ r @ drop (pos + n) s"

lemma str_find_SomeD: "str_find p s = Some i \<Longrightarrow> \<exists>a b. s = a @ p @ b \<and> length a = i"
proof (induction s arbitrary: i)
  case Nil
  then show ?case by (auto split: if_splits)
next
  case (Cons c s)
  show ?case
  proof (cases "take (length p) (c # s) = p")
    case True
    then have "c # s = [] @ p @ drop (length p) (c # s)" by (metis append_Nil append_take_drop_id)
    moreover have "i = 0" using Cons.prems True by simp
    ultimately show ?thesis by blast
  next
    case False
    then obtain j where j: "str_find p s = Some j" "i = Suc j" using Cons.prems by auto
    then obtain a b where "s = a @ p @ b" "length a = j" using Cons.IH by blast
    then have "c # s = (c # a) @ p @ b \<and> length (c # a) = i" using j by simp
    then show ?thesis by blast
  qed
qed

text \<open>\<open>strncpy(dst, src, n)\<close>: the source up to its NUL, zero-padded to \<open>n\<close> bytes.\<close>

definition c_strncpy :: "byte list \<Rightarrow> string \<Rightarrow> nat \<Rightarrow> byte list" where
  "c_strncpy dst s n = (let b = take n (cstr (map byte_of_char s)) in b @ replicate (n - length b) 0 @ drop n dst)"

lemma length_c_strncpy [simp]: "n \<le> length dst \<Longrightarrow> length (c_strncpy dst s n) = length dst"
  by (auto simp: c_strncpy_def Let_def)

lemma c_strncpy_nul: "n < length dst \<Longrightarrow> dst ! n = 0 \<Longrightarrow> 0 \<in> set (c_strncpy dst s n)"
proof -
  assume a: "n < length dst" "dst ! n = 0"
  then have "drop n dst = 0 # drop (Suc n) dst" by (metis Cons_nth_drop_Suc)
  then show ?thesis by (simp add: c_strncpy_def Let_def)
qed

lemma cstr_append_nul: "0 \<notin> set a \<Longrightarrow> b \<noteq> [] \<Longrightarrow> hd b = 0 \<Longrightarrow> cstr (a @ b) = a"
  by (cases b) (auto simp: cstr_stored)

lemma cstr_c_strncpy:
  assumes "n < length dst" "dst ! n = 0"
  shows "cstr (c_strncpy dst s n) = take n (cstr (map byte_of_char s))"
proof -
  let ?b = "take n (cstr (map byte_of_char s))"
  have "0 \<notin> set ?b" by (meson cstr_no_nul in_set_takeD)
  moreover have "replicate (n - length ?b) 0 @ drop n dst \<noteq> []" using assms by simp
  moreover have "hd (replicate (n - length ?b) 0 @ drop n dst) = 0"
    using assms by (cases "n - length ?b") (auto simp: hd_drop_conv_nth)
  ultimately show ?thesis unfolding c_strncpy_def Let_def by (rule cstr_append_nul)
qed

subsection \<open>IPv4 addresses as text\<close>

definition inet_ntop4 :: "u32 \<Rightarrow> string" where
  "inet_ntop4 a = (case map (\<lambda>b. dec_of_nat (unat b)) (mem32 a) of
     [p, q, r, s] \<Rightarrow> p @ ''.'' @ q @ ''.'' @ r @ ''.'' @ s | _ \<Rightarrow> [])"

fun pton4_go :: "string \<Rightarrow> byte list \<Rightarrow> nat option \<Rightarrow> byte list option" where
  "pton4_go [] octs cur = (case cur of None \<Rightarrow> None
     | Some v \<Rightarrow> if length octs = 3 then Some (octs @ [word_of_nat v]) else None)"
| "pton4_go (c # s) octs cur = (case char_digit c of
     Some d \<Rightarrow> (case cur of
         None \<Rightarrow> if 4 \<le> length octs then None else pton4_go s octs (Some d)
       | Some v \<Rightarrow> if v = 0 \<or> 255 < v * 10 + d then None else pton4_go s octs (Some (v * 10 + d)))
   | None \<Rightarrow> (if c = CHR ''.'' then (case cur of
         None \<Rightarrow> None
       | Some v \<Rightarrow> if length octs = 3 then None else pton4_go s (octs @ [word_of_nat v]) None) else None))"

definition inet_pton4 :: "string \<Rightarrow> u32 option" where
  "inet_pton4 s = map_option load32 (pton4_go s [] None)"

lemma pton4_go_dec:
  assumes "n < 256" "length octs < 4"
  shows "pton4_go (dec_of_nat n @ rest) octs None = pton4_go rest octs (Some n)"
proof -
  consider "n < 10" | "10 \<le> n" "n < 100" | "100 \<le> n" by linarith
  then show ?thesis
  proof cases
    case 1
    then show ?thesis using assms by (simp add: dec_of_nat.simps [of n])
  next
    case 2
    then have "dec_of_nat n = [digit_char (n div 10), digit_char (n mod 10)]" "n div 10 < 10" "n div 10 \<noteq> 0"
      by (auto simp: dec_of_nat.simps [of n] dec_of_nat.simps [of "n div 10"])
    moreover have "n div 10 * 10 + n mod 10 = n" by simp
    ultimately show ?thesis using assms by simp
  next
    case 3
    let ?a = "n div 10 div 10" and ?b = "n div 10 mod 10" and ?c = "n mod 10"
    have d: "dec_of_nat n = [digit_char ?a, digit_char ?b, digit_char ?c]"
      using 3 assms by (auto simp: dec_of_nat.simps [of n] dec_of_nat.simps [of "n div 10"] dec_of_nat.simps [of "n div 10 div 10"])
    have e: "?a < 10" "?a \<noteq> 0" "?a * 10 + ?b = n div 10" "n div 10 * 10 + ?c = n" "n div 10 \<noteq> 0" "n div 10 \<le> 255"
      using 3 assms by auto
    then show ?thesis unfolding d using assms by simp
  qed
qed

lemma pton4_go_dot: "length octs < 3 \<Longrightarrow> pton4_go (CHR ''.'' # s) octs (Some v) = pton4_go s (octs @ [word_of_nat v]) None"
  by (simp add: char_digit_def)

lemma pton4_go_four:
  "pton4_go (dec_of_nat (unat a) @ ''.'' @ dec_of_nat (unat b) @ ''.'' @ dec_of_nat (unat c) @ ''.'' @ dec_of_nat (unat d)) [] None
     = Some [a, b, c, d]" for a b c d :: byte
proof -
  have lt: "unat x < 256" for x :: byte using unsigned_less [of x] by simp
  have "pton4_go (dec_of_nat (unat d)) [a, b, c] None = Some [a, b, c, d]"
    using pton4_go_dec [of "unat d" "[a, b, c]" "[]"] lt by simp
  then show ?thesis by (simp add: pton4_go_dec lt pton4_go_dot del: pton4_go.simps)
qed

lemma inet_pton4_ntop4 [simp]: "inet_pton4 (inet_ntop4 a) = Some a"
proof -
  obtain p q r s where m: "mem32 a = [p, q, r, s]"
    using length_mem32 [of a] by (auto simp: numeral_eq_Suc length_Suc_conv simp del: length_mem32)
  then have "inet_ntop4 a = dec_of_nat (unat p) @ ''.'' @ dec_of_nat (unat q) @ ''.'' @ dec_of_nat (unat r) @ ''.'' @ dec_of_nat (unat s)"
    by (simp add: inet_ntop4_def)
  then have "inet_pton4 (inet_ntop4 a) = Some (load32 [p, q, r, s])"
    unfolding inet_pton4_def by (simp only: pton4_go_four option.map)
  then show ?thesis using load32_mem32 [of a] by (simp add: m)
qed

end
