(* ===== verification/Hosts.thy ===== *)
theory Hosts
  imports Text
begin

text \<open>
  The host datastore of the bootstrap (\<open>anp_bootstrap.h\<close>): planar interfaces, devices, hosts
  and the host database, their serialisation for the wire, and the parser of the planar
  configuration file.

  Reads and writes outside a buffer or a fixed-size array are \<open>None\<close>.  A \<open>host_t\<close> declared
  without an initialiser is a parameter (its indeterminate contents), constrained only by the
  sizes of its arrays (\<open>host_shape\<close>).  The boost property tree is a record of functions.
  The three interpretations of \<open>codec\<close> show that what the serialiser of an interface, a
  device or a host writes is what its deserialiser reads.
\<close>

subsection \<open>Data\<close>

definition MAX_STR_LEN :: nat where "MAX_STR_LEN = 64"
definition MAX_INTERFACES :: nat where "MAX_INTERFACES = 64"
definition MAX_DEVICES :: nat where "MAX_DEVICES = 8"

definition ANP_SUCCESS :: int where "ANP_SUCCESS = 0"
definition ANP_FAILURE :: int where "ANP_FAILURE = - 1"

record planar_interface =
  pi_id :: "byte list"
  pi_name :: "byte list"
  ipv4_addr :: u32
  ipv6_addr :: "byte list"

record device =
  virtual_intf :: "byte list"
  virtual_ip :: u32
  num_interfaces :: int
  planar_intfs :: "planar_interface list"

record host =
  host_name :: string
  host_ip :: string
  num_devices :: int
  devices :: "device list"

record host_db =
  local_ip :: string
  all_hosts :: "(string \<times> host) list"
  planar_to_virtual_map :: "(u32 \<times> u32) list"
  virtual_to_planar_map :: "(u32 \<times> planar_interface list) list"

text \<open>The two lookups; a null pointer is \<open>None\<close>.\<close>

definition lookup_virtual_ip :: "host_db \<Rightarrow> u32 \<Rightarrow> u32 option" where
  "lookup_virtual_ip db planar_ip = map_of (planar_to_virtual_map db) planar_ip"

definition lookup_planar_interfaces :: "host_db \<Rightarrow> u32 \<Rightarrow> planar_interface list option" where
  "lookup_planar_interfaces db vip = map_of (virtual_to_planar_map db) vip"

subsection \<open>Serialisation\<close>

definition be32 :: "u32 \<Rightarrow> byte list" where
  "be32 w = mem32 (htonl w)"

text \<open>A length in network order followed by that many bytes.\<close>

definition ser_bytes :: "byte list \<Rightarrow> byte list" where
  "ser_bytes s = be32 (word_of_nat (length s)) @ s"

definition ser_cstr :: "byte list \<Rightarrow> byte list option" where
  "ser_cstr a = do { n \<leftarrow> c_strlen a; Some (ser_bytes (take n a)) }"

definition ser_interface :: "planar_interface \<Rightarrow> byte list option" where
  "ser_interface p = do {
     a \<leftarrow> ser_cstr (pi_id p);
     b \<leftarrow> ser_cstr (pi_name p);
     Some (a @ b @ mem32 (ipv4_addr p) @ ipv6_addr p) }"

definition ser_device :: "device \<Rightarrow> byte list option" where
  "ser_device d = do {
     a \<leftarrow> ser_cstr (virtual_intf d);
     b \<leftarrow> ser_loop ser_interface (planar_intfs d) 0 (nat (num_interfaces d));
     Some (a @ mem32 (virtual_ip d) @ be32 (word_of_int (num_interfaces d)) @ b) }"

definition serialize_host :: "host \<Rightarrow> byte list option" where
  "serialize_host h = do {
     b \<leftarrow> ser_loop ser_device (devices h) 0 (nat (num_devices h));
     Some (ser_bytes (map byte_of_char (host_name h)) @ ser_bytes (map byte_of_char (host_ip h)) @
           be32 (word_of_int (num_devices h)) @ b) }"

definition serialize_all_hosts :: "host_db \<Rightarrow> byte list option" where
  "serialize_all_hosts db = do {
     b \<leftarrow> ser_loop serialize_host (map snd (all_hosts db)) 0 (length (all_hosts db));
     Some (be32 (word_of_nat (length (all_hosts db))) @ b) }"

subsection \<open>Deserialisation\<close>

definition des_u32 :: "byte list \<Rightarrow> nat \<Rightarrow> (u32 \<times> nat) option" where
  "des_u32 buf off = map_option (\<lambda>(w, o'). (htonl w, o')) (rd_u32 buf off)"

definition des_bytes :: "byte list \<Rightarrow> nat \<Rightarrow> (byte list \<times> nat) option" where
  "des_bytes buf off = do { (n, off) \<leftarrow> des_u32 buf off; rd_bytes buf off (unat n) }"

definition des_cstr :: "byte list \<Rightarrow> byte list \<Rightarrow> nat \<Rightarrow> (byte list \<times> nat) option" where
  "des_cstr dst buf off = do { (bs, off) \<leftarrow> des_bytes buf off; a \<leftarrow> store_cstr dst bs; Some (a, off) }"

definition des_interface :: "planar_interface \<Rightarrow> byte list \<Rightarrow> nat \<Rightarrow> (planar_interface \<times> nat) option" where
  "des_interface p buf off = do {
     (a, off) \<leftarrow> des_cstr (pi_id p) buf off;
     (b, off) \<leftarrow> des_cstr (pi_name p) buf off;
     (v4, off) \<leftarrow> rd_u32 buf off;
     (v6, off) \<leftarrow> rd_bytes buf off 16;
     Some (\<lparr>pi_id = a, pi_name = b, ipv4_addr = v4, ipv6_addr = v6\<rparr>, off) }"

definition des_device :: "device \<Rightarrow> byte list \<Rightarrow> nat \<Rightarrow> (device \<times> nat) option" where
  "des_device d buf off = do {
     (a, off) \<leftarrow> des_cstr (virtual_intf d) buf off;
     (vip, off) \<leftarrow> rd_u32 buf off;
     (n, off) \<leftarrow> des_u32 buf off;
     (ps, off) \<leftarrow> des_loop des_interface (planar_intfs d) 0 (unat n) buf off;
     Some (\<lparr>virtual_intf = a, virtual_ip = vip, num_interfaces = sint n, planar_intfs = ps\<rparr>, off) }"

definition deserialize_host_at :: "host \<Rightarrow> byte list \<Rightarrow> nat \<Rightarrow> (host \<times> nat) option" where
  "deserialize_host_at h buf off = do {
     (nm, off) \<leftarrow> des_bytes buf off;
     (ip, off) \<leftarrow> des_bytes buf off;
     (n, off) \<leftarrow> des_u32 buf off;
     (ds, off) \<leftarrow> des_loop des_device (devices h) 0 (unat n) buf off;
     Some (\<lparr>host_name = map char_of_byte nm, host_ip = map char_of_byte ip,
            num_devices = sint n, devices = ds\<rparr>, off) }"

definition deserialize_host :: "host \<Rightarrow> byte list \<Rightarrow> host option" where
  "deserialize_host fresh buf = map_option fst (deserialize_host_at fresh buf 0)"

fun des_hosts :: "(nat \<Rightarrow> host) \<Rightarrow> nat \<Rightarrow> nat \<Rightarrow> (string \<times> host) list \<Rightarrow> byte list \<Rightarrow> nat \<Rightarrow> (string \<times> host) list option" where
  "des_hosts fresh i 0 m buf off = Some m"
| "des_hosts fresh i (Suc n) m buf off = do {
     (h, off) \<leftarrow> deserialize_host_at (fresh i) buf off;
     des_hosts fresh (Suc i) n (map_put (host_name h) h m) buf off }"

definition deserialize_all_hosts :: "(nat \<Rightarrow> host) \<Rightarrow> host_db \<Rightarrow> byte list \<Rightarrow> host_db option" where
  "deserialize_all_hosts fresh db buf = do {
     (n, off) \<leftarrow> des_u32 buf 0;
     m \<leftarrow> des_hosts fresh 0 (unat n) (all_hosts db) buf off;
     Some (db\<lparr>all_hosts := m\<rparr>) }"

subsection \<open>Printing a host\<close>

text \<open>
  The lines \<open>print_planar_config\<close> writes to standard output.  It prints every slot of
  \<open>host.devices\<close>, whatever \<open>num_devices\<close> says; a string without a NUL and an interface index
  outside the array are undefined.  \<open>ntop6\<close> stands for \<open>inet_ntop(AF_INET6, ...)\<close>.
\<close>

definition cstr_text :: "byte list \<Rightarrow> string option" where
  "cstr_text a = do { n \<leftarrow> c_strlen a; Some (map char_of_byte (take n a)) }"

definition print_interface :: "(byte list \<Rightarrow> string option) \<Rightarrow> planar_interface \<Rightarrow> string list option" where
  "print_interface ntop6 p = do {
     i \<leftarrow> cstr_text (pi_id p);
     n \<leftarrow> cstr_text (pi_name p);
     Some ([''    - ID: '' @ i, ''      Name: '' @ n] @
       (if ipv4_addr p \<noteq> 0 then [''      IPv4 Address: '' @ inet_ntop4 (ipv4_addr p)] else []) @
       (if list_all (\<lambda>b. b = 0) (ipv6_addr p) then [] else
          (case ntop6 (ipv6_addr p) of Some t \<Rightarrow> [''      IPv6 Address: '' @ t] | None \<Rightarrow> []))) }"

fun print_loop :: "('b \<Rightarrow> string list option) \<Rightarrow> 'b list \<Rightarrow> nat \<Rightarrow> nat \<Rightarrow> string list option" where
  "print_loop f xs i 0 = Some []"
| "print_loop f xs i (Suc n) = do { x \<leftarrow> arr_get xs i; a \<leftarrow> f x; b \<leftarrow> print_loop f xs (Suc i) n; Some (a @ b) }"

definition print_device :: "(byte list \<Rightarrow> string option) \<Rightarrow> device \<Rightarrow> string list option" where
  "print_device ntop6 d = do {
     v \<leftarrow> cstr_text (virtual_intf d);
     b \<leftarrow> print_loop (print_interface ntop6) (planar_intfs d) 0 (nat (num_interfaces d));
     Some ([CHR 0x09 # ''Virtual Intf      : '' @ v, CHR 0x09 # ''Virtual IP        : '' @ inet_ntop4 (virtual_ip d),
            CHR 0x09 # ''Planar Interfaces :''] @ b @ [Nil]) }"

definition print_planar_config :: "(byte list \<Rightarrow> string option) \<Rightarrow> host \<Rightarrow> (int \<times> string list) option" where
  "print_planar_config ntop6 h = do {
     b \<leftarrow> print_loop (print_device ntop6) (devices h) 0 (length (devices h));
     Some (ANP_SUCCESS, [''Host Name         : '' @ host_name h, ''Host IP           : '' @ host_ip h,
                         ''Devices           : ''] @ b) }"

subsection \<open>Parsing the planar configuration\<close>

text \<open>
  The property tree of boost and \<open>inet_pton(AF_INET6, ...)\<close>, code outside the repository: \<open>None\<close> from
  \<open>read_json\<close>, \<open>pt_get\<close> and \<open>pt_child\<close> is a thrown exception, \<open>None\<close> from \<open>inet_pton6\<close> an address that
  does not parse.  \<open>Throws s\<close> carries the part of the host that was filled before the exception.
  The message of the exception is not part of the model.
\<close>

record 't ptree_ops =
  read_json :: "string \<Rightarrow> 't option"
  pt_get :: "'t \<Rightarrow> string \<Rightarrow> string option"
  pt_child :: "'t \<Rightarrow> string \<Rightarrow> 't list option"
  inet_pton6 :: "string \<Rightarrow> byte list option"
  inet_ntop6 :: "byte list \<Rightarrow> string option"

datatype 's exc = Throws 's | Goes 's

definition c_str :: "string \<Rightarrow> string" where
  "c_str s = takeWhile (\<lambda>c. c \<noteq> CHR 0x00) s"

definition zero_interface :: planar_interface where
  "zero_interface = \<lparr>pi_id = replicate MAX_STR_LEN 0, pi_name = replicate MAX_STR_LEN 0, ipv4_addr = 0, ipv6_addr = replicate 16 0\<rparr>"

definition zero_device :: device where
  "zero_device = \<lparr>virtual_intf = replicate MAX_STR_LEN 0, virtual_ip = 0, num_interfaces = 0, planar_intfs = replicate MAX_INTERFACES zero_interface\<rparr>"

definition copy_name :: "byte list \<Rightarrow> string \<Rightarrow> byte list" where
  "copy_name dst s = c_strncpy dst s (MAX_STR_LEN - 1)"

definition parse_interface :: "'t ptree_ops \<Rightarrow> 't \<Rightarrow> planar_interface exc" where
  "parse_interface P t = (case pt_get P t ''id'' of None \<Rightarrow> Throws zero_interface | Some i \<Rightarrow>
     let p = zero_interface\<lparr>pi_id := copy_name (pi_id zero_interface) i\<rparr> in
     (case pt_get P t ''name'' of None \<Rightarrow> Throws p | Some n \<Rightarrow>
     let p = p\<lparr>pi_name := copy_name (pi_name p) n\<rparr> in
     (case pt_get P t ''ipv4_addr'' of None \<Rightarrow> Throws p | Some a \<Rightarrow>
     let p = (case inet_pton4 (c_str a) of Some w \<Rightarrow> p\<lparr>ipv4_addr := w\<rparr> | None \<Rightarrow> p) in
     (case pt_get P t ''ipv6_addr'' of None \<Rightarrow> Throws p | Some b \<Rightarrow>
     Goes (case inet_pton6 P (c_str b) of Some w \<Rightarrow> p\<lparr>ipv6_addr := w\<rparr> | None \<Rightarrow> p)))))"

fun parse_interfaces :: "'t ptree_ops \<Rightarrow> 't list \<Rightarrow> nat \<Rightarrow> device \<Rightarrow> device exc" where
  "parse_interfaces P [] k d = Goes (d\<lparr>num_interfaces := int k\<rparr>)"
| "parse_interfaces P (t # ts) k d =
     (if MAX_INTERFACES \<le> k then Goes (d\<lparr>num_interfaces := int k\<rparr>)
      else (case parse_interface P t of
          Throws p \<Rightarrow> Throws (d\<lparr>planar_intfs := (planar_intfs d)[k := p]\<rparr>)
        | Goes p \<Rightarrow> parse_interfaces P ts (Suc k) (d\<lparr>planar_intfs := (planar_intfs d)[k := p]\<rparr>)))"

definition parse_device :: "'t ptree_ops \<Rightarrow> 't \<Rightarrow> device exc" where
  "parse_device P t = (case pt_get P t ''virtual_intf'' of None \<Rightarrow> Throws zero_device | Some v \<Rightarrow>
     let d = zero_device\<lparr>virtual_intf := copy_name (virtual_intf zero_device) v\<rparr> in
     (case pt_get P t ''virtual_ip'' of None \<Rightarrow> Throws d | Some a \<Rightarrow>
     let d = (case inet_pton4 (c_str a) of Some w \<Rightarrow> d\<lparr>virtual_ip := w\<rparr> | None \<Rightarrow> d) in
     (case pt_child P t ''planar_intfs'' of None \<Rightarrow> Throws d | Some ts \<Rightarrow> parse_interfaces P ts 0 d)))"

fun parse_devices :: "'t ptree_ops \<Rightarrow> 't list \<Rightarrow> nat \<Rightarrow> host \<Rightarrow> host exc" where
  "parse_devices P [] k h = Goes (h\<lparr>num_devices := int k\<rparr>)"
| "parse_devices P (t # ts) k h =
     (if MAX_DEVICES \<le> k then Goes (h\<lparr>num_devices := int k\<rparr>)
      else (case parse_device P t of
          Throws d \<Rightarrow> Throws (h\<lparr>devices := (devices h)[k := d]\<rparr>)
        | Goes d \<Rightarrow> parse_devices P ts (Suc k) (h\<lparr>devices := (devices h)[k := d]\<rparr>)))"

definition parse_host :: "'t ptree_ops \<Rightarrow> string \<Rightarrow> host \<Rightarrow> host exc" where
  "parse_host P file h = (case read_json P file of None \<Rightarrow> Throws h | Some t \<Rightarrow>
     (case pt_get P t ''host_name'' of None \<Rightarrow> Throws h | Some nm \<Rightarrow>
     let h = h\<lparr>host_name := nm\<rparr> in
     (case pt_get P t ''host_ip'' of None \<Rightarrow> Throws h | Some ip \<Rightarrow>
     let h = h\<lparr>host_ip := ip\<rparr> in
     (case pt_child P t ''devices'' of None \<Rightarrow> Throws h | Some ts \<Rightarrow> parse_devices P ts 0 h))))"

definition parse_planar_config :: "'t ptree_ops \<Rightarrow> string \<Rightarrow> host \<Rightarrow> (int \<times> host \<times> string list) option" where
  "parse_planar_config P file h =
     (if file = [] then Some (ANP_FAILURE, h, [''Planar config json not specified''])
      else let h' = (case parse_host P file h of Goes g \<Rightarrow> g | Throws g \<Rightarrow> g) in
        do { (_, out) \<leftarrow> print_planar_config (inet_ntop6 P) h'; Some (ANP_SUCCESS, h', out) })"

subsection \<open>Well-formed values, and what of a value is on the wire\<close>

definition interface_shape :: "planar_interface \<Rightarrow> bool" where
  "interface_shape p \<longleftrightarrow> length (pi_id p) = MAX_STR_LEN \<and> length (pi_name p) = MAX_STR_LEN"

definition device_shape :: "device \<Rightarrow> bool" where
  "device_shape d \<longleftrightarrow> length (virtual_intf d) = MAX_STR_LEN \<and> length (planar_intfs d) = MAX_INTERFACES \<and>
     list_all interface_shape (planar_intfs d)"

definition host_shape :: "host \<Rightarrow> bool" where
  "host_shape h \<longleftrightarrow> length (devices h) = MAX_DEVICES \<and> list_all device_shape (devices h)"

definition interface_ok :: "planar_interface \<Rightarrow> bool" where
  "interface_ok p \<longleftrightarrow> interface_shape p \<and> 0 \<in> set (pi_id p) \<and> 0 \<in> set (pi_name p) \<and> length (ipv6_addr p) = 16"

definition device_ok :: "device \<Rightarrow> bool" where
  "device_ok d \<longleftrightarrow> device_shape d \<and> 0 \<in> set (virtual_intf d) \<and> 0 \<le> num_interfaces d \<and>
     num_interfaces d \<le> int MAX_INTERFACES \<and> list_all interface_ok (take (nat (num_interfaces d)) (planar_intfs d))"

definition host_ok :: "host \<Rightarrow> bool" where
  "host_ok h \<longleftrightarrow> host_shape h \<and> length (host_name h) < 2 ^ 32 \<and> length (host_ip h) < 2 ^ 32 \<and>
     0 \<le> num_devices h \<and> num_devices h \<le> int MAX_DEVICES \<and> list_all device_ok (take (nat (num_devices h)) (devices h))"

definition hosts_ok :: "(string \<times> host) list \<Rightarrow> bool" where
  "hosts_ok m \<longleftrightarrow> list_all host_ok (map snd m)"

type_synonym interface_view = "byte list \<times> byte list \<times> u32 \<times> byte list"
type_synonym device_view = "byte list \<times> u32 \<times> interface_view list"
type_synonym host_view = "string \<times> string \<times> device_view list"

definition view_interface :: "planar_interface \<Rightarrow> interface_view" where
  "view_interface p = (cstr (pi_id p), cstr (pi_name p), ipv4_addr p, ipv6_addr p)"

definition view_device :: "device \<Rightarrow> device_view" where
  "view_device d = (cstr (virtual_intf d), virtual_ip d, map view_interface (take (nat (num_interfaces d)) (planar_intfs d)))"

definition view_host :: "host \<Rightarrow> host_view" where
  "view_host h = (host_name h, host_ip h, map view_device (take (nat (num_devices h)) (devices h)))"

subsection \<open>Round trips\<close>

lemma length_be32 [simp]: "length (be32 w) = 4"
  by (simp add: be32_def)

lemma des_u32_at [codec_simps]: "des_u32 (pre @ be32 w @ suf) (length pre) = Some (w, length pre + 4)"
  by (simp add: des_u32_def be32_def rd_u32_at)

lemma des_bytes_at:
  assumes "length s < 2 ^ 32"
  shows "des_bytes (pre @ ser_bytes s @ suf) (length pre) = Some (s, length pre + length (ser_bytes s))"
proof -
  have u: "unat (word_of_nat (length s) :: u32) = length s"
    using assms by (simp add: unsigned_of_nat take_bit_nat_eq_self)
  have "des_u32 (pre @ be32 (word_of_nat (length s)) @ s @ suf) (length pre) = Some (word_of_nat (length s), length pre + 4)"
    by (rule des_u32_at)
  moreover have "rd_bytes (pre @ be32 (word_of_nat (length s)) @ s @ suf) (length pre + 4) (length s)
      = Some (s, length pre + 4 + length s)"
    using rd_bytes_at [of s "length s" "pre @ be32 (word_of_nat (length s))" suf] by simp
  ultimately show ?thesis by (simp add: des_bytes_def ser_bytes_def u)
qed

lemma ser_cstr_ok: "0 \<in> set a \<Longrightarrow> ser_cstr a = Some (ser_bytes (cstr a))"
  by (simp add: ser_cstr_def c_strlen_def take_cstr)

lemma des_cstr_at:
  assumes "0 \<in> set a" "length a \<le> length dst" "length a < 2 ^ 32" "ser_cstr a = Some bs"
  shows "\<exists>b. des_cstr dst (pre @ bs @ suf) (length pre) = Some (b, length pre + length bs) \<and>
    cstr b = cstr a \<and> length b = length dst \<and> 0 \<in> set b"
proof -
  have l: "length (cstr a) < length a" using assms(1) by (rule length_cstr_less)
  then obtain b where b: "store_cstr dst (cstr a) = Some b" "cstr b = cstr a" "length b = length dst" "0 \<in> set b"
    using store_cstr_ok [of "cstr a" dst] assms(2) cstr_no_nul by auto
  have "bs = ser_bytes (cstr a)" using assms(1,4) by (simp add: ser_cstr_ok)
  then show ?thesis using des_bytes_at [of "cstr a" pre suf] l assms(3) b by (simp add: des_cstr_def)
qed

lemma interface_ok_shape: "interface_ok p \<Longrightarrow> interface_shape p"
  by (simp add: interface_ok_def)

lemma device_ok_shape: "device_ok d \<Longrightarrow> device_shape d"
  by (simp add: device_ok_def)

lemma host_ok_shape: "host_ok h \<Longrightarrow> host_shape h"
  by (simp add: host_ok_def)

lemma ser_interface_ok: "interface_ok p \<Longrightarrow> \<exists>bs. ser_interface p = Some bs"
  by (simp add: interface_ok_def ser_interface_def ser_cstr_ok)

lemma des_ser_interface:
  assumes "interface_ok p" "ser_interface p = Some bs" "interface_shape s"
  shows "\<exists>q. des_interface s (pre @ bs @ suf) (length pre) = Some (q, length pre + length bs) \<and>
    view_interface q = view_interface p \<and> interface_ok q"
proof -
  note ok = assms(1) [unfolded interface_ok_def interface_shape_def MAX_STR_LEN_def]
  note sh = assms(3) [unfolded interface_shape_def MAX_STR_LEN_def]
  obtain a b where ab: "ser_cstr (pi_id p) = Some a" "ser_cstr (pi_name p) = Some b"
    "bs = a @ b @ mem32 (ipv4_addr p) @ ipv6_addr p"
    using assms(2) by (auto simp: ser_interface_def bind_eq_Some_conv)
  let ?buf = "pre @ a @ b @ mem32 (ipv4_addr p) @ ipv6_addr p @ suf"
  obtain x where x: "des_cstr (pi_id s) ?buf (length pre) = Some (x, length pre + length a)"
      "cstr x = cstr (pi_id p)" "length x = 64" "0 \<in> set x"
    using des_cstr_at [OF _ _ _ ab(1), of "pi_id s" pre "b @ mem32 (ipv4_addr p) @ ipv6_addr p @ suf"] ok sh by auto
  obtain y where y: "des_cstr (pi_name s) ?buf (length pre + length a) = Some (y, length pre + length a + length b)"
      "cstr y = cstr (pi_name p)" "length y = 64" "0 \<in> set y"
    using des_cstr_at [OF _ _ _ ab(2), of "pi_name s" "pre @ a" "mem32 (ipv4_addr p) @ ipv6_addr p @ suf"] ok sh by auto
  have v4: "rd_u32 ?buf (length pre + length a + length b) = Some (ipv4_addr p, length pre + length a + length b + 4)"
    using rd_u32_at [of "pre @ a @ b" "ipv4_addr p" "ipv6_addr p @ suf"] by (simp add: add.assoc)
  have v6: "rd_bytes ?buf (length pre + length a + length b + 4) 16 = Some (ipv6_addr p, length pre + length a + length b + 4 + 16)"
    using rd_bytes_at [of "ipv6_addr p" 16 "pre @ a @ b @ mem32 (ipv4_addr p)" suf] ok by (simp add: add.assoc)
  have "des_interface s (pre @ bs @ suf) (length pre) =
      Some (\<lparr>pi_id = x, pi_name = y, ipv4_addr = ipv4_addr p, ipv6_addr = ipv6_addr p\<rparr>, length pre + length bs)"
    using x(1) y(1) v4 v6 ok by (simp add: des_interface_def ab(3))
  then show ?thesis
    using x y ok by (auto simp: view_interface_def interface_ok_def interface_shape_def MAX_STR_LEN_def)
qed

interpretation ifc: codec ser_interface des_interface interface_ok interface_shape view_interface
  by unfold_locales (simp_all add: ser_interface_ok des_ser_interface interface_ok_shape)

lemma ser_device_ok: "device_ok d \<Longrightarrow> \<exists>bs. ser_device d = Some bs"
  using ifc.ser_prefix_ok [of "nat (num_interfaces d)" "planar_intfs d"]
  by (auto simp: device_ok_def device_shape_def ser_device_def ser_cstr_ok nat_le_iff)

lemma count_word:
  assumes "0 \<le> n" "n \<le> int k" "k < 2 ^ 31"
  shows "unat (word_of_int n :: u32) = nat n" "sint (word_of_int n :: u32) = n"
proof -
  have "n < 2 ^ 31" using assms(2,3) by (simp add: order_le_less_trans)
  then show "unat (word_of_int n :: u32) = nat n"
    using assms(1) by (simp add: unat_eq_nat_uint unsigned_of_int take_bit_int_eq_self)
  show "sint (word_of_int n :: u32) = n"
    using \<open>n < 2 ^ 31\<close> assms(1) by (simp add: signed_of_int signed_take_bit_int_eq_self)
qed

lemma des_ser_device:
  assumes "device_ok d" "ser_device d = Some bs" "device_shape s"
  shows "\<exists>e. des_device s (pre @ bs @ suf) (length pre) = Some (e, length pre + length bs) \<and>
    view_device e = view_device d \<and> device_ok e"
proof -
  note ok = assms(1) [unfolded device_ok_def device_shape_def MAX_STR_LEN_def MAX_INTERFACES_def]
  note sh = assms(3) [unfolded device_shape_def MAX_STR_LEN_def MAX_INTERFACES_def]
  let ?n = "nat (num_interfaces d)" and ?w = "word_of_int (num_interfaces d) :: u32"
  have w: "unat ?w = ?n" "sint ?w = num_interfaces d" using count_word [of "num_interfaces d" 64] ok by auto
  obtain a b where ab: "ser_cstr (virtual_intf d) = Some a" "ser_loop ser_interface (planar_intfs d) 0 ?n = Some b"
    "bs = a @ mem32 (virtual_ip d) @ be32 ?w @ b"
    using assms(2) by (auto simp: ser_device_def bind_eq_Some_conv)
  let ?buf = "pre @ a @ mem32 (virtual_ip d) @ be32 ?w @ b @ suf"
  obtain x where x: "des_cstr (virtual_intf s) ?buf (length pre) = Some (x, length pre + length a)"
      "cstr x = cstr (virtual_intf d)" "length x = 64" "0 \<in> set x"
    using des_cstr_at [OF _ _ _ ab(1), of "virtual_intf s" pre "mem32 (virtual_ip d) @ be32 ?w @ b @ suf"] ok sh by auto
  have v: "rd_u32 ?buf (length pre + length a) = Some (virtual_ip d, length pre + length a + 4)"
    using rd_u32_at [of "pre @ a" "virtual_ip d" "be32 ?w @ b @ suf"] by (simp add: add.assoc)
  have c: "des_u32 ?buf (length pre + length a + 4) = Some (?w, length pre + length a + 4 + 4)"
    using des_u32_at [of "pre @ a @ mem32 (virtual_ip d)" ?w "b @ suf"] by (simp add: add.assoc)
  obtain ys where ys: "des_loop des_interface (planar_intfs s) 0 ?n ?buf (length pre + length a + 4 + 4)
        = Some (ys, length pre + length a + 4 + 4 + length b)"
      "length ys = 64" "list_all interface_shape ys" "list_all interface_ok (take ?n ys)"
      "map view_interface (take ?n ys) = map view_interface (take ?n (planar_intfs d))"
    using ifc.des_ser_prefix [of ?n "planar_intfs d" b "planar_intfs s" "pre @ a @ mem32 (virtual_ip d) @ be32 ?w" suf] ok sh ab(2)
    by (auto simp: add.assoc nat_le_iff)
  have "des_device s (pre @ bs @ suf) (length pre) = Some (\<lparr>virtual_intf = x, virtual_ip = virtual_ip d,
      num_interfaces = num_interfaces d, planar_intfs = ys\<rparr>, length pre + length bs)"
    using x(1) v c ys(1) w by (simp add: des_device_def ab(3))
  then show ?thesis using x ys ok
    by (auto simp: view_device_def device_ok_def device_shape_def MAX_STR_LEN_def MAX_INTERFACES_def)
qed

interpretation dvc: codec ser_device des_device device_ok device_shape view_device
  by unfold_locales (simp_all add: ser_device_ok des_ser_device device_ok_shape)

lemma serialize_host_ok: "host_ok h \<Longrightarrow> \<exists>bs. serialize_host h = Some bs"
  using dvc.ser_prefix_ok [of "nat (num_devices h)" "devices h"]
  by (auto simp: host_ok_def host_shape_def serialize_host_def nat_le_iff)

lemma des_ser_host:
  assumes "host_ok h" "serialize_host h = Some bs" "host_shape s"
  shows "\<exists>g. deserialize_host_at s (pre @ bs @ suf) (length pre) = Some (g, length pre + length bs) \<and>
    view_host g = view_host h \<and> host_ok g"
proof -
  note ok = assms(1) [unfolded host_ok_def host_shape_def MAX_DEVICES_def]
  note sh = assms(3) [unfolded host_shape_def MAX_DEVICES_def]
  let ?n = "nat (num_devices h)" and ?w = "word_of_int (num_devices h) :: u32"
  let ?a = "ser_bytes (map byte_of_char (host_name h))" and ?i = "ser_bytes (map byte_of_char (host_ip h))"
  have w: "unat ?w = ?n" "sint ?w = num_devices h" using count_word [of "num_devices h" 8] ok by auto
  obtain b where b: "ser_loop ser_device (devices h) 0 ?n = Some b" "bs = ?a @ ?i @ be32 ?w @ b"
    using assms(2) by (auto simp: serialize_host_def bind_eq_Some_conv)
  let ?buf = "pre @ ?a @ ?i @ be32 ?w @ b @ suf"
  have x: "des_bytes ?buf (length pre) = Some (map byte_of_char (host_name h), length pre + length ?a)"
    using des_bytes_at [of "map byte_of_char (host_name h)" pre] ok by simp
  have y: "des_bytes ?buf (length pre + length ?a) = Some (map byte_of_char (host_ip h), length pre + length ?a + length ?i)"
    using des_bytes_at [of "map byte_of_char (host_ip h)" "pre @ ?a"] ok by simp
  have c: "des_u32 ?buf (length pre + length ?a + length ?i) = Some (?w, length pre + length ?a + length ?i + 4)"
    using des_u32_at [of "pre @ ?a @ ?i" ?w "b @ suf"] by (simp add: add.assoc)
  obtain ys where ys: "des_loop des_device (devices s) 0 ?n ?buf (length pre + length ?a + length ?i + 4)
        = Some (ys, length pre + length ?a + length ?i + 4 + length b)"
      "length ys = 8" "list_all device_shape ys" "list_all device_ok (take ?n ys)"
      "map view_device (take ?n ys) = map view_device (take ?n (devices h))"
    using dvc.des_ser_prefix [of ?n "devices h" b "devices s" "pre @ ?a @ ?i @ be32 ?w" suf] ok sh b(1)
    by (auto simp: add.assoc nat_le_iff)
  have "deserialize_host_at s (pre @ bs @ suf) (length pre) = Some (\<lparr>host_name = host_name h, host_ip = host_ip h,
      num_devices = num_devices h, devices = ys\<rparr>, length pre + length bs)"
    using x y c ys(1) w by (simp add: deserialize_host_at_def b(2) comp_def)
  then show ?thesis using ys ok by (auto simp: view_host_def host_ok_def host_shape_def MAX_DEVICES_def)
qed

interpretation hc: codec serialize_host deserialize_host_at host_ok host_shape view_host
  by unfold_locales (simp_all add: serialize_host_ok des_ser_host host_ok_shape)

subsection \<open>The host map after deserialisation\<close>

definition host_views :: "(string \<times> host) list \<Rightarrow> (string \<rightharpoonup> host_view)" where
  "host_views m k = map_option view_host (map_of m k)"

definition named_views :: "host list \<Rightarrow> (string \<rightharpoonup> host_view)" where
  "named_views hs = map_of (rev (map (\<lambda>h. (host_name h, view_host h)) hs))"

lemma host_views_put: "host_views (map_put k h m) = (host_views m)(k \<mapsto> view_host h)"
  by (rule ext) (simp add: host_views_def map_of_map_put)

lemma named_views_Cons: "named_views (h # hs) = (\<lambda>k. case named_views hs k of Some v \<Rightarrow> Some v
    | None \<Rightarrow> if k = host_name h then Some (view_host h) else None)"
  by (rule ext) (simp add: named_views_def map_add_def split: option.splits)

lemma map_add_named_Cons: "m(host_name h \<mapsto> view_host h) ++ named_views hs = m ++ named_views (h # hs)"
  by (rule ext) (simp add: named_views_Cons map_add_def split: option.splits)

lemma hosts_ok_put: "hosts_ok m \<Longrightarrow> host_ok v \<Longrightarrow> hosts_ok (map_put k v m)"
  by (induction m) (auto simp: hosts_ok_def)

lemma des_hosts_at:
  assumes "list_all host_ok hs" "ser_loop serialize_host hs' i (length hs) = Some bs" "drop i hs' = hs" "\<forall>j. host_shape (fresh j)"
  shows "\<exists>m'. des_hosts fresh f (length hs) m (pre @ bs) (length pre) = Some m' \<and> host_views m' = host_views m ++ named_views hs \<and>
    (hosts_ok m \<longrightarrow> hosts_ok m')"
  using assms
proof (induction hs arbitrary: i bs pre m f)
  case Nil
  then show ?case by (simp add: named_views_def)
next
  case (Cons h hs)
  have i: "i < length hs'" "hs' ! i = h" "drop (Suc i) hs' = hs"
    using Cons.prems(3) by (metis drop_all leI list.distinct(1), metis nth_via_drop, metis Cons.prems(3) drop_Suc list.sel(3) tl_drop)
  then obtain a b where ab: "serialize_host h = Some a" "ser_loop serialize_host hs' (Suc i) (length hs) = Some b" "bs = a @ b"
    using Cons.prems(2) by (auto simp: ub_simps bind_eq_Some_conv)
  obtain g where g: "deserialize_host_at (fresh f) (pre @ a @ b) (length pre) = Some (g, length pre + length a)"
      "view_host g = view_host h" "host_ok g"
    using des_ser_host [of h a "fresh f" pre b] Cons.prems ab(1) by auto
  have nm: "host_name g = host_name h" using g(2) by (simp add: view_host_def)
  obtain m' where m': "des_hosts fresh (Suc f) (length hs) (map_put (host_name g) g m) ((pre @ a) @ b) (length (pre @ a)) = Some m'"
      "host_views m' = host_views (map_put (host_name g) g m) ++ named_views hs"
      "hosts_ok (map_put (host_name g) g m) \<longrightarrow> hosts_ok m'"
    using Cons.IH [of "Suc i" b "Suc f" "map_put (host_name g) g m" "pre @ a"] Cons.prems i(3) ab(2) by auto
  have "host_views m' = host_views m ++ named_views (h # hs)"
    using m'(2) by (simp add: host_views_put g(2) nm map_add_named_Cons)
  moreover have "hosts_ok m \<longrightarrow> hosts_ok m'"
    using m'(3) g(3) by (simp add: hosts_ok_put)
  ultimately show ?case using g(1) m'(1) ab(3) by simp
qed

lemma serialize_all_hosts_ok:
  assumes "hosts_ok (all_hosts db)"
  shows "\<exists>bs. serialize_all_hosts db = Some bs"
  using assms hc.ser_prefix_ok [of "length (all_hosts db)" "map snd (all_hosts db)"]
  by (auto simp: serialize_all_hosts_def hosts_ok_def)

lemma deserialize_all_hosts_at:
  assumes "hosts_ok (all_hosts db)" "length (all_hosts db) < 2 ^ 32"
    and "serialize_all_hosts db = Some bs" "\<forall>j. host_shape (fresh j)"
  shows "\<exists>db'. deserialize_all_hosts fresh db0 bs = Some db' \<and> local_ip db' = local_ip db0 \<and>
    host_views (all_hosts db') = host_views (all_hosts db0) ++ named_views (map snd (all_hosts db)) \<and>
    (hosts_ok (all_hosts db0) \<longrightarrow> hosts_ok (all_hosts db'))"
proof -
  let ?hs = "map snd (all_hosts db)" and ?w = "word_of_nat (length (all_hosts db)) :: u32"
  have u: "unat ?w = length ?hs" using assms(2) by (simp add: unsigned_of_nat take_bit_nat_eq_self)
  obtain b where b: "ser_loop serialize_host ?hs 0 (length ?hs) = Some b" "bs = be32 ?w @ b"
    using assms(3) by (auto simp: serialize_all_hosts_def bind_eq_Some_conv)
  have "des_u32 bs 0 = Some (?w, 4)" using des_u32_at [of "[]" ?w b] b(2) by simp
  moreover obtain m' where "des_hosts fresh 0 (length ?hs) (all_hosts db0) bs 4 = Some m'"
      "host_views m' = host_views (all_hosts db0) ++ named_views ?hs"
      "hosts_ok (all_hosts db0) \<longrightarrow> hosts_ok m'"
    using des_hosts_at [OF assms(1) [unfolded hosts_ok_def] b(1) _ assms(4), of 0 "all_hosts db0" "be32 ?w"] b(2) by auto
  ultimately show ?thesis by (auto simp: deserialize_all_hosts_def u)
qed

subsection \<open>What the parser produces\<close>

lemma zero_interface_ok [simp]: "interface_ok zero_interface"
  by (simp add: interface_ok_def interface_shape_def zero_interface_def MAX_STR_LEN_def)

lemma zero_device_ok [simp]: "device_ok zero_device"
  by (simp add: device_ok_def device_shape_def zero_device_def MAX_STR_LEN_def MAX_INTERFACES_def list_all_iff interface_ok_shape)

lemma strncpy_zero_ok:
  "length (copy_name (replicate MAX_STR_LEN 0) s) = MAX_STR_LEN"
  "0 \<in> set (copy_name (replicate MAX_STR_LEN 0) s)"
  by (simp_all add: copy_name_def MAX_STR_LEN_def c_strncpy_nul)

definition pton6_sound :: "'t ptree_ops \<Rightarrow> bool" where
  "pton6_sound P \<longleftrightarrow> (\<forall>s w. inet_pton6 P s = Some w \<longrightarrow> length w = 16)"

lemma parse_interface_ok:
  "pton6_sound P \<Longrightarrow> parse_interface P t = Goes p \<or> parse_interface P t = Throws p \<Longrightarrow> interface_ok p"
  by (auto simp: parse_interface_def Let_def interface_ok_def interface_shape_def pton6_sound_def
      zero_interface_def strncpy_zero_ok split: option.splits) (simp_all add: MAX_STR_LEN_def)

definition filling :: "nat \<Rightarrow> device \<Rightarrow> bool" where
  "filling k d \<longleftrightarrow> device_shape d \<and> 0 \<in> set (virtual_intf d) \<and> num_interfaces d = 0 \<and> k \<le> MAX_INTERFACES \<and>
     list_all interface_ok (planar_intfs d)"

lemma filling_step:
  assumes "filling k d" "interface_ok p" "k < MAX_INTERFACES"
  shows "filling (Suc k) (d\<lparr>planar_intfs := (planar_intfs d)[k := p]\<rparr>)"
  using assms by (auto simp: filling_def device_shape_def list_all_iff interface_ok_shape
      dest!: set_update_subset_insert [THEN subsetD])

lemma filling_ok: "filling k d \<Longrightarrow> n \<le> k \<Longrightarrow> device_ok (d\<lparr>num_interfaces := int n\<rparr>)"
  by (auto simp: filling_def device_ok_def device_shape_def list_all_iff dest: in_set_takeD)

lemma filling_ok0: "filling k d \<Longrightarrow> device_ok d"
  by (auto simp: filling_def device_ok_def)

lemma parse_interfaces_ok:
  assumes "pton6_sound P" "filling k d" "parse_interfaces P ts k d = Goes e \<or> parse_interfaces P ts k d = Throws e"
  shows "device_ok e"
  using assms
proof (induction P ts k d rule: parse_interfaces.induct)
  case (1 P k d)
  then show ?case using filling_ok [of k d k] by auto
next
  case (2 P t ts k d)
  show ?case
  proof (cases "MAX_INTERFACES \<le> k")
    case True
    then show ?thesis using 2 filling_ok [of k d k] by auto
  next
    case False
    show ?thesis
    proof (cases "parse_interface P t")
      case (Throws p)
      then have "interface_ok p" using parse_interface_ok [OF "2.prems"(1)] by metis
      then show ?thesis using 2 False Throws filling_step [of k d p] filling_ok0 by auto
    next
      case (Goes p)
      then have "interface_ok p" using parse_interface_ok [OF "2.prems"(1)] by metis
      then show ?thesis using 2 False Goes filling_step [of k d p] by auto
    qed
  qed
qed

lemma filling_zero: "filling 0 (zero_device\<lparr>virtual_intf := copy_name (virtual_intf zero_device) v, virtual_ip := w\<rparr>)"
  "filling 0 (zero_device\<lparr>virtual_intf := copy_name (virtual_intf zero_device) v\<rparr>)"
  by (simp_all add: filling_def device_shape_def zero_device_def strncpy_zero_ok list_all_iff interface_ok_shape)

lemma parse_device_ok:
  "pton6_sound P \<Longrightarrow> parse_device P t = Goes d \<or> parse_device P t = Throws d \<Longrightarrow> device_ok d"
  by (auto simp: parse_device_def Let_def filling_ok0 [OF filling_zero(1)] filling_ok0 [OF filling_zero(2)]
      split: option.splits dest: parse_interfaces_ok [OF _ filling_zero(1)] parse_interfaces_ok [OF _ filling_zero(2)])

definition devices_ok_upto :: "nat \<Rightarrow> host \<Rightarrow> bool" where
  "devices_ok_upto k h \<longleftrightarrow> host_shape h \<and> k \<le> MAX_DEVICES \<and> list_all device_ok (take k (devices h))"

lemma devices_ok_step:
  assumes "devices_ok_upto k h" "device_ok d" "k < MAX_DEVICES"
  shows "devices_ok_upto (Suc k) (h\<lparr>devices := (devices h)[k := d]\<rparr>)"
  using assms by (auto simp: devices_ok_upto_def host_shape_def list_all_iff device_ok_shape take_Suc_conv_app_nth
      dest!: set_update_subset_insert [THEN subsetD])

lemma parse_devices_ok:
  assumes "pton6_sound P" "devices_ok_upto k h" "parse_devices P ts k h = Goes g"
    and "length (host_name h) < 2 ^ 32" "length (host_ip h) < 2 ^ 32"
  shows "host_ok g"
  using assms
proof (induction P ts k h rule: parse_devices.induct)
  case (1 P k h)
  then show ?case by (auto simp: devices_ok_upto_def host_ok_def host_shape_def)
next
  case (2 P t ts k h)
  show ?case
  proof (cases "MAX_DEVICES \<le> k")
    case True
    then show ?thesis using 2 by (auto simp: devices_ok_upto_def host_ok_def host_shape_def)
  next
    case False
    then obtain d where d: "parse_device P t = Goes d" using "2.prems"(3) by (auto split: exc.splits)
    then have "device_ok d" using parse_device_ok [OF "2.prems"(1)] by metis
    then show ?thesis using 2 False d devices_ok_step [of k h d] by simp
  qed
qed

lemma parse_devices_frame:
  "parse_devices P ts k h = Throws g \<Longrightarrow> num_devices g = num_devices h"
  by (induction P ts k h rule: parse_devices.induct) (auto split: if_splits exc.splits)

lemma parse_host_ok:
  assumes "pton6_sound P" "host_shape h" "parse_host P file h = Goes g"
    and "\<forall>t k s. pt_get P t k = Some s \<longrightarrow> length s < 2 ^ 32"
  shows "host_ok g"
proof -
  obtain t nm ip ts where t: "pt_get P t ''host_name'' = Some nm" "pt_get P t ''host_ip'' = Some ip"
      "parse_devices P ts 0 (h\<lparr>host_name := nm, host_ip := ip\<rparr>) = Goes g"
    using assms(3) by (auto simp: parse_host_def Let_def split: option.splits)
  have "devices_ok_upto 0 (h\<lparr>host_name := nm, host_ip := ip\<rparr>)"
    using assms(2) by (simp add: devices_ok_upto_def host_shape_def)
  moreover have "length nm < 2 ^ 32" "length ip < 2 ^ 32" using t(1,2) assms(4) by blast+
  ultimately show ?thesis using parse_devices_ok [OF assms(1) _ t(3)] by auto
qed

lemma parse_host_frame: "parse_host P file h = Throws g \<Longrightarrow> num_devices g = num_devices h"
  by (auto simp: parse_host_def Let_def split: option.splits dest: parse_devices_frame)

lemma parse_devices_untouched:
  "parse_devices P ts k h = Goes g \<Longrightarrow> int j \<ge> num_devices g \<Longrightarrow>
    devices g ! j = devices h ! j \<and> k \<le> nat (num_devices g) \<and> length (devices g) = length (devices h)"
proof (induction P ts k h rule: parse_devices.induct)
  case (1 P k h)
  then show ?case by auto
next
  case (2 P t ts k h)
  then show ?case by (cases "parse_device P t") (auto split: if_splits)
qed

lemma parse_host_untouched:
  "parse_host P file h = Goes g \<Longrightarrow> int j \<ge> num_devices g \<Longrightarrow>
    devices g ! j = devices h ! j \<and> length (devices g) = length (devices h)"
  by (auto simp: parse_host_def Let_def split: option.splits dest!: parse_devices_untouched)

lemma print_loop_None:
  "i \<le> j \<Longrightarrow> j < i + n \<Longrightarrow> j < length xs \<Longrightarrow> f (xs ! j) = None \<Longrightarrow> print_loop f xs i n = None"
proof (induction n arbitrary: i)
  case 0
  then show ?case by simp
next
  case (Suc n)
  then show ?case by (cases "i = j") (auto simp: arr_get_def bind_eq_None_conv)
qed

lemma print_loop_short: "length xs < i + n \<Longrightarrow> i \<le> length xs \<Longrightarrow> print_loop f xs i n = None"
proof (induction n arbitrary: i)
  case 0
  then show ?case by simp
next
  case (Suc n)
  then show ?case by (cases "i = length xs") (auto simp: arr_get_def bind_eq_None_conv)
qed

lemma print_device_overrun: "int (length (planar_intfs d)) < num_interfaces d \<Longrightarrow> print_device ntop6 d = None"
  using print_loop_short [of "planar_intfs d" 0 "nat (num_interfaces d)" "print_interface ntop6"]
  by (auto simp: print_device_def bind_eq_None_conv)

lemma des_loop_short: "length xs < i + n \<Longrightarrow> i \<le> length xs \<Longrightarrow> des_loop f xs i n buf off = None"
proof (induction n arbitrary: i xs off)
  case 0
  then show ?case by simp
next
  case (Suc n)
  then show ?case by (cases "i = length xs") (auto simp: arr_get_def arr_set_def bind_eq_None_conv)
qed

subsection \<open>Properties of the datastore\<close>

definition demo_fresh :: host where
  "demo_fresh = \<lparr>host_name = [], host_ip = [], num_devices = 5, devices = replicate MAX_DEVICES zero_device\<rparr>"

definition demo_host :: host where
  "demo_host = demo_fresh\<lparr>host_name := ''nodeA'', host_ip := ''10.0.0.1'', num_devices := 2\<rparr>"

definition demo_db :: host_db where
  "demo_db = \<lparr>local_ip = ''10.0.0.1'', all_hosts = [(''10.0.0.1'', demo_host)], planar_to_virtual_map = [], virtual_to_planar_map = []\<rparr>"

definition demo_ptree :: "nat ptree_ops" where
  "demo_ptree = \<lparr>read_json = (\<lambda>f. if f = ''bad'' then None else Some 0),
     pt_get = (\<lambda>t k. if k = ''host_name'' then Some ''nodeA'' else if k = ''host_ip'' then Some ''10.0.0.1''
                else if k = ''ipv4_addr'' \<or> k = ''virtual_ip'' then Some ''192.168.1.7'' else Some ''eth0''),
     pt_child = (\<lambda>t k. if k = ''devices'' then Some [1] else Some [2, 3]),
     inet_pton6 = (\<lambda>s. None), inet_ntop6 = (\<lambda>b. None)\<rparr>"

lemma demo_fresh_shape: "host_shape demo_fresh"
  by (simp add: host_shape_def demo_fresh_def list_all_iff device_ok_shape)

lemma demo_host_ok: "host_ok demo_host"
  using demo_fresh_shape
  by (simp add: host_ok_def demo_host_def demo_fresh_def MAX_DEVICES_def list_all_iff host_shape_def)

text \<open>
  C23: The composite configuration survives the wire: for a datastore of well-formed hosts,
  \<open>serialize_all_hosts\<close> stays inside every array, \<open>deserialize_all_hosts\<close> reads its output without
  leaving the buffer or an array whatever the uninitialised hosts held, and afterwards every
  serialised host is in the receiver's map with the same name, address, devices and
  interfaces, filed under its host name (the last one of a name wins), the receiver's other entries unchanged.
\<close>

theorem composite_config_round_trip:
  assumes "hosts_ok (all_hosts db)" "length (all_hosts db) < 2 ^ 32" "\<forall>j. host_shape (fresh j)"
  shows "\<exists>bs db'. serialize_all_hosts db = Some bs \<and> deserialize_all_hosts fresh db0 bs = Some db' \<and>
    local_ip db' = local_ip db0 \<and>
    host_views (all_hosts db') = host_views (all_hosts db0) ++ named_views (map snd (all_hosts db))"
proof -
  obtain bs where "serialize_all_hosts db = Some bs" using serialize_all_hosts_ok [OF assms(1)] by blast
  then show ?thesis using deserialize_all_hosts_at [OF assms(1,2) _ assms(3)] by blast
qed

theorem composite_config_round_trip_witness:
  "\<exists>bs db'. serialize_all_hosts demo_db = Some bs \<and>
    deserialize_all_hosts (\<lambda>_. demo_fresh) (demo_db\<lparr>all_hosts := []\<rparr>) bs = Some db' \<and>
    host_views (all_hosts db') ''nodeA'' = Some (view_host demo_host)"
proof -
  have "hosts_ok (all_hosts demo_db)" by (simp add: demo_db_def demo_host_ok hosts_ok_def)
  moreover have "named_views (map snd (all_hosts demo_db)) ''nodeA'' = Some (view_host demo_host)"
    by (simp add: demo_db_def named_views_def demo_host_def)
  ultimately show ?thesis
    using composite_config_round_trip [of demo_db "\<lambda>_. demo_fresh" "demo_db\<lparr>all_hosts := []\<rparr>"] demo_fresh_shape
    by (auto simp: demo_db_def map_add_def)
qed

text \<open>
  C24: A configuration file that parses without an exception gives a host within the bounds of
  the datastore (at most 8 devices of at most 64 interfaces, every name terminated), and the
  root, deserialising what a leaf serialised, obtains that host.
\<close>

theorem parsed_config_round_trip:
  assumes "pton6_sound P" "\<forall>t k s. pt_get P t k = Some s \<longrightarrow> length s < 2 ^ 32"
    and "host_shape fresh" "host_shape fresh'" "parse_host P file fresh = Goes h"
  shows "host_ok h \<and> (\<exists>bs g. serialize_host h = Some bs \<and> deserialize_host fresh' bs = Some g \<and> view_host g = view_host h \<and> host_ok g)"
proof -
  have ok: "host_ok h" by (rule parse_host_ok [OF assms(1,3,5,2)])
  then obtain bs where bs: "serialize_host h = Some bs" using serialize_host_ok by blast
  then show ?thesis using ok des_ser_host [OF ok bs assms(4), of "[]" "[]"] by (auto simp: deserialize_host_def)
qed

theorem parsed_config_round_trip_witness:
  "\<exists>h bs g. parse_host demo_ptree ''cfg'' demo_fresh = Goes h \<and> num_devices h = 1 \<and>
    serialize_host h = Some bs \<and> deserialize_host demo_fresh bs = Some g \<and> view_host g = view_host h"
proof -
  have "\<exists>h. parse_host demo_ptree ''cfg'' demo_fresh = Goes h \<and> num_devices h = 1"
    by (simp add: parse_host_def parse_device_def parse_interface_def demo_ptree_def MAX_DEVICES_def MAX_INTERFACES_def
        Let_def split: option.splits)
  moreover have "pton6_sound demo_ptree" by (simp add: pton6_sound_def demo_ptree_def)
  moreover have "\<forall>t k s. pt_get demo_ptree t k = Some s \<longrightarrow> length s < 2 ^ 32" by (simp add: demo_ptree_def)
  ultimately show ?thesis using parsed_config_round_trip [of demo_ptree demo_fresh demo_fresh "''cfg''"] demo_fresh_shape by blast
qed

text \<open>
  \<open>parse_planar_config\<close> fails only for an empty file name.  When the file cannot be read or
  lacks a key it still reports success, and \<open>num_devices\<close> keeps whatever the uninitialised
  host held, the count every later loop uses.
\<close>

theorem parse_error_reported_as_success:
  assumes "parse_planar_config P file h = Some (r, g, out)"
  shows "(r = ANP_FAILURE \<longleftrightarrow> file = []) \<and>
    (file \<noteq> [] \<longrightarrow> (\<exists>q. parse_host P file h = Throws q) \<longrightarrow> r = ANP_SUCCESS \<and> num_devices g = num_devices h)"
  using assms by (auto simp: parse_planar_config_def Let_def ANP_SUCCESS_def ANP_FAILURE_def bind_eq_Some_conv
      split: if_splits exc.splits dest: parse_host_frame)

lemma print_demo_fresh: "\<exists>out. print_planar_config (inet_ntop6 demo_ptree) demo_fresh = Some (ANP_SUCCESS, out)"
proof -
  have d: "\<exists>out. print_device n zero_device = Some out" for n
    by (simp add: print_device_def zero_device_def cstr_text_def c_strlen_def MAX_STR_LEN_def)
  have "\<exists>out. print_loop (print_device n) (replicate k zero_device) i m = Some out" if "i + m \<le> k" for n k i m
    using that
  proof (induction m arbitrary: i)
    case (Suc m)
    then have "\<exists>out. print_loop (print_device n) (replicate k zero_device) (Suc i) m = Some out" by simp
    then show ?case using d [of n] Suc.prems by (auto simp: ub_simps)
  qed simp
  from this [of 0 MAX_DEVICES MAX_DEVICES "inet_ntop6 demo_ptree"] show ?thesis by (auto simp: print_planar_config_def demo_fresh_def)
qed

theorem parse_error_reported_as_success_witness:
  "\<exists>g out. parse_planar_config demo_ptree ''bad'' demo_fresh = Some (ANP_SUCCESS, g, out) \<and> num_devices g = 5"
proof -
  have t: "parse_host demo_ptree ''bad'' demo_fresh = Throws demo_fresh" by (simp add: parse_host_def demo_ptree_def)
  obtain out where out: "parse_planar_config demo_ptree ''bad'' demo_fresh = Some (ANP_SUCCESS, demo_fresh, out)"
    using print_demo_fresh by (auto simp: parse_planar_config_def t)
  then show ?thesis using parse_error_reported_as_success [OF out] t by (auto simp: demo_fresh_def)
qed

text \<open>
  \<open>print_planar_config\<close>, which \<open>parse_planar_config\<close> always calls, goes over all eight device
  slots; a slot the parser did not fill still has the interface count of the uninitialised
  host, and one above 64 makes the print read outside \<open>planar_intfs\<close>.
\<close>

theorem print_reads_unparsed_devices:
  assumes "parse_host P file fresh = Goes h" "file \<noteq> []" "host_shape fresh"
    and "num_devices h \<le> int j" "j < MAX_DEVICES" "int MAX_INTERFACES < num_interfaces (devices fresh ! j)"
  shows "parse_planar_config P file fresh = None"
proof -
  have d: "devices h ! j = devices fresh ! j" "length (devices h) = MAX_DEVICES"
    using parse_host_untouched [OF assms(1,4)] assms(3) by (auto simp: host_shape_def)
  have "length (planar_intfs (devices fresh ! j)) = MAX_INTERFACES"
    using assms(3,5) by (auto simp: host_shape_def list_all_length device_shape_def)
  then have "print_device (inet_ntop6 P) (devices h ! j) = None" using d assms(6) by (simp add: print_device_overrun)
  then have "print_loop (print_device (inet_ntop6 P)) (devices h) 0 (length (devices h)) = None"
    using d(2) assms(5) by (intro print_loop_None [of 0 j]) auto
  then show ?thesis using assms(1,2) by (simp add: parse_planar_config_def print_planar_config_def)
qed

theorem print_reads_unparsed_devices_witness:
  "parse_planar_config demo_ptree ''cfg'' (demo_fresh\<lparr>devices := replicate MAX_DEVICES (zero_device\<lparr>num_interfaces := 100\<rparr>)\<rparr>) = None"
proof -
  let ?f = "demo_fresh\<lparr>devices := replicate MAX_DEVICES (zero_device\<lparr>num_interfaces := 100\<rparr>)\<rparr>"
  have "\<exists>h. parse_host demo_ptree ''cfg'' ?f = Goes h \<and> num_devices h = 1"
    by (simp add: parse_host_def parse_device_def parse_interface_def demo_ptree_def MAX_DEVICES_def MAX_INTERFACES_def
        Let_def split: option.splits)
  moreover have "host_shape ?f" using device_ok_shape [OF zero_device_ok]
    by (simp add: host_shape_def device_shape_def list_all_iff)
  ultimately show ?thesis
    using print_reads_unparsed_devices [of demo_ptree "''cfg''" ?f _ 7] by (auto simp: MAX_DEVICES_def MAX_INTERFACES_def)
qed

text \<open>
  The deserialiser trusts the counts on the wire: a message whose header parses and that
  announces more than eight devices is written outside \<open>host.devices\<close>, whatever follows.
\<close>

theorem device_count_not_checked:
  assumes "host_shape h" "des_bytes buf off = Some (nm, o1)" "des_bytes buf o1 = Some (ip, o2)"
    and "des_u32 buf o2 = Some (n, o3)" "MAX_DEVICES < unat n"
  shows "deserialize_host_at h buf off = None"
  using assms des_loop_short [of "devices h" 0 "unat n" des_device buf o3]
  by (simp add: deserialize_host_at_def host_shape_def)

theorem device_count_not_checked_witness:
  "deserialize_host_at demo_fresh [0, 0, 0, 0, 0, 0, 0, 0, 0, 0, 0, 9] 0 = None"
proof (rule device_count_not_checked [OF demo_fresh_shape])
  show "des_bytes [0, 0, 0, 0, 0, 0, 0, 0, 0, 0, 0, 9] 0 = Some ([], 4)" by code_simp
  show "des_bytes [0, 0, 0, 0, 0, 0, 0, 0, 0, 0, 0, 9] 4 = Some ([], 8)" by code_simp
  show "des_u32 [0, 0, 0, 0, 0, 0, 0, 0, 0, 0, 0, 9] 8 = Some (9, 12)" by code_simp
  show "MAX_DEVICES < unat (9 :: u32)" by (simp add: MAX_DEVICES_def)
qed

end
