(* ===== verification/Iptables.thy ===== *)
theory Iptables
  imports Hosts
begin

text \<open>
  NAT rules for the virtual addresses: the rule record, the iptables and nft command lines, the
  check-then-add wrapper (\<open>anp_iptables_wrap.h\<close>), and the loops that program the rules of the
  local and the remote hosts (\<open>anp_bootstrap.h\<close>).

  The operating system is a record of functions on an abstract world: \<open>system\<close> runs a command
  line and gives its exit status, \<open>popen_read\<close> gives everything a command prints.
\<close>

subsection \<open>Rules and command lines\<close>

record IptablesRule =
  action :: string
  ipt_table :: string
  chain :: string
  match_type :: string
  match_value :: string
  iface_type :: string
  iface_name :: string
  jump_target :: string
  translate_ip :: string

record 'w os_ops =
  os_system :: "string \<Rightarrow> 'w \<Rightarrow> int \<times> 'w"
  os_popen_read :: "string \<Rightarrow> 'w \<Rightarrow> string option \<times> 'w"

record ipt_state =
  iptables_backend :: string
  nft_initialized :: bool

definition detect_iptables_backend :: "'w os_ops \<Rightarrow> ipt_state \<Rightarrow> 'w \<Rightarrow> string \<times> ipt_state \<times> 'w" where
  "detect_iptables_backend S st w =
     (if iptables_backend st \<noteq> [] then (iptables_backend st, st, w)
      else (case os_popen_read S ''iptables --version 2>/dev/null'' w of
          (None, w) \<Rightarrow> (''unknown'', st, w)
        | (Some result, w) \<Rightarrow>
            let b = (if str_find ''nf_tables'' result \<noteq> None then ''nf_tables''
                     else if str_find ''legacy'' result \<noteq> None then ''legacy'' else ''unknown'')
            in (b, st\<lparr>iptables_backend := b\<rparr>, w)))"

definition construct_iptables_command :: "IptablesRule \<Rightarrow> string" where
  "construct_iptables_command r =
     ''iptables -t '' @ ipt_table r @ '' -'' @ action r @ '' '' @ chain r @
     (if match_type r \<noteq> [] \<and> match_value r \<noteq> [] then (if match_type r = ''SIP'' then '' -s '' else '' -d '') @ match_value r else []) @
     (if iface_name r \<noteq> [] then (if iface_type r = ''in'' then '' -i '' else '' -o '') @ iface_name r else []) @
     (if jump_target r \<noteq> [] then '' -j '' @ jump_target r @
        (if translate_ip r \<noteq> [] then
           (if jump_target r = ''SNAT'' then '' --to-source '' @ translate_ip r
            else if jump_target r = ''DNAT'' then '' --to-destination '' @ translate_ip r else [])
         else [])
      else [])"

definition convert_to_nftables :: "IptablesRule \<Rightarrow> string" where
  "convert_to_nftables r =
     ''nft add rule ip '' @ ipt_table r @ '' '' @ chain r @
     (if match_type r \<noteq> [] \<and> match_value r \<noteq> [] then '' ip '' @ (if match_type r = ''SIP'' then ''saddr'' else ''daddr'') @ '' '' @ match_value r else []) @
     (if iface_name r \<noteq> [] then '' '' @ (if iface_type r = ''in'' then ''iif'' else ''oif'') @ '' '' @ iface_name r else []) @
     (if jump_target r \<noteq> [] then
        (if jump_target r = ''SNAT'' then '' snat to '' @ translate_ip r
         else if jump_target r = ''DNAT'' then '' dnat to '' @ translate_ip r else '' '' @ jump_target r)
      else [])"

definition nft_setup_commands :: "string list" where
  "nft_setup_commands =
    [''nft list table ip nat >/dev/null 2>&1 || nft add table ip nat'',
     ''nft list chain ip nat POSTROUTING >/dev/null 2>&1 || nft add chain ip nat POSTROUTING { type nat hook postrouting priority 100 '' @ [CHR 0x5C] @ ''; }'',
     ''nft list chain ip nat OUTPUT >/dev/null 2>&1 || nft add chain ip nat OUTPUT { type nat hook output priority 0 '' @ [CHR 0x5C] @ ''; }'',
     ''nft list chain ip nat INPUT >/dev/null 2>&1 || nft add chain ip nat INPUT { type nat hook input priority 0 '' @ [CHR 0x5C] @ ''; }'']"

definition setup_nft_nat_table :: "'w os_ops \<Rightarrow> ipt_state \<Rightarrow> 'w \<Rightarrow> ipt_state \<times> 'w" where
  "setup_nft_nat_table S st w =
     (if nft_initialized st then (st, w)
      else (st\<lparr>nft_initialized := True\<rparr>, fold (\<lambda>c w. snd (os_system S c w)) nft_setup_commands w))"

definition rule_exists :: "'w os_ops \<Rightarrow> string \<Rightarrow> 'w \<Rightarrow> bool \<times> 'w" where
  "rule_exists S cmd w = (case os_system S cmd w of (status, w) \<Rightarrow> (status = 0, w))"

definition check_command_of :: "string \<Rightarrow> string" where
  "check_command_of cmd = (case str_find '' -A '' cmd of
     None \<Rightarrow> cmd | Some pos \<Rightarrow> str_replace cmd (pos + 1) 1 ''C'')"

definition execute_iptables_command :: "'w os_ops \<Rightarrow> IptablesRule \<Rightarrow> ipt_state \<Rightarrow> 'w \<Rightarrow> int \<times> ipt_state \<times> 'w" where
  "execute_iptables_command S r st w =
     (case detect_iptables_backend S st w of (backend, st, w) \<Rightarrow>
      case (if backend = ''nf_tables''
            then (let (st, w) = setup_nft_nat_table S st w in (convert_to_nftables r, st, w))
            else (construct_iptables_command r, st, w)) of (cmd, st, w) \<Rightarrow>
      case (if action r = ''A'' then rule_exists S (check_command_of cmd) w else (False, w)) of (exists, w) \<Rightarrow>
      if exists then (0, st, w)
      else (case os_system S cmd w of (status, w) \<Rightarrow> (if status = 0 then 0 else - 1, st, w)))"

text \<open>The older wrapper, whose existence check is commented out in the source.\<close>

definition execute_iptables_if_not_exists :: "'w os_ops \<Rightarrow> string \<Rightarrow> 'w \<Rightarrow> int \<times> 'w" where
  "execute_iptables_if_not_exists S cmd w = (case os_system S cmd w of (result, w) \<Rightarrow> (if result \<noteq> 0 then - 1 else 0, w))"

subsection \<open>The four NAT rules of an address pair\<close>

definition tx_snat_rule :: "string \<Rightarrow> string \<Rightarrow> string \<Rightarrow> IptablesRule" where
  "tx_snat_rule vip pip intf = \<lparr>action = ''A'', ipt_table = ''nat'', chain = ''POSTROUTING'', match_type = ''SIP'',
     match_value = vip, iface_type = ''out'', iface_name = intf, jump_target = ''SNAT'', translate_ip = pip\<rparr>"

definition tx_dnat_rule :: "string \<Rightarrow> string \<Rightarrow> string \<Rightarrow> IptablesRule" where
  "tx_dnat_rule vip pip intf = \<lparr>action = ''A'', ipt_table = ''nat'', chain = ''OUTPUT'', match_type = ''DIP'',
     match_value = vip, iface_type = ''out'', iface_name = intf, jump_target = ''DNAT'', translate_ip = pip\<rparr>"

definition rx_snat_rule :: "string \<Rightarrow> string \<Rightarrow> string \<Rightarrow> IptablesRule" where
  "rx_snat_rule vip pip intf = \<lparr>action = ''A'', ipt_table = ''nat'', chain = ''INPUT'', match_type = ''SIP'',
     match_value = pip, iface_type = ''in'', iface_name = intf, jump_target = ''SNAT'', translate_ip = vip\<rparr>"

definition rx_dnat_rule :: "string \<Rightarrow> string \<Rightarrow> string \<Rightarrow> IptablesRule" where
  "rx_dnat_rule vip pip intf = \<lparr>action = ''A'', ipt_table = ''nat'', chain = ''OUTPUT'', match_type = ''DIP'',
     match_value = pip, iface_type = ''out'', iface_name = intf, jump_target = ''DNAT'', translate_ip = vip\<rparr>"

definition add_tx_snat_rules :: "'w os_ops \<Rightarrow> string \<Rightarrow> string \<Rightarrow> string \<Rightarrow> ipt_state \<Rightarrow> 'w \<Rightarrow> int \<times> ipt_state \<times> 'w" where
  "add_tx_snat_rules S vip pip intf = execute_iptables_command S (tx_snat_rule vip pip intf)"

definition add_tx_dnat_rules :: "'w os_ops \<Rightarrow> string \<Rightarrow> string \<Rightarrow> string \<Rightarrow> ipt_state \<Rightarrow> 'w \<Rightarrow> int \<times> ipt_state \<times> 'w" where
  "add_tx_dnat_rules S vip pip intf = execute_iptables_command S (tx_dnat_rule vip pip intf)"

definition add_rx_snat_rules :: "'w os_ops \<Rightarrow> string \<Rightarrow> string \<Rightarrow> string \<Rightarrow> ipt_state \<Rightarrow> 'w \<Rightarrow> int \<times> ipt_state \<times> 'w" where
  "add_rx_snat_rules S vip pip intf = execute_iptables_command S (rx_snat_rule vip pip intf)"

definition add_rx_dnat_rules :: "'w os_ops \<Rightarrow> string \<Rightarrow> string \<Rightarrow> string \<Rightarrow> ipt_state \<Rightarrow> 'w \<Rightarrow> int \<times> ipt_state \<times> 'w" where
  "add_rx_dnat_rules S vip pip intf = execute_iptables_command S (rx_dnat_rule vip pip intf)"

subsection \<open>Programming the rules of hosts\<close>

type_synonym 'w rule_adder = "string \<Rightarrow> string \<Rightarrow> string \<Rightarrow> ipt_state \<Rightarrow> 'w \<Rightarrow> int \<times> ipt_state \<times> 'w"

text \<open>
  The two nested loops are the same in both functions but for the two rules they add;
  \<open>f\<close> and \<open>g\<close> are those.  The results of the rule functions are ignored, as in the source.
\<close>

definition apply_interface :: "'w rule_adder \<Rightarrow> 'w rule_adder \<Rightarrow> u32 \<Rightarrow> planar_interface \<Rightarrow> ipt_state \<times> 'w \<Rightarrow> (ipt_state \<times> 'w) option" where
  "apply_interface f g vip p sw =
     (if ipv4_addr p \<noteq> 0 \<and> vip \<noteq> 0 then do {
        nm \<leftarrow> cstr_text (pi_name p);
        let sw = snd (f (inet_ntop4 vip) (inet_ntop4 (ipv4_addr p)) nm (fst sw) (snd sw));
        let sw = snd (g (inet_ntop4 vip) (inet_ntop4 (ipv4_addr p)) nm (fst sw) (snd sw));
        Some sw }
      else Some sw)"

fun over_array :: "('b \<Rightarrow> 's \<Rightarrow> 's option) \<Rightarrow> 'b list \<Rightarrow> nat \<Rightarrow> nat \<Rightarrow> 's \<Rightarrow> 's option" where
  "over_array f xs i 0 s = Some s"
| "over_array f xs i (Suc n) s = do { x \<leftarrow> arr_get xs i; s \<leftarrow> f x s; over_array f xs (Suc i) n s }"

definition apply_device :: "'w rule_adder \<Rightarrow> 'w rule_adder \<Rightarrow> device \<Rightarrow> ipt_state \<times> 'w \<Rightarrow> (ipt_state \<times> 'w) option" where
  "apply_device f g d = over_array (apply_interface f g (virtual_ip d)) (planar_intfs d) 0 (nat (num_interfaces d))"

definition apply_host :: "'w rule_adder \<Rightarrow> 'w rule_adder \<Rightarrow> host \<Rightarrow> ipt_state \<times> 'w \<Rightarrow> (ipt_state \<times> 'w) option" where
  "apply_host f g h = over_array (apply_device f g) (devices h) 0 (nat (num_devices h))"

definition apply_local_vip_iptables_rule :: "'w os_ops \<Rightarrow> host_db \<Rightarrow> ipt_state \<times> 'w \<Rightarrow> (ipt_state \<times> 'w) option" where
  "apply_local_vip_iptables_rule S db sw = (case map_of (all_hosts db) (local_ip db) of
     None \<Rightarrow> Some sw
   | Some h \<Rightarrow> apply_host (add_tx_snat_rules S) (add_rx_dnat_rules S) h sw)"

fun apply_remote_loop :: "'w os_ops \<Rightarrow> string \<Rightarrow> (string \<times> host) list \<Rightarrow> ipt_state \<times> 'w \<Rightarrow> (ipt_state \<times> 'w) option" where
  "apply_remote_loop S lip [] sw = Some sw"
| "apply_remote_loop S lip ((k, h) # m) sw =
     (if k = lip then apply_remote_loop S lip m sw
      else do { sw \<leftarrow> apply_host (add_tx_dnat_rules S) (add_rx_snat_rules S) h sw; apply_remote_loop S lip m sw })"

definition apply_remote_vip_iptables_rule :: "'w os_ops \<Rightarrow> host_db \<Rightarrow> ipt_state \<times> 'w \<Rightarrow> (ipt_state \<times> 'w) option" where
  "apply_remote_vip_iptables_rule S db sw = apply_remote_loop S (local_ip db) (all_hosts db) sw"

subsection \<open>The rules a host stands for\<close>

type_synonym rule_maker = "string \<Rightarrow> string \<Rightarrow> string \<Rightarrow> IptablesRule"

definition name_text :: "byte list \<Rightarrow> string" where
  "name_text a = map char_of_byte (cstr a)"

definition interface_rules :: "rule_maker \<Rightarrow> rule_maker \<Rightarrow> u32 \<Rightarrow> planar_interface \<Rightarrow> IptablesRule list" where
  "interface_rules f g vip p = (if ipv4_addr p \<noteq> 0 \<and> vip \<noteq> 0
     then [f (inet_ntop4 vip) (inet_ntop4 (ipv4_addr p)) (name_text (pi_name p)),
           g (inet_ntop4 vip) (inet_ntop4 (ipv4_addr p)) (name_text (pi_name p))] else [])"

definition device_rules :: "rule_maker \<Rightarrow> rule_maker \<Rightarrow> device \<Rightarrow> IptablesRule list" where
  "device_rules f g d = concat (map (interface_rules f g (virtual_ip d)) (take (nat (num_interfaces d)) (planar_intfs d)))"

definition host_rules :: "rule_maker \<Rightarrow> rule_maker \<Rightarrow> host \<Rightarrow> IptablesRule list" where
  "host_rules f g h = concat (map (device_rules f g) (take (nat (num_devices h)) (devices h)))"

definition run_rules :: "'w os_ops \<Rightarrow> IptablesRule list \<Rightarrow> ipt_state \<times> 'w \<Rightarrow> ipt_state \<times> 'w" where
  "run_rules S rs sw = fold (\<lambda>r (st, w). snd (execute_iptables_command S r st w)) rs sw"

lemma run_rules_simps [simp]:
  "run_rules S [] sw = sw"
  "run_rules S (r # rs) sw = run_rules S rs (snd (execute_iptables_command S r (fst sw) (snd sw)))"
  "run_rules S (as @ bs) sw = run_rules S bs (run_rules S as sw)"
  by (simp_all add: run_rules_def split_beta)

lemma over_array_runs:
  assumes "\<And>x s. ok x \<Longrightarrow> f x s = Some (run_rules S (rs x) s)" "i + n \<le> length xs" "list_all ok (take n (drop i xs))"
  shows "over_array f xs i n s = Some (run_rules S (concat (map rs (take n (drop i xs)))) s)"
  using assms(2,3)
proof (induction n arbitrary: i s)
  case 0
  then show ?case by simp
next
  case (Suc n)
  then have d: "drop i xs = xs ! i # drop (Suc i) xs" by (simp add: Cons_nth_drop_Suc)
  then show ?case using Suc assms(1) by (simp add: ub_simps)
qed

lemma apply_interface_runs:
  assumes "interface_ok p"
  shows "apply_interface (\<lambda>a b c. execute_iptables_command S (f a b c)) (\<lambda>a b c. execute_iptables_command S (g a b c)) vip p sw
    = Some (run_rules S (interface_rules f g vip p) sw)"
  using assms by (auto simp: apply_interface_def interface_rules_def cstr_text_def name_text_def c_strlen_def take_cstr interface_ok_def Let_def)

lemma apply_host_runs:
  assumes "host_ok h"
  shows "apply_host (\<lambda>a b c. execute_iptables_command S (f a b c)) (\<lambda>a b c. execute_iptables_command S (g a b c)) h sw
    = Some (run_rules S (host_rules f g h) sw)"
proof -
  let ?f = "\<lambda>a b c. execute_iptables_command S (f a b c)" and ?g = "\<lambda>a b c. execute_iptables_command S (g a b c)"
  have "apply_device ?f ?g d sw = Some (run_rules S (device_rules f g d) sw)" if "device_ok d" for d sw
    using over_array_runs [of interface_ok "apply_interface ?f ?g (virtual_ip d)" S "interface_rules f g (virtual_ip d)" 0
        "nat (num_interfaces d)" "planar_intfs d" sw] that
    by (simp add: apply_interface_runs apply_device_def device_rules_def device_ok_def device_shape_def nat_le_iff)
  then show ?thesis
    using over_array_runs [of device_ok "apply_device ?f ?g" S "device_rules f g" 0 "nat (num_devices h)" "devices h" sw] assms
    by (simp add: apply_host_def host_rules_def host_ok_def host_shape_def nat_le_iff)
qed

lemmas adder_defs = add_tx_snat_rules_def [abs_def] add_rx_dnat_rules_def [abs_def]
  add_tx_dnat_rules_def [abs_def] add_rx_snat_rules_def [abs_def]

definition remote_hosts :: "string \<Rightarrow> (string \<times> host) list \<Rightarrow> host list" where
  "remote_hosts lip m = map snd (filter (\<lambda>(k, h). k \<noteq> lip) m)"

lemma apply_remote_runs:
  assumes "hosts_ok m"
  shows "apply_remote_loop S lip m sw = Some (run_rules S (concat (map (host_rules tx_dnat_rule rx_snat_rule) (remote_hosts lip m))) sw)"
  using assms
proof (induction S lip m sw rule: apply_remote_loop.induct)
  case (1 S lip sw)
  then show ?case by (simp add: remote_hosts_def)
next
  case (2 S lip k h m sw)
  then show ?case using apply_host_runs [of h S tx_dnat_rule rx_snat_rule sw]
    by (auto simp: remote_hosts_def adder_defs hosts_ok_def)
qed

lemma apply_local_runs:
  assumes "map_of (all_hosts db) (local_ip db) = Some h" "host_ok h"
  shows "apply_local_vip_iptables_rule S db sw = Some (run_rules S (host_rules tx_snat_rule rx_dnat_rule h) sw)"
  using assms apply_host_runs [of h S tx_snat_rule rx_dnat_rule sw] by (simp add: apply_local_vip_iptables_rule_def adder_defs)

lemma construct_nat_append:
  assumes "ipt_table r = ''nat''" "action r = ''A''"
  shows "\<exists>rest. construct_iptables_command r = ''iptables -t nat -A '' @ rest \<and>
    construct_iptables_command (r\<lparr>action := ''C''\<rparr>) = ''iptables -t nat -C '' @ rest"
  using assms by (simp add: construct_iptables_command_def)

lemma check_of_nat_append: "check_command_of (''iptables -t nat -A '' @ rest) = ''iptables -t nat CA '' @ rest"
  by (simp add: check_command_of_def str_replace_def)

lemma host_views_None: "host_views m k = None \<longleftrightarrow> map_of m k = None"
  by (simp add: host_views_def)

lemma host_views_Nil: "host_views [] = Map.empty"
  by (rule ext) (simp add: host_views_def)

lemma named_views_None: "k \<notin> host_name ` set hs \<Longrightarrow> named_views hs k = None"
  by (auto simp: named_views_def map_of_eq_None_iff)

lemma remote_hosts_all: "map_of m lip = None \<Longrightarrow> remote_hosts lip m = map snd m"
  by (induction m) (auto simp: remote_hosts_def split: if_splits)

subsection \<open>Properties of the rule programming\<close>

definition demo_os :: "string list os_ops" where
  "demo_os = \<lparr>os_system = (\<lambda>c w. (if str_find '' CA '' c \<noteq> None then 2 else 0, w @ [c])),
              os_popen_read = (\<lambda>c w. (Some ''iptables v1.8.7 (legacy)'', w))\<rparr>"

definition demo_ipt :: ipt_state where
  "demo_ipt = \<lparr>iptables_backend = [], nft_initialized = False\<rparr>"


definition demo_nat_host :: host where
  "demo_nat_host = demo_fresh\<lparr>host_name := ''nodeA'', num_devices := 1, devices := (devices demo_fresh)[0 :=
     zero_device\<lparr>virtual_ip := 0x0100000A, num_interfaces := 1, planar_intfs := (planar_intfs zero_device)[0 :=
       zero_interface\<lparr>pi_name := copy_name (pi_name zero_interface) ''eth1'', ipv4_addr := 0x0701A8C0\<rparr>]\<rparr>]\<rparr>"

definition demo_nat_db :: host_db where
  "demo_nat_db = demo_db\<lparr>all_hosts := [(''10.0.0.1'', demo_nat_host)]\<rparr>"

lemma demo_nat_interface_ok: "interface_ok (zero_interface\<lparr>pi_name := copy_name (pi_name zero_interface) s, ipv4_addr := w\<rparr>)"
  using zero_interface_ok by (simp add: interface_ok_def interface_shape_def zero_interface_def strncpy_zero_ok)

lemma demo_nat_host_ok: "host_ok demo_nat_host"
proof -
  let ?p = "zero_interface\<lparr>pi_name := copy_name (pi_name zero_interface) ''eth1'', ipv4_addr := 0x0701A8C0\<rparr>"
  let ?ps = "(planar_intfs zero_device)[0 := ?p]"
  have ps: "length ?ps = 64" "list_all interface_ok ?ps"
    using demo_nat_interface_ok by (auto simp: zero_device_def MAX_INTERFACES_def list_all_iff
        dest!: set_update_subset_insert [THEN subsetD])
  let ?d = "zero_device\<lparr>virtual_ip := 0x0100000A, num_interfaces := 1, planar_intfs := ?ps\<rparr>"
  have d: "device_ok ?d" using zero_device_ok ps
    by (auto simp: device_ok_def device_shape_def MAX_INTERFACES_def list_all_iff interface_ok_shape dest: in_set_takeD)
  have "list_all device_ok ((devices demo_fresh)[0 := ?d])" using d
    by (auto simp: demo_fresh_def MAX_DEVICES_def list_all_iff dest!: set_update_subset_insert [THEN subsetD])
  then show ?thesis
    by (auto simp: demo_nat_host_def host_ok_def host_shape_def demo_fresh_def MAX_DEVICES_def list_all_iff device_ok_shape dest: in_set_takeD)
qed

lemma demo_nat_rules: "host_rules f g demo_nat_host =
    [f (inet_ntop4 0x0100000A) (inet_ntop4 0x0701A8C0) ''eth1'', g (inet_ntop4 0x0100000A) (inet_ntop4 0x0701A8C0) ''eth1'']"
proof -
  have "name_text (copy_name (replicate MAX_STR_LEN 0) ''eth1'') = ''eth1''" by code_simp
  moreover have "replicate 64 x = x # replicate 63 x" for x :: planar_interface using replicate_Suc [of 63 x] by simp
  moreover have "replicate 8 x = x # replicate 7 x" for x :: device using replicate_Suc [of 7 x] by simp
  ultimately show ?thesis
    by (simp add: host_rules_def device_rules_def interface_rules_def demo_nat_host_def demo_fresh_def zero_device_def
        zero_interface_def MAX_DEVICES_def MAX_INTERFACES_def)
qed


text \<open>
  C40: On a leaf the received hosts are filed under their names while the local host is looked
  up by its address: when no host is named like that address, no local rule is
  programmed and the leaf programs remote rules for every host, its own included.
\<close>

theorem leaf_programs_itself_as_remote:
  assumes "hosts_ok (all_hosts db)" "length (all_hosts db) < 2 ^ 32" "\<forall>j. host_shape (fresh j)"
    and "all_hosts db0 = []" "local_ip db0 \<notin> host_name ` set (map snd (all_hosts db))"
  shows "\<exists>bs db'. serialize_all_hosts db = Some bs \<and> deserialize_all_hosts fresh db0 bs = Some db' \<and>
    apply_local_vip_iptables_rule S db' sw = Some sw \<and>
    apply_remote_vip_iptables_rule S db' sw =
      Some (run_rules S (concat (map (host_rules tx_dnat_rule rx_snat_rule) (map snd (all_hosts db')))) sw)"
proof -
  obtain bs where bs: "serialize_all_hosts db = Some bs" using serialize_all_hosts_ok [OF assms(1)] by blast
  obtain db' where db': "deserialize_all_hosts fresh db0 bs = Some db'" "local_ip db' = local_ip db0"
      "host_views (all_hosts db') = host_views (all_hosts db0) ++ named_views (map snd (all_hosts db))"
      "hosts_ok (all_hosts db0) \<longrightarrow> hosts_ok (all_hosts db')"
    using deserialize_all_hosts_at [OF assms(1,2) bs assms(3), of db0] by blast
  have "host_views (all_hosts db') (local_ip db') = None"
    using db'(2,3) assms(4,5) by (simp add: named_views_None host_views_Nil)
  then have n: "map_of (all_hosts db') (local_ip db') = None" by (simp add: host_views_None)
  have "hosts_ok (all_hosts db')" using db'(4) assms(4) by (simp add: hosts_ok_def)
  from apply_remote_runs [OF this, of S "local_ip db'" sw] show ?thesis
    using bs db'(1) n remote_hosts_all [OF n]
    by (auto simp: apply_local_vip_iptables_rule_def apply_remote_vip_iptables_rule_def)
qed

theorem leaf_programs_itself_as_remote_witness:
  "\<exists>bs db'. serialize_all_hosts demo_nat_db = Some bs \<and>
    deserialize_all_hosts (\<lambda>_. demo_fresh) (demo_nat_db\<lparr>all_hosts := []\<rparr>) bs = Some db' \<and>
    apply_local_vip_iptables_rule demo_os db' (demo_ipt, []) = Some (demo_ipt, [])"
proof -
  have "hosts_ok (all_hosts demo_nat_db)" by (simp add: hosts_ok_def demo_nat_db_def demo_nat_host_ok)
  then show ?thesis
    using leaf_programs_itself_as_remote [of demo_nat_db "\<lambda>_. demo_fresh" "demo_nat_db\<lparr>all_hosts := []\<rparr>" demo_os "(demo_ipt, [])"]
      demo_fresh_shape by (auto simp: demo_nat_db_def demo_db_def demo_nat_host_def)
qed

text \<open>
  The existence check of an iptables rule in the nat table is not the command with \<open>-C\<close>:
  the replacement overwrites the dash, giving \<open>CA\<close>.  When iptables
  rejects that command, every call appends the rule, whether it is there or not.
\<close>

theorem existence_check_malformed:
  assumes "ipt_table r = ''nat''" "action r = ''A''" "iptables_backend st = ''legacy''"
    and "\<And>rest v. fst (os_system S (''iptables -t nat CA '' @ rest) v) \<noteq> 0"
  shows "check_command_of (construct_iptables_command r) \<noteq> construct_iptables_command (r\<lparr>action := ''C''\<rparr>) \<and>
    execute_iptables_command S r st w =
      (case os_system S (construct_iptables_command r) (snd (os_system S (check_command_of (construct_iptables_command r)) w)) of
        (status, w') \<Rightarrow> (if status = 0 then 0 else - 1, st, w'))"
proof -
  obtain rest where r: "construct_iptables_command r = ''iptables -t nat -A '' @ rest"
      "construct_iptables_command (r\<lparr>action := ''C''\<rparr>) = ''iptables -t nat -C '' @ rest"
    using construct_nat_append [OF assms(1,2)] by blast
  let ?c = "check_command_of (construct_iptables_command r)"
  have c: "?c = ''iptables -t nat CA '' @ rest" by (simp only: r check_of_nat_append)
  obtain s v where sv: "os_system S ?c w = (s, v)" by (cases "os_system S ?c w")
  then have "s \<noteq> 0" using assms(4) [of rest w] by (simp only: c fst_conv) auto
  then have "execute_iptables_command S r st w =
      (case os_system S (construct_iptables_command r) (snd (os_system S ?c w)) of
        (status, w') \<Rightarrow> (if status = 0 then 0 else - 1, st, w'))"
    using assms(2,3) sv by (simp add: execute_iptables_command_def detect_iptables_backend_def rule_exists_def)
  moreover have "?c \<noteq> construct_iptables_command (r\<lparr>action := ''C''\<rparr>)" unfolding c r(2) by simp
  ultimately show ?thesis by simp
qed

lemma str_find_prefixed: "str_find '' CA '' (''iptables -t nat CA '' @ rest) \<noteq> None"
  by simp

theorem existence_check_malformed_witness:
  "execute_iptables_command demo_os (tx_snat_rule ''10.0.0.1'' ''192.168.1.7'' ''eth1'') (demo_ipt\<lparr>iptables_backend := ''legacy''\<rparr>) [] =
    (0, demo_ipt\<lparr>iptables_backend := ''legacy''\<rparr>,
     [''iptables -t nat CA POSTROUTING -s 10.0.0.1 -o eth1 -j SNAT --to-source 192.168.1.7'',
      ''iptables -t nat -A POSTROUTING -s 10.0.0.1 -o eth1 -j SNAT --to-source 192.168.1.7''])"
proof -
  let ?r = "tx_snat_rule ''10.0.0.1'' ''192.168.1.7'' ''eth1''" and ?st = "demo_ipt\<lparr>iptables_backend := ''legacy''\<rparr>"
  have "fst (os_system demo_os (''iptables -t nat CA '' @ rest) v) \<noteq> 0" for rest v
    by (simp only: demo_os_def os_ops.simps str_find_prefixed) simp
  then have "execute_iptables_command demo_os ?r ?st [] =
      (case os_system demo_os (construct_iptables_command ?r) (snd (os_system demo_os (check_command_of (construct_iptables_command ?r)) [])) of
        (status, w') \<Rightarrow> (if status = 0 then 0 else - 1, ?st, w'))"
    using existence_check_malformed [of ?r ?st demo_os "[]"] by (simp add: tx_snat_rule_def)
  also have "\<dots> = (0, ?st,
     [''iptables -t nat CA POSTROUTING -s 10.0.0.1 -o eth1 -j SNAT --to-source 192.168.1.7'',
      ''iptables -t nat -A POSTROUTING -s 10.0.0.1 -o eth1 -j SNAT --to-source 192.168.1.7''])" by code_simp
  finally show ?thesis .
qed

end
