(* ===== verification/Sockets.thy ===== *)
theory Sockets
  imports Hosts
begin

text \<open>
  The socket layer of the bootstrap (\<open>bootstrap_socket.cc\<close>) and the TLV messages on top of it
  (\<open>send_tlv\<close>, \<open>recv_tlv\<close> of \<open>bootstrap.cc\<close>).  The system calls are a record of functions on an
  abstract world; each gives the value the call returns, \<open>recv\<close> also the bytes it stored.
\<close>

subsection \<open>Sockets\<close>

record sockaddr =
  sa_family :: nat
  sin_addr :: u32
  sin_port :: u16

datatype anpNcclSocketType =
    anpNcclSocketTypeUnknown | anpNcclSocketTypeBootstrap | anpNcclSocketTypeProxy
  | anpNcclSocketTypeNetSocket | anpNcclSocketTypeNetIb | anpNcclSocketTypePluginBootstrap

record anpNcclSocket =
  fd :: int
  addr :: sockaddr

record 'w net_ops =
  n_socket :: "'w \<Rightarrow> int \<times> 'w"
  n_setsockopt :: "int \<Rightarrow> 'w \<Rightarrow> int \<times> 'w"
  n_fcntl_nonblock :: "int \<Rightarrow> 'w \<Rightarrow> int \<times> 'w"
  n_bind :: "int \<Rightarrow> sockaddr \<Rightarrow> 'w \<Rightarrow> int \<times> 'w"
  n_listen :: "int \<Rightarrow> 'w \<Rightarrow> int \<times> 'w"
  n_accept :: "int \<Rightarrow> 'w \<Rightarrow> (int \<times> sockaddr) \<times> 'w"
  n_connect :: "int \<Rightarrow> sockaddr \<Rightarrow> 'w \<Rightarrow> int \<times> 'w"
  n_send :: "int \<Rightarrow> byte list \<Rightarrow> 'w \<Rightarrow> int \<times> 'w"
  n_recv :: "int \<Rightarrow> nat \<Rightarrow> 'w \<Rightarrow> (int \<times> byte list) \<times> 'w"
  n_close :: "int \<Rightarrow> 'w \<Rightarrow> 'w"
  n_sleep1 :: "'w \<Rightarrow> 'w"

definition AF_INET :: nat where "AF_INET = 2"

definition anpNcclSocketInit :: "'w net_ops \<Rightarrow> anpNcclSocket \<Rightarrow> sockaddr \<Rightarrow> anpNcclSocketType \<Rightarrow> bool \<Rightarrow> 'w \<Rightarrow> ncclResult \<times> anpNcclSocket \<times> 'w" where
  "anpNcclSocketInit N s address ty nonBlocking w =
     (if ty \<noteq> anpNcclSocketTypePluginBootstrap then (ncclInternalError, s, w)
      else case n_socket N w of (f, w) \<Rightarrow>
        let s = s\<lparr>fd := f\<rparr> in
        if f = - 1 then (ncclInternalError, s, w)
        else case n_setsockopt N f w of (r, w) \<Rightarrow>
          if r = - 1 then (ncclInternalError, s, n_close N f w)
          else let w = (if nonBlocking then snd (n_fcntl_nonblock N f w) else w)
               in (ncclSuccess, s\<lparr>addr := address\<rparr>, w))"

definition anpNcclSocketListen :: "'w net_ops \<Rightarrow> anpNcclSocket \<Rightarrow> 'w \<Rightarrow> ncclResult \<times> 'w" where
  "anpNcclSocketListen N s w = (case n_bind N (fd s) (addr s) w of (r, w) \<Rightarrow>
     if r = - 1 then (ncclInternalError, w)
     else case n_listen N (fd s) w of (r, w) \<Rightarrow> (if r = - 1 then ncclInternalError else ncclSuccess, w))"

definition anpNcclSocketAccept :: "'w net_ops \<Rightarrow> anpNcclSocket \<Rightarrow> anpNcclSocket \<Rightarrow> 'w \<Rightarrow> ncclResult \<times> anpNcclSocket \<times> 'w" where
  "anpNcclSocketAccept N c l w = (case n_accept N (fd l) w of ((f, a), w) \<Rightarrow>
     if f = - 1 then (ncclInternalError, c\<lparr>fd := f\<rparr>, w) else (ncclSuccess, c\<lparr>fd := f, addr := a\<rparr>, w))"

definition anpNcclSocketConnect :: "'w net_ops \<Rightarrow> anpNcclSocket \<Rightarrow> 'w \<Rightarrow> ncclResult \<times> 'w" where
  "anpNcclSocketConnect N s w = (case n_connect N (fd s) (addr s) w of (r, w) \<Rightarrow>
     (if r = - 1 then ncclInternalError else ncclSuccess, w))"

text \<open>
  \<open>size\<close> is an \<open>int\<close> that the system calls convert to \<open>size_t\<close>: the callers pass the length of \<open>data\<close>, converted, so \<open>sz\<close> is the converted
  length and is compared with the number of bytes the call reports.
\<close>

definition anpNcclSocketSend :: "'w net_ops \<Rightarrow> anpNcclSocket \<Rightarrow> byte list \<Rightarrow> int \<Rightarrow> 'w \<Rightarrow> ncclResult \<times> 'w" where
  "anpNcclSocketSend N s data sz w = (case n_send N (fd s) data w of (sent, w) \<Rightarrow>
     (if sent = - 1 \<or> sent \<noteq> sz then ncclInternalError else ncclSuccess, w))"

definition anpNcclSocketRecv :: "'w net_ops \<Rightarrow> anpNcclSocket \<Rightarrow> int \<Rightarrow> 'w \<Rightarrow> ncclResult \<times> byte list \<times> 'w" where
  "anpNcclSocketRecv N s sz w = (case n_recv N (fd s) (unat (word_of_int sz :: u64)) w of ((received, data), w) \<Rightarrow>
     if received = - 1 then (ncclInternalError, data, w)
     else if received \<noteq> sz then (ncclInternalError, data, w)
     else (ncclSuccess, data, w))"

definition anpNcclSocketClose :: "'w net_ops \<Rightarrow> anpNcclSocket \<Rightarrow> 'w \<Rightarrow> ncclResult \<times> 'w" where
  "anpNcclSocketClose N s w = (ncclSuccess, n_close N (fd s) w)"

subsection \<open>TLV messages\<close>

definition MSG_PLANAR_CONFIG_REQUEST :: u32 where "MSG_PLANAR_CONFIG_REQUEST = 1"
definition MSG_CONFIG_RESPONSE :: u32 where "MSG_CONFIG_RESPONSE = 2"
definition MSG_COMPOSITE_CONFIG :: u32 where "MSG_COMPOSITE_CONFIG = 3"

definition send_tlv :: "'w net_ops \<Rightarrow> anpNcclSocket \<Rightarrow> u32 \<Rightarrow> byte list option \<Rightarrow> u32 \<Rightarrow> 'w \<Rightarrow> int \<times> 'w" where
  "send_tlv N s ty payload len w =
     (case anpNcclSocketSend N s (mem32 (htonl ty)) 4 w of (r, w) \<Rightarrow>
      if r \<noteq> ncclSuccess then (- 1, w)
      else case anpNcclSocketSend N s (mem32 (htonl len)) 4 w of (r, w) \<Rightarrow>
      if r \<noteq> ncclSuccess then (- 1, w)
      else case payload of
          Some bs \<Rightarrow> (if 0 < len then
              (case anpNcclSocketSend N s (take (unat len) bs) (sint len) w of (r, w) \<Rightarrow>
               if r \<noteq> ncclSuccess then (- 1, w) else (0, w))
            else (0, w))
        | None \<Rightarrow> (0, w))"

text \<open>
  The result, the type and length out-parameters (\<open>None\<close> when they were not written), and the
  payload read.  Every caller passes a null payload buffer, \<open>want = False\<close>, and reads it itself.
\<close>

definition recv_tlv :: "'w net_ops \<Rightarrow> anpNcclSocket \<Rightarrow> bool \<Rightarrow> 'w \<Rightarrow> int \<times> (u32 \<times> u32) option \<times> byte list \<times> 'w" where
  "recv_tlv N s want w =
     (case anpNcclSocketRecv N s 4 w of (r, t, w) \<Rightarrow>
      if r \<noteq> ncclSuccess then (- 1, None, [], w)
      else case anpNcclSocketRecv N s 4 w of (r, l, w) \<Rightarrow>
      if r \<noteq> ncclSuccess then (- 1, None, [], w)
      else let ty = htonl (load32 t); len = htonl (load32 l) in
        if 0 < len \<and> want then
          (case anpNcclSocketRecv N s (sint len) w of (r, p, w) \<Rightarrow>
           if r \<noteq> ncclSuccess then (- 1, Some (ty, len), p, w) else (0, Some (ty, len), p, w))
        else (0, Some (ty, len), [], w))"

text \<open>
  A receiver that first reads the header and then the payload, the way the root and the leaf
  do it: the message, or \<open>None\<close> after an error.
\<close>

definition recv_message :: "'w net_ops \<Rightarrow> anpNcclSocket \<Rightarrow> u32 \<Rightarrow> 'w \<Rightarrow> byte list option \<times> 'w" where
  "recv_message N s expected w = (case recv_tlv N s False w of
     (r, hdr, _, w) \<Rightarrow> if r \<noteq> 0 then (None, w) else (case hdr of None \<Rightarrow> (None, w) | Some (ty, len) \<Rightarrow>
       if ty \<noteq> expected then (None, w)
       else if 0 < len then (case anpNcclSocketRecv N s (sint len) w of (r, p, w) \<Rightarrow>
         if r \<noteq> ncclSuccess then (None, w) else (Some p, w))
       else (Some [], w)))"

subsection \<open>Streams\<close>

text \<open>
  What a connected pair of stream sockets does when every call transfers as much as it is asked
  to: \<open>pending w f\<close> are the bytes on their way to descriptor \<open>f\<close>, \<open>peer f\<close> is the other end.
  POSIX allows \<open>recv\<close> to return fewer bytes; see \<open>short_recv_loses_message\<close>.
\<close>

definition whole_transfers :: "'w net_ops \<Rightarrow> ('w \<Rightarrow> int \<Rightarrow> byte list) \<Rightarrow> (int \<Rightarrow> int) \<Rightarrow> bool" where
  "whole_transfers N pending peer \<longleftrightarrow>
     (\<forall>f bs w. \<exists>w'. n_send N f bs w = (int (length bs), w') \<and> pending w' = (pending w)(peer f := pending w (peer f) @ bs)) \<and>
     (\<forall>f n w. n \<le> length (pending w f) \<longrightarrow>
        (\<exists>w'. n_recv N f n w = ((int n, take n (pending w f)), w') \<and> pending w' = (pending w)(f := drop n (pending w f))))"

definition tlv_bytes :: "u32 \<Rightarrow> byte list \<Rightarrow> byte list" where
  "tlv_bytes ty p = be32 ty @ be32 (word_of_nat (length p)) @ p"

lemma send_whole:
  assumes "whole_transfers N pending peer" "sz = int (length bs)"
  shows "\<exists>w'. anpNcclSocketSend N s bs sz w = (ncclSuccess, w') \<and>
    pending w' = (pending w)(peer (fd s) := pending w (peer (fd s)) @ bs)"
proof -
  obtain w' where "n_send N (fd s) bs w = (int (length bs), w')"
      "pending w' = (pending w)(peer (fd s) := pending w (peer (fd s)) @ bs)"
    using assms(1) unfolding whole_transfers_def by blast
  then show ?thesis using assms(2) by (simp add: anpNcclSocketSend_def)
qed

lemma recv_whole:
  assumes "whole_transfers N pending peer" "pending w (fd s) = bs @ rest" "sz = int (length bs)" "length bs < 2 ^ 31"
  shows "\<exists>w'. anpNcclSocketRecv N s sz w = (ncclSuccess, bs, w') \<and> pending w' = (pending w)(fd s := rest)"
proof -
  have "length bs \<le> length (pending w (fd s))" using assms(2) by simp
  then obtain w' where "n_recv N (fd s) (length bs) w = ((int (length bs), take (length bs) (pending w (fd s))), w')"
      "pending w' = (pending w)(fd s := drop (length bs) (pending w (fd s)))"
    using assms(1) unfolding whole_transfers_def by blast
  moreover have "unat (word_of_int sz :: u64) = length bs"
    using assms(3,4) by (simp add: unsigned_of_nat take_bit_nat_eq_self)
  ultimately show ?thesis using assms(2,3) by (simp add: anpNcclSocketRecv_def)
qed

lemma length_word:
  assumes "length p < 2 ^ 31"
  shows "unat (word_of_nat (length p) :: u32) = length p" "sint (word_of_nat (length p) :: u32) = int (length p)"
  using count_word [of "int (length p)" "length p"] assms by simp_all

lemma send_tlv_whole:
  assumes wt: "whole_transfers N pending peer" and len: "length p < 2 ^ 31"
  shows "\<exists>w'. send_tlv N s ty (Some p) (word_of_nat (length p)) w = (0, w') \<and>
    pending w' = (pending w)(peer (fd s) := pending w (peer (fd s)) @ tlv_bytes ty p)"
proof -
  let ?l = "word_of_nat (length p) :: u32" and ?q = "peer (fd s)"
  obtain w1 where w1: "anpNcclSocketSend N s (mem32 (htonl ty)) 4 w = (ncclSuccess, w1)"
      "pending w1 = (pending w)(?q := pending w ?q @ mem32 (htonl ty))"
    using send_whole [OF wt, of 4 "mem32 (htonl ty)" s w] by auto
  obtain w2 where w2: "anpNcclSocketSend N s (mem32 (htonl ?l)) 4 w1 = (ncclSuccess, w2)"
      "pending w2 = (pending w1)(?q := pending w1 ?q @ mem32 (htonl ?l))"
    using send_whole [OF wt, of 4 "mem32 (htonl ?l)" s w1] by auto
  obtain w3 where w3: "anpNcclSocketSend N s p (sint ?l) w2 = (ncclSuccess, w3)"
      "pending w3 = (pending w2)(?q := pending w2 ?q @ p)"
    using send_whole [OF wt, of "sint ?l" p s w2] length_word [OF len] by auto
  have "pending w2 = pending w3" if "p = []" using w3(2) that by simp
  moreover have "0 < ?l \<longleftrightarrow> p \<noteq> []"
    using length_word(1) [OF len] by (simp add: word_gt_0 unat_eq_zero [symmetric] del: unat_eq_zero)
  ultimately show ?thesis using w1 w2 w3 length_word(1) [OF len]
    by (cases "p = []") (auto simp: send_tlv_def tlv_bytes_def be32_def)
qed

lemma recv_header_whole:
  assumes wt: "whole_transfers N pending peer" and p: "pending w (fd s) = be32 ty @ be32 len @ rest"
  shows "\<exists>w'. recv_tlv N s False w = (0, Some (ty, len), [], w') \<and> pending w' = (pending w)(fd s := rest)"
proof -
  obtain w1 where w1: "anpNcclSocketRecv N s 4 w = (ncclSuccess, be32 ty, w1)" "pending w1 = (pending w)(fd s := be32 len @ rest)"
    using recv_whole [OF wt p, of 4] by auto
  obtain w2 where w2: "anpNcclSocketRecv N s 4 w1 = (ncclSuccess, be32 len, w2)" "pending w2 = (pending w1)(fd s := rest)"
    using recv_whole [OF wt, of w1 s "be32 len" rest 4] w1(2) by auto
  show ?thesis using w1 w2 by (simp add: recv_tlv_def be32_def Let_def)
qed

lemma recv_message_whole:
  assumes wt: "whole_transfers N pending peer" and p: "pending w (fd s) = tlv_bytes ty p @ rest" and len: "length p < 2 ^ 31"
  shows "\<exists>w'. recv_message N s ty w = (Some p, w') \<and> pending w' = (pending w)(fd s := rest)"
proof -
  let ?l = "word_of_nat (length p) :: u32"
  obtain w1 where w1: "recv_tlv N s False w = (0, Some (ty, ?l), [], w1)" "pending w1 = (pending w)(fd s := p @ rest)"
    using recv_header_whole [OF wt, of w s ty ?l "p @ rest"] p by (auto simp: tlv_bytes_def)
  obtain w2 where w2: "anpNcclSocketRecv N s (sint ?l) w1 = (ncclSuccess, p, w2)" "pending w2 = (pending w1)(fd s := rest)"
    using recv_whole [OF wt, of w1 s p rest "sint ?l"] w1(2) length_word [OF len] len by auto
  have "0 < ?l \<longleftrightarrow> p \<noteq> []"
    using length_word(1) [OF len] by (simp add: word_gt_0 unat_eq_zero [symmetric] del: unat_eq_zero)
  then show ?thesis using w1 w2 by (cases "p = []") (auto simp: recv_message_def)
qed

subsection \<open>Properties of the messages\<close>

definition demo_net :: "(int \<Rightarrow> byte list) net_ops" where
  "demo_net = \<lparr>n_socket = (\<lambda>w. (3, w)), n_setsockopt = (\<lambda>f w. (0, w)), n_fcntl_nonblock = (\<lambda>f w. (0, w)),
     n_bind = (\<lambda>f a w. (0, w)), n_listen = (\<lambda>f w. (0, w)),
     n_accept = (\<lambda>f w. ((4, \<lparr>sa_family = AF_INET, sin_addr = 0, sin_port = 0\<rparr>), w)),
     n_connect = (\<lambda>f a w. (0, w)),
     n_send = (\<lambda>f bs w. (int (length bs), w(1 - f := w (1 - f) @ bs))),
     n_recv = (\<lambda>f n w. ((int (min n (length (w f))), take n (w f)), w(f := drop n (w f)))),
     n_close = (\<lambda>f w. w), n_sleep1 = (\<lambda>w. w)\<rparr>"

definition demo_sock :: "int \<Rightarrow> anpNcclSocket" where
  "demo_sock f = \<lparr>fd = f, addr = \<lparr>sa_family = AF_INET, sin_addr = 0, sin_port = 0\<rparr>\<rparr>"

lemma demo_net_whole: "whole_transfers demo_net (\<lambda>w. w) (\<lambda>f. 1 - f)"
  by (simp add: whole_transfers_def demo_net_def)

text \<open>
  C28: TLV round trip: over a connection whose calls transfer whole buffers, a message sent with
  \<open>send_tlv\<close> is what the other end reads, header first and then the payload, and the bytes that
  were already under way and those that follow it stay in order.
\<close>

theorem tlv_round_trip:
  assumes "whole_transfers N pending peer" "peer (fd a) = fd b" "pending w (fd b) = []" "length p < 2 ^ 31"
  shows "\<exists>w' w''. send_tlv N a ty (Some p) (word_of_nat (length p)) w = (0, w') \<and>
    recv_message N b ty w' = (Some p, w'') \<and> pending w'' = pending w"
proof -
  obtain w' where w': "send_tlv N a ty (Some p) (word_of_nat (length p)) w = (0, w')"
      "pending w' = (pending w)(fd b := tlv_bytes ty p)"
    using send_tlv_whole [OF assms(1,4), of a ty w] assms(2,3) by auto
  then obtain w'' where "recv_message N b ty w' = (Some p, w'')" "pending w'' = (pending w')(fd b := [])"
    using recv_message_whole [OF assms(1) _ assms(4), of w' b ty "[]"] by auto
  moreover have "(pending w')(fd b := []) = pending w" using w'(2) assms(3) by auto
  ultimately show ?thesis using w'(1) by auto
qed

theorem tlv_round_trip_witness:
  "\<exists>w' w''. send_tlv demo_net (demo_sock 0) 2 (Some [7, 8, 9]) 3 (\<lambda>_. []) = (0, w') \<and>
    recv_message demo_net (demo_sock 1) 2 w' = (Some [7, 8, 9], w'') \<and> w'' = (\<lambda>_. [])"
  using tlv_round_trip [OF demo_net_whole, of "demo_sock 0" "demo_sock 1" "\<lambda>_. []" "[7, 8, 9]" 2]
  by (simp add: demo_sock_def)

text \<open>
  A single \<open>recv\<close> is expected to deliver the whole payload: after a well-formed header, a call
  that returns fewer bytes than announced, which a stream socket may do at any time, makes
  the receiver drop the message as an error.
\<close>

theorem short_recv_loses_message:
  assumes "recv_tlv N s False w = (0, Some (ty, len), d, w1)" "0 < len"
    and "n_recv N (fd s) (unat (word_of_int (sint len) :: u64)) w1 = ((k, part), w2)" "k < sint len"
  shows "recv_message N s ty w = (None, w2)"
  using assms by (simp add: recv_message_def anpNcclSocketRecv_def)

theorem short_recv_loses_message_witness:
  "fst (recv_message demo_net (demo_sock 1) 2 ((\<lambda>_. [])(1 := be32 2 @ be32 5 @ [1, 2, 3]))) = None"
proof -
  let ?w = "((\<lambda>_. []) :: int \<Rightarrow> byte list)(1 := be32 2 @ be32 5 @ [1, 2, 3])"
  let ?r = "recv_tlv demo_net (demo_sock 1) False ?w"
  have h: "fst ?r = 0" "fst (snd ?r) = Some (2, 5)" "snd (snd (snd ?r)) 1 = [1, 2, 3]" by code_simp+
  obtain d w1 where r: "?r = (0, Some (2, 5), d, w1)" "w1 1 = [1, 2, 3]"
    using h by (cases ?r) auto
  have "n_recv demo_net (fd (demo_sock 1)) (unat (word_of_int (sint (5 :: u32)) :: u64)) w1 = ((3, [1, 2, 3]), w1(1 := []))"
    using r(2) by (simp add: demo_net_def demo_sock_def)
  from short_recv_loses_message [OF r(1) _ this] show ?thesis by simp
qed

end
