(* ===== verification/Bootstrap.thy ===== *)
theory Bootstrap
  imports Iptables Sockets
begin

text \<open>
  The bootstrap program (\<open>bootstrap.cc\<close>): reading the address list, finding the local address,
  electing the root, and the root and leaf sides of the configuration exchange.

  Loops that retry a system call for ever are \<open>partial_function (option)\<close>s: \<open>None\<close> is a run that
  does not return.  A run of a node is \<open>Returns\<close> a result, \<open>Diverges\<close>, or is \<open>Undefined\<close> (an access
  outside a buffer or array).  The receiving threads of the root each use their own
  connection and update the datastore under a mutex; they are modelled as running one after
  the other in any order \<open>ord\<close>.  Log output is not modelled.
\<close>

subsection \<open>The address list and the election\<close>

definition INET_ADDRSTRLEN :: nat where "INET_ADDRSTRLEN = 16"
definition MAX_IPS :: nat where "MAX_IPS = 64"
definition DEFAULT_PORT :: u16 where "DEFAULT_PORT = 34567"
definition PLANAR_CONFIG_FILE :: string where "PLANAR_CONFIG_FILE = ''/etc/ainic_planar_config.json''"

definition ip_to_uint :: "string \<Rightarrow> u32" where
  "ip_to_uint s = (case inet_pton4 s of None \<Rightarrow> 0xffffffff | Some a \<Rightarrow> htonl a)"

text \<open>\<open>fgets\<close> with room for \<open>k\<close> characters: the characters read and the rest of the file.\<close>

fun fgets_take :: "nat \<Rightarrow> string \<Rightarrow> string \<times> string" where
  "fgets_take 0 s = ([], s)"
| "fgets_take (Suc k) [] = ([], [])"
| "fgets_take (Suc k) (c # s) = (if c = CHR 0x0A then ([c], s) else (let (a, r) = fgets_take k s in (c # a, r)))"

definition line_char :: "char \<Rightarrow> bool" where
  "line_char c \<longleftrightarrow> c \<noteq> CHR 0x0A \<and> c \<noteq> CHR 0x0D \<and> c \<noteq> CHR 0x00"

lemma fgets_take_append: "fgets_take k s = (a, r) \<Longrightarrow> a @ r = s"
  by (induction k s arbitrary: a r rule: fgets_take.induct) (auto split: if_splits prod.splits)

lemma fgets_take_progress: "fgets_take (Suc k) (c # s) = (a, r) \<Longrightarrow> length r < length (c # s)"
  by (auto split: if_splits prod.splits dest!: fgets_take_append)

function read_ip_loop :: "nat \<Rightarrow> string list \<Rightarrow> string \<Rightarrow> string list" where
  "read_ip_loop max_ips acc s =
     (if length acc < max_ips \<and> s \<noteq> [] then
        let (chunk, rest) = fgets_take (INET_ADDRSTRLEN - 1) s;
            l = takeWhile line_char chunk
        in read_ip_loop max_ips (if l \<noteq> [] then acc @ [l] else acc) rest
      else acc)"
  by auto
termination
proof (relation "measure (\<lambda>(_, _, s). length s)")
  fix max_ips :: nat and acc :: "string list" and s chunk rest l :: string and x :: "string \<times> string"
  assume "length acc < max_ips \<and> s \<noteq> []" and x: "x = fgets_take (INET_ADDRSTRLEN - 1) s" and xy: "(chunk, rest) = x"
  then obtain c t where "s = c # t" by (cases s) auto
  with x xy have "length rest < length s" using fgets_take_progress [of 14 c t chunk rest] by (simp add: INET_ADDRSTRLEN_def)
  then show "((max_ips, if l \<noteq> [] then acc @ [l] else acc, rest), max_ips, acc, s) \<in> measure (\<lambda>(_, _, s). length s)" by simp
qed auto

declare read_ip_loop.simps [simp del]

definition read_ip_list :: "string option \<Rightarrow> nat \<Rightarrow> string list option" where
  "read_ip_list file max_ips = (case file of None \<Rightarrow> None | Some s \<Rightarrow> Some (read_ip_loop max_ips [] s))"

text \<open>
  \<open>getifaddrs\<close> gives the address families and IPv4 addresses of the interfaces (\<open>None\<close> inside
  for an interface without address).
\<close>

fun find_local :: "(nat \<times> u32) option list \<Rightarrow> string list \<Rightarrow> string option" where
  "find_local [] ips = None"
| "find_local (None # ifs) ips = find_local ifs ips"
| "find_local (Some (fam, a) # ifs) ips =
     (if fam = AF_INET \<and> inet_ntop4 a \<in> set ips then Some (inet_ntop4 a) else find_local ifs ips)"

definition get_local_ip :: "(nat \<times> u32) option list option \<Rightarrow> string list \<Rightarrow> string option" where
  "get_local_ip ifs ips = (case ifs of None \<Rightarrow> None | Some l \<Rightarrow> find_local l ips)"

fun elect_loop :: "string list \<Rightarrow> string \<Rightarrow> u32 \<Rightarrow> string" where
  "elect_loop [] root lowest = root"
| "elect_loop (ip # ips) root lowest =
     (let val = ip_to_uint ip in if val < lowest then elect_loop ips ip val else elect_loop ips root lowest)"

definition elect_root :: "string list \<Rightarrow> string" where
  "elect_root ips = (case ips of [] \<Rightarrow> [] | ip # rest \<Rightarrow> elect_loop rest ip (ip_to_uint ip))"

datatype role = NoRole | RootNode int | LeafNode string

definition choose_role :: "string option \<Rightarrow> (nat \<times> u32) option list option \<Rightarrow> role" where
  "choose_role file ifs = (case read_ip_list file MAX_IPS of
     None \<Rightarrow> NoRole
   | Some ips \<Rightarrow> (if ips = [] then NoRole else (case get_local_ip ifs ips of
       None \<Rightarrow> NoRole
     | Some lip \<Rightarrow> (if lip = elect_root ips then RootNode (int (length ips)) else LeafNode (elect_root ips)))))"

subsection \<open>Runs of a node\<close>

datatype 'a run = Undefined | Diverges | Returns 'a

record ('w, 't) boot_env =
  be_net :: "'w net_ops"
  be_os :: "'w os_ops"
  be_ptree :: "'t ptree_ops"
  be_fresh :: "nat \<Rightarrow> host"
  be_malloc :: "nat \<Rightarrow> bool"
  be_thread :: "nat \<Rightarrow> bool"

definition EXIT_SUCCESS :: int where "EXIT_SUCCESS = 0"
definition EXIT_FAILURE :: int where "EXIT_FAILURE = 1"

definition htons :: "u16 \<Rightarrow> u16" where
  "htons w = push_bit 8 w OR drop_bit 8 w"

definition node_addr :: "string \<Rightarrow> sockaddr" where
  "node_addr ip = \<lparr>sa_family = AF_INET, sin_addr = (case inet_pton4 ip of Some a \<Rightarrow> a | None \<Rightarrow> 0), sin_port = htons DEFAULT_PORT\<rparr>"

subsection \<open>The receiving thread\<close>

type_synonym connection = "anpNcclSocket \<times> string"

record 'w root_state =
  rs_db :: host_db
  responses_received :: int
  rs_world :: 'w

definition recv_config_thread :: "'w net_ops \<Rightarrow> (byte list \<Rightarrow> string option) \<Rightarrow> host \<Rightarrow> connection \<Rightarrow> 'w root_state \<Rightarrow> 'w root_state option" where
  "recv_config_thread N ntop6 fresh conn st =
     (case recv_message N (fst conn) MSG_CONFIG_RESPONSE (rs_world st) of
        (None, w) \<Rightarrow> Some (st\<lparr>rs_world := w\<rparr>)
      | (Some buffer, w) \<Rightarrow> do {
          h \<leftarrow> deserialize_host fresh buffer;
          _ \<leftarrow> print_planar_config ntop6 h;
          Some (st\<lparr>rs_world := w, rs_db := (rs_db st)\<lparr>all_hosts := map_put (c_str (host_ip h)) h (all_hosts (rs_db st))\<rparr>,
                   responses_received := responses_received st + 1\<rparr>) })"

fun run_threads :: "'w net_ops \<Rightarrow> (byte list \<Rightarrow> string option) \<Rightarrow> (nat \<Rightarrow> host) \<Rightarrow> connection list \<Rightarrow> nat list \<Rightarrow> 'w root_state \<Rightarrow> 'w root_state option" where
  "run_threads N ntop6 fresh conns [] st = Some st"
| "run_threads N ntop6 fresh conns (i # ord) st = do {
     c \<leftarrow> arr_get conns i;
     st \<leftarrow> recv_config_thread N ntop6 (fresh i) c st;
     run_threads N ntop6 fresh conns ord st }"

subsection \<open>The root node\<close>

definition peer_ip_of :: "anpNcclSocket \<Rightarrow> string" where
  "peer_ip_of s = (if sa_family (addr s) = AF_INET then inet_ntop4 (sin_addr (addr s)) else ''unknown'')"

partial_function (option) accept_loop :: "'w net_ops \<Rightarrow> anpNcclSocket \<Rightarrow> anpNcclSocket \<Rightarrow> nat \<Rightarrow> connection list \<Rightarrow> 'w \<Rightarrow> (connection list \<times> 'w) option" where
  "accept_loop N blank l total_LNs conns w =
     (if length conns < total_LNs then
        (case anpNcclSocketAccept N blank l w of (r, c, w) \<Rightarrow>
           if r \<noteq> ncclSuccess then accept_loop N blank l total_LNs conns w
           else accept_loop N blank l total_LNs (conns @ [(c, peer_ip_of c)]) w)
      else Some (conns, w))"

definition send_each :: "'w net_ops \<Rightarrow> connection list \<Rightarrow> u32 \<Rightarrow> byte list option \<Rightarrow> u32 \<Rightarrow> 'w \<Rightarrow> 'w" where
  "send_each N conns ty payload len w = fold (\<lambda>c w. snd (send_tlv N (fst c) ty payload len w)) conns w"

definition close_each :: "'w net_ops \<Rightarrow> connection list \<Rightarrow> 'w \<Rightarrow> 'w" where
  "close_each N conns w = fold (\<lambda>c w. snd (anpNcclSocketClose N (fst c) w)) conns w"

text \<open>Lines 495-530: the composite configuration is sent, the rules are programmed, the sockets closed.\<close>

definition root_finish :: "'w net_ops \<Rightarrow> 'w os_ops \<Rightarrow> connection list \<Rightarrow> anpNcclSocket \<Rightarrow> ipt_state \<Rightarrow> 'w root_state \<Rightarrow> (int \<times> ipt_state \<times> 'w root_state) option" where
  "root_finish N S conns l ipt st = do {
     composite \<leftarrow> serialize_all_hosts (rs_db st);
     let w = send_each N conns MSG_COMPOSITE_CONFIG (Some composite) (word_of_nat (length composite)) (rs_world st);
     (ipt, w) \<leftarrow> apply_local_vip_iptables_rule S (rs_db st) (ipt, w);
     (ipt, w) \<leftarrow> apply_remote_vip_iptables_rule S (rs_db st) (ipt, w);
     let w = close_each N conns w;
     let w = snd (anpNcclSocketClose N l w);
     Some (EXIT_SUCCESS, ipt, st\<lparr>rs_world := w\<rparr>) }"

definition run_root_node :: "('w, 't) boot_env \<Rightarrow> nat list \<Rightarrow> anpNcclSocket \<Rightarrow> int \<Rightarrow> ipt_state \<Rightarrow> 'w root_state \<Rightarrow> (int \<times> ipt_state \<times> 'w root_state) run" where
  "run_root_node E ord blank ip_count ipt st =
     (let N = be_net E; total_LNs = nat (ip_count - 1) in
      case parse_planar_config (be_ptree E) PLANAR_CONFIG_FILE (be_fresh E total_LNs) of
        None \<Rightarrow> Undefined
      | Some (_, h, _) \<Rightarrow>
        let st = st\<lparr>rs_db := (rs_db st)\<lparr>local_ip := c_str (host_ip h), all_hosts := map_put (c_str (host_ip h)) h (all_hosts (rs_db st))\<rparr>\<rparr> in
        case anpNcclSocketInit N blank (node_addr (c_str (host_ip h))) anpNcclSocketTypePluginBootstrap False (rs_world st) of
          (r, l, w) \<Rightarrow>
        let st = st\<lparr>rs_world := w\<rparr> in
        if r \<noteq> ncclSuccess then Returns (EXIT_FAILURE, ipt, st)
        else case anpNcclSocketListen N l (rs_world st) of (r, w) \<Rightarrow>
        let st = st\<lparr>rs_world := w\<rparr> in
        if r \<noteq> ncclSuccess then Returns (EXIT_FAILURE, ipt, st)
        else if \<not> be_malloc E 0 then Returns (EXIT_FAILURE, ipt, st)
        else case accept_loop N blank l total_LNs [] (rs_world st) of
          None \<Rightarrow> Diverges
        | Some (conns, w) \<Rightarrow>
          let st = st\<lparr>rs_world := send_each N conns MSG_PLANAR_CONFIG_REQUEST None 0 w\<rparr> in
          if \<not> be_malloc E 1 \<or> \<not> be_malloc E 2 then Returns (EXIT_FAILURE, ipt, st)
          else if \<exists>i\<in>set [0..<total_LNs]. \<not> be_thread E i then Undefined
          else case run_threads N (inet_ntop6 (be_ptree E)) (be_fresh E) conns ord st of
            None \<Rightarrow> Undefined
          | Some st \<Rightarrow> (case root_finish N (be_os E) conns l ipt st of None \<Rightarrow> Undefined | Some r \<Rightarrow> Returns r))"

subsection \<open>The leaf node\<close>

partial_function (option) connect_loop :: "'w net_ops \<Rightarrow> anpNcclSocket \<Rightarrow> sockaddr \<Rightarrow> 'w \<Rightarrow> (anpNcclSocket \<times> 'w) option" where
  "connect_loop N s a w =
     (case anpNcclSocketInit N s a anpNcclSocketTypePluginBootstrap False w of (r, s, w) \<Rightarrow>
      if r \<noteq> ncclSuccess then connect_loop N s a (n_sleep1 N w)
      else case anpNcclSocketConnect N s w of (r, w) \<Rightarrow>
        if r = ncclSuccess then Some (s, w)
        else connect_loop N s a (n_sleep1 N (snd (anpNcclSocketClose N s w))))"

fun print_all :: "(byte list \<Rightarrow> string option) \<Rightarrow> (string \<times> host) list \<Rightarrow> unit option" where
  "print_all ntop6 [] = Some ()"
| "print_all ntop6 ((k, h) # m) = do { _ \<leftarrow> print_planar_config ntop6 h; print_all ntop6 m }"

text \<open>Lines 608-643: the composite configuration is received, stored and programmed.\<close>

definition leaf_composite :: "('w, 't) boot_env \<Rightarrow> anpNcclSocket \<Rightarrow> host_db \<Rightarrow> ipt_state \<Rightarrow> 'w \<Rightarrow> (int \<times> host_db \<times> ipt_state \<times> 'w) option" where
  "leaf_composite E s db ipt w =
     (case recv_message (be_net E) s MSG_COMPOSITE_CONFIG w of
        (None, w) \<Rightarrow> Some (EXIT_FAILURE, db, ipt, snd (anpNcclSocketClose (be_net E) s w))
      | (Some compbuf, w) \<Rightarrow> do {
          db \<leftarrow> (if compbuf \<noteq> [] then deserialize_all_hosts (be_fresh E) db compbuf else Some db);
          _ \<leftarrow> print_all (inet_ntop6 (be_ptree E)) (all_hosts db);
          (ipt, w) \<leftarrow> apply_local_vip_iptables_rule (be_os E) db (ipt, w);
          (ipt, w) \<leftarrow> apply_remote_vip_iptables_rule (be_os E) db (ipt, w);
          Some (EXIT_SUCCESS, db, ipt, snd (anpNcclSocketClose (be_net E) s w)) })"

definition run_leaf_node :: "('w, 't) boot_env \<Rightarrow> anpNcclSocket \<Rightarrow> string \<Rightarrow> host_db \<Rightarrow> ipt_state \<Rightarrow> 'w \<Rightarrow> (int \<times> host_db \<times> ipt_state \<times> 'w) run" where
  "run_leaf_node E blank root_ip db ipt w =
     (let N = be_net E in
      case connect_loop N blank (node_addr root_ip) w of
        None \<Rightarrow> Diverges
      | Some (s, w) \<Rightarrow>
        (case recv_tlv N s False w of (r, hdr, _, w) \<Rightarrow>
         if r \<noteq> 0 then Returns (EXIT_FAILURE, db, ipt, snd (anpNcclSocketClose N s w))
         else if map_option fst hdr \<noteq> Some MSG_PLANAR_CONFIG_REQUEST then Returns (EXIT_FAILURE, db, ipt, snd (anpNcclSocketClose N s w))
         else case parse_planar_config (be_ptree E) PLANAR_CONFIG_FILE (be_fresh E 0) of
           None \<Rightarrow> Undefined
         | Some (_, h, _) \<Rightarrow>
           let db = db\<lparr>local_ip := c_str (host_ip h)\<rparr> in
           case serialize_host h of
             None \<Rightarrow> Undefined
           | Some buffer \<Rightarrow>
             (case send_tlv N s MSG_CONFIG_RESPONSE (Some buffer) (word_of_nat (length buffer)) w of (r, w) \<Rightarrow>
              if r \<noteq> 0 then Returns (EXIT_FAILURE, db, ipt, snd (anpNcclSocketClose N s w))
              else case leaf_composite E s db ipt w of None \<Rightarrow> Undefined | Some r \<Rightarrow> Returns r)))"

text \<open>\<open>anp_bootstrap_handler\<close>: the role decides which node function runs.\<close>

definition anp_bootstrap_handler :: "('w, 't) boot_env \<Rightarrow> nat list \<Rightarrow> anpNcclSocket \<Rightarrow> string option \<Rightarrow> (nat \<times> u32) option list option \<Rightarrow> host_db \<Rightarrow> ipt_state \<Rightarrow> 'w \<Rightarrow> (host_db \<times> ipt_state \<times> 'w) run" where
  "anp_bootstrap_handler E ord blank file ifs db ipt w = (case choose_role file ifs of
     NoRole \<Rightarrow> Returns (db, ipt, w)
   | RootNode n \<Rightarrow> (case run_root_node E ord blank n ipt \<lparr>rs_db = db, responses_received = 0, rs_world = w\<rparr> of
        Returns (_, ipt, st) \<Rightarrow> Returns (rs_db st, ipt, rs_world st) | Undefined \<Rightarrow> Undefined | Diverges \<Rightarrow> Diverges)
   | LeafNode root \<Rightarrow> (case run_leaf_node E blank root db ipt w of
        Returns (_, db, ipt, w) \<Rightarrow> Returns (db, ipt, w) | Undefined \<Rightarrow> Undefined | Diverges \<Rightarrow> Diverges))"

text \<open>The same for a role decided by the network plugin (\<open>do_bootstrap\<close> of \<open>net_ib.cc\<close>).\<close>

record RCCLBootstrapArgs =
  is_root :: bool
  root_ip :: string
  total_hosts :: int

definition anp_rccl_bootstrap_handler :: "('w, 't) boot_env \<Rightarrow> nat list \<Rightarrow> anpNcclSocket \<Rightarrow> RCCLBootstrapArgs \<Rightarrow> host_db \<Rightarrow> ipt_state \<Rightarrow> 'w \<Rightarrow> (host_db \<times> ipt_state \<times> 'w) run" where
  "anp_rccl_bootstrap_handler E ord blank args db ipt w =
     (if is_root args then (case run_root_node E ord blank (total_hosts args) ipt \<lparr>rs_db = db, responses_received = 0, rs_world = w\<rparr> of
        Returns (_, ipt, st) \<Rightarrow> Returns (rs_db st, ipt, rs_world st) | Undefined \<Rightarrow> Undefined | Diverges \<Rightarrow> Diverges)
      else (case run_leaf_node E blank (root_ip args) db ipt w of
        Returns (_, db, ipt, w) \<Rightarrow> Returns (db, ipt, w) | Undefined \<Rightarrow> Undefined | Diverges \<Rightarrow> Diverges))"

subsection \<open>The election\<close>

lemma elect_loop_spec:
  "elect_loop ips root lowest \<in> insert root (set ips) \<and>
   (lowest = ip_to_uint root \<longrightarrow> (\<forall>ip\<in>insert root (set ips). ip_to_uint (elect_loop ips root lowest) \<le> ip_to_uint ip))"
proof (induction ips arbitrary: root lowest)
  case Nil
  then show ?case by simp
next
  case (Cons ip ips)
  show ?case
  proof (cases "ip_to_uint ip < lowest")
    case True
    then show ?thesis using Cons [of ip "ip_to_uint ip"] by (auto simp: Let_def)
  next
    case False
    then show ?thesis using Cons [of root lowest] by (fastforce simp: Let_def)
  qed
qed

lemma find_local_spec: "find_local ifs ips = Some lip \<Longrightarrow> lip \<in> set ips \<and> (\<exists>a. Some (AF_INET, a) \<in> set ifs \<and> lip = inet_ntop4 a)"
  by (induction ifs ips rule: find_local.induct) (auto split: if_splits)

subsection \<open>Reading the address list\<close>

lemma fgets_take_line:
  assumes "CHR 0x0A \<notin> set l" "length l < k"
  shows "fgets_take k (l @ CHR 0x0A # rest) = (l @ [CHR 0x0A], rest)"
  using assms
proof (induction l arbitrary: k)
  case Nil
  then show ?case by (cases k) auto
next
  case (Cons c l)
  then show ?case by (cases k) auto
qed

lemma fgets_take_full:
  assumes "CHR 0x0A \<notin> set l"
  shows "fgets_take (length l) (l @ rest) = (l, rest)"
  using assms by (induction l) auto

lemma takeWhile_line: "list_all line_char l \<Longrightarrow> takeWhile line_char (l @ [CHR 0x0A]) = l"
  "list_all line_char l \<Longrightarrow> takeWhile line_char l = l"
  by (induction l) (auto simp: line_char_def)

lemma line_no_newline: "list_all line_char l \<Longrightarrow> CHR 0x0A \<notin> set l"
  by (auto simp: list_all_iff line_char_def)

lemma read_ip_loop_line:
  assumes "list_all line_char l" "l \<noteq> []" "length l < INET_ADDRSTRLEN" "length acc < max_ips"
  shows "read_ip_loop max_ips acc (l @ CHR 0x0A # rest) = read_ip_loop max_ips (acc @ [l]) rest"
proof (cases "length l < 15")
  case True
  then have "fgets_take 15 (l @ CHR 0x0A # rest) = (l @ [CHR 0x0A], rest)"
    using assms(1) by (simp add: fgets_take_line line_no_newline)
  then show ?thesis using assms by (simp add: read_ip_loop.simps [of _ _ "l @ CHR 0x0A # rest"] INET_ADDRSTRLEN_def takeWhile_line)
next
  case False
  then have "length l = 15" using assms(3) by (simp add: INET_ADDRSTRLEN_def)
  then have f: "fgets_take 15 (l @ CHR 0x0A # rest) = (l, CHR 0x0A # rest)"
    using fgets_take_full [of l "CHR 0x0A # rest"] assms(1) by (simp add: line_no_newline)
  have "read_ip_loop max_ips (acc @ [l]) (CHR 0x0A # rest) = read_ip_loop max_ips (acc @ [l]) rest"
    by (simp add: read_ip_loop.simps [of _ _ "CHR 0x0A # rest"] read_ip_loop.simps [of max_ips "acc @ [l]" rest] INET_ADDRSTRLEN_def
        eval_nat_numeral line_char_def read_ip_loop.simps [of _ _ "[]"])
  then show ?thesis using assms f
    by (simp add: read_ip_loop.simps [of _ _ "l @ CHR 0x0A # rest"] INET_ADDRSTRLEN_def takeWhile_line)
qed

lemma read_ip_loop_lines:
  assumes "\<forall>l\<in>set ls. list_all line_char l \<and> l \<noteq> [] \<and> length l < INET_ADDRSTRLEN" "length acc + length ls \<le> max_ips"
  shows "read_ip_loop max_ips acc (concat (map (\<lambda>l. l @ [CHR 0x0A]) ls)) = acc @ ls"
  using assms
proof (induction ls arbitrary: acc)
  case Nil
  then show ?case by (simp add: read_ip_loop.simps)
next
  case (Cons l ls)
  then show ?case using read_ip_loop_line [of l acc max_ips "concat (map (\<lambda>l. l @ [CHR 0x0A]) ls)"] by simp
qed

subsection \<open>Collecting the configurations\<close>

text \<open>A host all of whose device slots, also the unused ones, can be printed.\<close>

definition host_clean :: "host \<Rightarrow> bool" where
  "host_clean h \<longleftrightarrow> host_shape h \<and> list_all device_ok (devices h)"

lemma print_loop_ok:
  assumes "\<And>x. ok x \<Longrightarrow> \<exists>out. f x = Some out" "i + n \<le> length xs" "\<forall>j<n. ok (xs ! (i + j))"
  shows "\<exists>out. print_loop f xs i n = Some out"
  using assms(2,3)
proof (induction n arbitrary: i)
  case 0
  then show ?case by simp
next
  case (Suc n)
  have "ok (xs ! i)" using Suc.prems(2) by (metis add_0_right zero_less_Suc)
  then obtain a where a: "f (xs ! i) = Some a" using assms(1) by blast
  have "\<forall>j<n. ok (xs ! (Suc i + j))" using Suc.prems(2) by (metis Suc_less_eq add_Suc_shift)
  then obtain b where "print_loop f xs (Suc i) n = Some b" using Suc.IH [of "Suc i"] Suc.prems(1) by auto
  then show ?case using a Suc.prems(1) by (simp add: ub_simps)
qed

lemma cstr_text_ok: "0 \<in> set a \<Longrightarrow> cstr_text a = Some (map char_of_byte (cstr a))"
  by (simp add: cstr_text_def c_strlen_def take_cstr)

lemma print_interface_ok: "interface_ok p \<Longrightarrow> \<exists>out. print_interface ntop6 p = Some out"
  by (simp add: print_interface_def interface_ok_def cstr_text_ok)

lemma print_device_ok: "device_ok d \<Longrightarrow> \<exists>out. print_device ntop6 d = Some out"
  using print_loop_ok [of interface_ok "print_interface ntop6" 0 "nat (num_interfaces d)" "planar_intfs d"]
  by (auto simp: print_device_def device_ok_def device_shape_def cstr_text_ok print_interface_ok list_all_length nat_le_iff)

lemma print_planar_config_ok: "host_clean h \<Longrightarrow> \<exists>out. print_planar_config ntop6 h = Some (ANP_SUCCESS, out)"
  using print_loop_ok [of device_ok "print_device ntop6" 0 "length (devices h)" "devices h"]
  by (auto simp: print_planar_config_def host_clean_def print_device_ok list_all_length)

lemma des_loop_frame:
  "des_loop f xs i n buf off = Some (ys, o') \<Longrightarrow> length ys = length xs \<and> (\<forall>j. j < i \<or> i + n \<le> j \<longrightarrow> ys ! j = xs ! j)"
proof (induction f xs i n buf off rule: des_loop.induct)
  case (1 f xs i buf off)
  then show ?case by simp
next
  case (2 f xs i n buf off)
  then obtain y q where y: "f (xs ! i) buf off = Some (y, q)" "i < length xs" "des_loop f (xs[i := y]) (Suc i) n buf q = Some (ys, o')"
    by (auto simp: bind_eq_Some_conv arr_get_def arr_set_def split: if_splits)
  have "length ys = length (xs[i := y]) \<and> (\<forall>j. j < Suc i \<or> Suc i + n \<le> j \<longrightarrow> ys ! j = xs[i := y] ! j)"
    using "2.IH" [of "xs ! i" "(y, q)" y q "xs[i := y]"] y by (simp add: ub_simps)
  then show ?case by auto
qed

lemma deserialize_host_clean:
  assumes "host_ok h" "serialize_host h = Some bs" "host_clean fresh"
  shows "\<exists>g. deserialize_host fresh bs = Some g \<and> view_host g = view_host h \<and> host_ok g \<and> host_clean g"
proof -
  obtain g where g: "deserialize_host_at fresh bs 0 = Some (g, length bs)" "view_host g = view_host h" "host_ok g"
    using des_ser_host [OF assms(1,2), of fresh "[]" "[]"] assms(3) by (auto simp: host_clean_def)
  then obtain n b q where n: "des_loop des_device (devices fresh) 0 (unat n) bs b = Some (devices g, q)" "num_devices g = sint (n :: u32)"
    by (auto simp: deserialize_host_at_def bind_eq_Some_conv)
  have le: "nat (num_devices g) \<le> 8" "0 \<le> num_devices g" using g(3) by (auto simp: host_ok_def MAX_DEVICES_def)
  have len: "length (devices g) = 8" using g(3) by (simp add: host_ok_def host_shape_def MAX_DEVICES_def)
  have "device_ok (devices g ! j)" if "j < 8" for j
  proof (cases "j < nat (num_devices g)")
    case True
    then show ?thesis using g(3) len that by (auto simp: host_ok_def list_all_length)
  next
    case False
    have "unat n = nat (sint n)" using le(2) n(2) count_word(1) [of "sint n" 8] le(1) by auto
    then have "devices g ! j = devices fresh ! j" using des_loop_frame [OF n(1)] False n(2) by auto
    then show ?thesis using assms(3) that by (auto simp: host_clean_def host_shape_def list_all_length MAX_DEVICES_def)
  qed
  then show ?thesis using g len by (auto simp: deserialize_host_def host_clean_def list_all_length host_ok_def)
qed

definition ip_views :: "host list \<Rightarrow> (string \<rightharpoonup> host_view)" where
  "ip_views hs = map_of (rev (map (\<lambda>h. (c_str (host_ip h), view_host h)) hs))"

lemma map_add_ip_Cons: "m(c_str (host_ip h) \<mapsto> view_host h) ++ ip_views hs = m ++ ip_views (h # hs)"
  by (rule ext) (simp add: ip_views_def map_add_def split: option.splits)

lemma recv_config_thread_stores:
  assumes "whole_transfers N pending peer" "host_clean fresh" "host_ok h" "serialize_host h = Some bs" "length bs < 2 ^ 31"
    and "pending (rs_world st) (fd (fst conn)) = tlv_bytes MSG_CONFIG_RESPONSE bs"
  shows "\<exists>st'. recv_config_thread N ntop6 fresh conn st = Some st' \<and>
    pending (rs_world st') = (pending (rs_world st))(fd (fst conn) := []) \<and>
    responses_received st' = responses_received st + 1 \<and> local_ip (rs_db st') = local_ip (rs_db st) \<and>
    host_views (all_hosts (rs_db st')) = (host_views (all_hosts (rs_db st)))(c_str (host_ip h) \<mapsto> view_host h) \<and>
    (hosts_ok (all_hosts (rs_db st)) \<longrightarrow> hosts_ok (all_hosts (rs_db st')))"
proof -
  obtain w' where w': "recv_message N (fst conn) MSG_CONFIG_RESPONSE (rs_world st) = (Some bs, w')"
      "pending w' = (pending (rs_world st))(fd (fst conn) := [])"
    using recv_message_whole [OF assms(1) _ assms(5), of "rs_world st" "fst conn" MSG_CONFIG_RESPONSE "[]"] assms(6) by auto
  obtain g where g: "deserialize_host fresh bs = Some g" "view_host g = view_host h" "host_ok g" "host_clean g"
    using deserialize_host_clean [OF assms(3,4,2)] by blast
  moreover have "host_ip g = host_ip h" using g(2) by (simp add: view_host_def)
  ultimately show ?thesis
    using w' print_planar_config_ok [OF g(4), of ntop6] by (auto simp: recv_config_thread_def host_views_put hosts_ok_put)
qed

lemma run_threads_collect:
  assumes wt: "whole_transfers N pending peer" and fr: "\<forall>i. host_clean (fresh i)"
    and cf: "\<forall>i<length conns. host_ok (cfg i) \<and> serialize_host (cfg i) = Some (msg i) \<and> length (msg i) < 2 ^ 31"
    and fds: "distinct (map (fd \<circ> fst) conns)"
  shows "set ord \<subseteq> {..<length conns} \<Longrightarrow> distinct ord \<Longrightarrow>
    \<forall>i\<in>set ord. pending (rs_world st) (fd (fst (conns ! i))) = tlv_bytes MSG_CONFIG_RESPONSE (msg i) \<Longrightarrow>
    \<exists>st'. run_threads N ntop6 fresh conns ord st = Some st' \<and>
      responses_received st' = responses_received st + int (length ord) \<and> local_ip (rs_db st') = local_ip (rs_db st) \<and>
      host_views (all_hosts (rs_db st')) = host_views (all_hosts (rs_db st)) ++ ip_views (map cfg ord) \<and>
      (hosts_ok (all_hosts (rs_db st)) \<longrightarrow> hosts_ok (all_hosts (rs_db st')))"
proof (induction ord arbitrary: st)
  case Nil
  then show ?case by (simp add: ip_views_def)
next
  case (Cons i ord)
  have i: "i < length conns" using Cons.prems(1) by simp
  have ci: "host_ok (cfg i)" "serialize_host (cfg i) = Some (msg i)" "length (msg i) < 2 ^ 31" using cf i by auto
  obtain st1 where st1: "recv_config_thread N ntop6 (fresh i) (conns ! i) st = Some st1"
      "pending (rs_world st1) = (pending (rs_world st))(fd (fst (conns ! i)) := [])"
      "responses_received st1 = responses_received st + 1" "local_ip (rs_db st1) = local_ip (rs_db st)"
      "host_views (all_hosts (rs_db st1)) = (host_views (all_hosts (rs_db st)))(c_str (host_ip (cfg i)) \<mapsto> view_host (cfg i))"
      "hosts_ok (all_hosts (rs_db st)) \<longrightarrow> hosts_ok (all_hosts (rs_db st1))"
    using recv_config_thread_stores [OF wt _ ci, of "fresh i" st "conns ! i" ntop6] fr Cons.prems(3) by auto
  have "pending (rs_world st1) (fd (fst (conns ! j))) = tlv_bytes MSG_CONFIG_RESPONSE (msg j)" if "j \<in> set ord" for j
  proof -
    have "j \<noteq> i" "j < length conns" using that Cons.prems(1,2) by auto
    then have "fd (fst (conns ! j)) \<noteq> fd (fst (conns ! i))"
      using fds i nth_eq_iff_index_eq [OF fds, of j i] by auto
    then show ?thesis using st1(2) Cons.prems(3) that by simp
  qed
  then obtain st' where "run_threads N ntop6 fresh conns ord st1 = Some st'"
      "responses_received st' = responses_received st1 + int (length ord)" "local_ip (rs_db st') = local_ip (rs_db st1)"
      "host_views (all_hosts (rs_db st')) = host_views (all_hosts (rs_db st1)) ++ ip_views (map cfg ord)"
      "hosts_ok (all_hosts (rs_db st1)) \<longrightarrow> hosts_ok (all_hosts (rs_db st'))"
    using Cons.IH [of st1] Cons.prems(1,2) by auto
  then show ?case using st1 i by (simp add: ub_simps map_add_ip_Cons)
qed

lemma ip_views_distinct:
  assumes "distinct (map (\<lambda>h. c_str (host_ip h)) hs)" "h \<in> set hs"
  shows "ip_views hs (c_str (host_ip h)) = Some (view_host h)"
proof -
  have "distinct (map fst (rev (map (\<lambda>h. (c_str (host_ip h), view_host h)) hs)))"
    using assms(1) by (simp add: rev_map [symmetric] comp_def)
  then show ?thesis unfolding ip_views_def using assms(2) by (intro map_of_is_SomeI) auto
qed

lemma ip_views_None: "k \<notin> (\<lambda>h. c_str (host_ip h)) ` set hs \<Longrightarrow> ip_views hs k = None"
  by (auto simp: ip_views_def map_of_eq_None_iff)

subsection \<open>Properties of the bootstrap\<close>

text \<open>
  An address file of at most 64 lines, each a non-empty string of at most 15 characters (the longest dotted
  quad, whose newline does not fit the buffer of the same read, included), is read as the list of its lines.
\<close>

theorem address_list_read:
  assumes "\<forall>l\<in>set ls. list_all line_char l \<and> l \<noteq> [] \<and> length l \<le> 15" "length ls \<le> MAX_IPS"
  shows "read_ip_list (Some (concat (map (\<lambda>l. l @ [CHR 0x0A]) ls))) MAX_IPS = Some ls"
proof -
  have "\<forall>l\<in>set ls. list_all line_char l \<and> l \<noteq> [] \<and> length l < INET_ADDRSTRLEN"
    using assms(1) by (auto simp: INET_ADDRSTRLEN_def)
  then show ?thesis using read_ip_loop_lines [of ls "[]" MAX_IPS] assms(2) by (simp add: read_ip_list_def)
qed

theorem address_list_read_witness:
  "read_ip_list (Some (''192.168.100.200'' @ [CHR 0x0A] @ ''10.0.0.7'' @ [CHR 0x0A])) MAX_IPS = Some [''192.168.100.200'', ''10.0.0.7'']"
proof -
  have "\<forall>l\<in>set [''192.168.100.200'', ''10.0.0.7'']. list_all line_char l \<and> l \<noteq> [] \<and> length l \<le> 15" by code_simp
  from address_list_read [OF this] show ?thesis by (simp add: MAX_IPS_def)
qed

text \<open>
  C26: Every host that takes a role does so for the numerically lowest address of the list: the root it
  computes is in the list and no listed address is lower, the host is root exactly when its own address, one
  of its IPv4 interfaces that is in the list, is that one, and it then expects one configuration per listed host.
\<close>

theorem lowest_address_elected:
  assumes "choose_role file ifs \<noteq> NoRole"
  shows "\<exists>ips lip. read_ip_list file MAX_IPS = Some ips \<and> get_local_ip ifs ips = Some lip \<and> lip \<in> set ips \<and>
    elect_root ips \<in> set ips \<and> (\<forall>ip\<in>set ips. ip_to_uint (elect_root ips) \<le> ip_to_uint ip) \<and>
    choose_role file ifs = (if lip = elect_root ips then RootNode (int (length ips)) else LeafNode (elect_root ips))"
proof -
  obtain ips lip where ips: "read_ip_list file MAX_IPS = Some ips" "ips \<noteq> []" "get_local_ip ifs ips = Some lip"
    using assms by (auto simp: choose_role_def split: option.splits if_splits)
  obtain ip rest where c: "ips = ip # rest" using ips(2) by (cases ips) auto
  have "lip \<in> set ips" using ips(3) find_local_spec by (auto simp: get_local_ip_def split: option.splits)
  moreover have "elect_root ips \<in> set ips \<and> (\<forall>i\<in>set ips. ip_to_uint (elect_root ips) \<le> ip_to_uint i)"
    using elect_loop_spec [of rest ip "ip_to_uint ip"] by (simp add: elect_root_def c)
  ultimately show ?thesis using ips by (auto simp: choose_role_def)
qed

theorem lowest_address_elected_witness:
  "choose_role (Some (''10.0.0.9'' @ [CHR 0x0A] @ ''9.255.0.1'' @ [CHR 0x0A])) (Some [None, Some (AF_INET, 0x0900000A)])
    = LeafNode ''9.255.0.1''"
proof -
  have "choose_role (Some (''10.0.0.9'' @ [CHR 0x0A] @ ''9.255.0.1'' @ [CHR 0x0A])) (Some [None, Some (AF_INET, 0x0900000A)]) \<noteq> NoRole"
    by code_simp
  note lowest_address_elected [OF this]
  moreover have "read_ip_list (Some (''10.0.0.9'' @ [CHR 0x0A] @ ''9.255.0.1'' @ [CHR 0x0A])) MAX_IPS = Some [''10.0.0.9'', ''9.255.0.1'']"
    by code_simp
  moreover have "get_local_ip (Some [None, Some (AF_INET, 0x0900000A)]) [''10.0.0.9'', ''9.255.0.1''] = Some ''10.0.0.9''" by code_simp
  moreover have "elect_root [''10.0.0.9'', ''9.255.0.1''] = ''9.255.0.1''" by code_simp
  ultimately show ?thesis by auto
qed


lemma demo_empty_host:
  "host_ok (demo_host\<lparr>num_devices := 0\<rparr>)"
  "serialize_host (demo_host\<lparr>num_devices := 0\<rparr>) = Some (be32 5 @ map byte_of_char ''nodeA'' @ be32 8 @ map byte_of_char ''10.0.0.1'' @ be32 0)"
  using demo_host_ok by (simp_all add: host_ok_def demo_host_def host_shape_def serialize_host_def ser_bytes_def)


end
