(* ===== verification/Launch.thy ===== *)
theory Launch
  imports Bootstrap
begin

text \<open>
  The bootstrap as started from an MPI job (\<open>net_ib.cc\<close>): \<open>convert_hostname_to_ip\<close>, \<open>do_host_level_bootstrapping\<close>
  and \<open>do_bootstrap\<close>.  The call of \<open>do_bootstrap\<close> in \<open>anpNetInit\<close> is commented out at this commit.  Also \<open>main\<close> of \<open>bootstrap.cc\<close>, which
  starts it with a list of addresses.

  What a rank learns from MPI and the resolver is the record \<open>mpi_env\<close>; \<open>bootstrap_role\<close> gives the
  collective operations the rank enters, in order, and the role it takes, if any; \<open>do_bootstrap\<close> also runs it.
\<close>

subsection \<open>Addresses of hosts\<close>

text \<open>The first IPv4 address that fits; \<open>gai\<close> is \<open>getaddrinfo\<close>, \<open>None\<close> when it fails.  A buffer nothing is written to keeps its contents.\<close>

fun first_address :: "nat \<Rightarrow> u32 list \<Rightarrow> string option" where
  "first_address n [] = None"
| "first_address n (a # as) = (if length (inet_ntop4 a) < n then Some (inet_ntop4 a) else first_address n as)"

definition convert_hostname_to_ip :: "(string \<Rightarrow> u32 list option) \<Rightarrow> string \<Rightarrow> string \<Rightarrow> nat \<Rightarrow> int \<times> string" where
  "convert_hostname_to_ip gai hostname ip_str ip_str_size = (case gai hostname of
     None \<Rightarrow> (-1, ip_str)
   | Some res \<Rightarrow> (case first_address ip_str_size res of Some ip \<Rightarrow> (0, ip) | None \<Rightarrow> (-1, ip_str)))"

subsection \<open>The role of a rank\<close>

record mpi_env =
  local_rank :: nat
  global_rank :: nat
  processor_name :: string
  allreduce_sum :: "int \<Rightarrow> int"
  bcast_from_0 :: "string \<Rightarrow> string"
  gai :: "string \<Rightarrow> u32 list option"

datatype mpi_call = Comm_split_shared | World_allreduce int | World_bcast string | Local_barrier

text \<open>\<open>root_host0\<close> and \<open>buf0\<close> are the first contents of \<open>root_host\<close> and \<open>host_ip_buf\<close>.\<close>

definition bootstrap_role :: "mpi_env \<Rightarrow> string \<Rightarrow> string \<Rightarrow> mpi_call list \<times> RCCLBootstrapArgs option" where
  "bootstrap_role M root_host0 buf0 =
     (let local_has_root = (global_rank M = 0);
          is_host_leader = (if local_rank M = 0 then 1 else 0);
          total = allreduce_sum M is_host_leader
      in if local_rank M = 0 then
           (let root_host = (if local_has_root then processor_name M else root_host0);
                root_host' = bcast_from_0 M root_host;
                ip = snd (convert_hostname_to_ip (gai M) root_host' buf0 INET_ADDRSTRLEN)
            in ([Comm_split_shared, World_allreduce is_host_leader, World_bcast root_host, Local_barrier],
                Some \<lparr>is_root = local_has_root, root_ip = take INET_ADDRSTRLEN ip, total_hosts = total\<rparr>))
         else ([Comm_split_shared, World_allreduce is_host_leader, Local_barrier], None))"

text \<open>The role is taken by a thread of its own, which is joined; when it cannot be created nothing happens.\<close>

definition do_host_level_bootstrapping :: "('w, 't) boot_env \<Rightarrow> bool \<Rightarrow> nat list \<Rightarrow> anpNcclSocket \<Rightarrow> RCCLBootstrapArgs \<Rightarrow> host_db \<Rightarrow> ipt_state \<Rightarrow> 'w \<Rightarrow> (host_db \<times> ipt_state \<times> 'w) run" where
  "do_host_level_bootstrapping E created ord blank args db ipt w =
     (if created then anp_rccl_bootstrap_handler E ord blank args db ipt w else Returns (db, ipt, w))"

definition do_bootstrap :: "('w, 't) boot_env \<Rightarrow> bool \<Rightarrow> nat list \<Rightarrow> anpNcclSocket \<Rightarrow> mpi_env \<Rightarrow> string \<Rightarrow> string \<Rightarrow> host_db \<Rightarrow> ipt_state \<Rightarrow> 'w \<Rightarrow>
    mpi_call list \<times> (host_db \<times> ipt_state \<times> 'w) run" where
  "do_bootstrap E created ord blank M root_host0 buf0 db ipt w = (case bootstrap_role M root_host0 buf0 of (calls, role) \<Rightarrow>
     (calls, case role of Some args \<Rightarrow> do_host_level_bootstrapping E created ord blank args db ipt w | None \<Rightarrow> Returns (db, ipt, w)))"

subsection \<open>A job\<close>

text \<open>
  The hosts of a job with the global ranks on each; \<open>MPI_Comm_split_type\<close> with equal keys numbers the ranks of a host in the
  order of their global ranks.
\<close>

definition job_ok :: "(string \<times> nat list) list \<Rightarrow> bool" where
  "job_ok hosts \<longleftrightarrow> (\<forall>h\<in>set hosts. snd h \<noteq> [] \<and> sorted (snd h)) \<and> distinct (concat (map snd hosts)) \<and> 0 \<in> set (concat (map snd hosts))"

definition leader_flags :: "(string \<times> nat list) list \<Rightarrow> int list" where
  "leader_flags hosts = concat (map (\<lambda>(name, ranks). map (\<lambda>l. if l = 0 then 1 else 0) [0..<length ranks]) hosts)"

text \<open>What the rank at place \<open>l\<close> of host \<open>h\<close> learns: its own flag is among those summed; the broadcast delivers the name of the host of rank 0.\<close>

definition mpi_of :: "(string \<times> nat list) list \<Rightarrow> (string \<Rightarrow> u32 list option) \<Rightarrow> nat \<Rightarrow> nat \<Rightarrow> mpi_env" where
  "mpi_of hosts resolve h l = \<lparr>local_rank = l, global_rank = snd (hosts ! h) ! l, processor_name = fst (hosts ! h),
     allreduce_sum = (\<lambda>v. sum_list (leader_flags hosts) - (if l = 0 then 1 else 0) + v),
     bcast_from_0 = (\<lambda>x. if snd (hosts ! h) ! l = 0 then x else fst (the (find (\<lambda>h. 0 \<in> set (snd h)) hosts))), gai = resolve\<rparr>"

lemma leaders_counted: "\<forall>h\<in>set hosts. snd h \<noteq> [] \<Longrightarrow> sum_list (leader_flags hosts) = int (length hosts)"
proof (induction hosts)
  case (Cons h hosts)
  have "sum_list (map (\<lambda>l. if l = 0 then 1 else 0 :: int) [0..<n]) = (if n = 0 then 0 else 1)" for n :: nat
    by (induction n) auto
  then show ?case using Cons by (cases h) (auto simp: leader_flags_def)
qed (simp add: leader_flags_def)

lemma rank_0_leads: "sorted rs \<Longrightarrow> (0 :: nat) \<in> set rs \<Longrightarrow> rs ! 0 = 0"
  by (cases rs) auto

lemma distinct_concat_once:
  "distinct (concat xss) \<Longrightarrow> i < length xss \<Longrightarrow> j < length xss \<Longrightarrow> x \<in> set (xss ! i) \<Longrightarrow> x \<in> set (xss ! j) \<Longrightarrow> i = j"
proof (induction xss arbitrary: i j)
  case (Cons xs xss)
  have u: "x \<in> set (concat xss)" if "x \<in> set (xss ! k)" "k < length xss" for k using that by (metis UN_I nth_mem set_concat)
  have d: "x \<notin> set xs \<or> x \<notin> set (concat xss)" using Cons.prems(1) by (simp only: concat.simps distinct_append) blast
  show ?case
  proof (cases i)
    case 0
    then show ?thesis using Cons.prems d u [of "j - 1"] by (cases j) (simp_all del: set_concat)
  next
    case (Suc i')
    then show ?thesis using Cons.prems Cons.IH [of i' "j - 1"] d u [of i'] by (cases j) (simp_all del: set_concat)
  qed
qed simp

lemma job_host_of_0:
  assumes "job_ok hosts"
  shows "\<exists>!h. h < length hosts \<and> 0 \<in> set (snd (hosts ! h))"
proof -
  obtain r where "r \<in> set hosts" "0 \<in> set (snd r)" using assms by (auto simp: job_ok_def)
  then obtain h where h: "h < length hosts" "0 \<in> set (snd (hosts ! h))" by (metis in_set_conv_nth)
  have "h' = h" if "h' < length hosts" "0 \<in> set (snd (hosts ! h'))" for h'
    using distinct_concat_once [of "map snd hosts" h' h 0] assms that h by (simp add: job_ok_def)
  then show ?thesis using h by blast
qed


text \<open>The broadcast is an operation of all ranks of the job; a rank that does not lead its host never enters it.\<close>

lemma broadcast_by_leaders_only: "(\<exists>x. World_bcast x \<in> set (fst (bootstrap_role M rh buf))) \<longleftrightarrow> local_rank M = 0"
  by (auto simp: bootstrap_role_def Let_def)

definition demo_job :: "(string \<times> nat list) list" where
  "demo_job = [(''n2'', [1, 3]), (''n1'', [0, 2])]"


subsection \<open>The program on its own\<close>

text \<open>
  \<open>main\<close> of \<open>bootstrap.cc\<close>.  \<open>files\<close> gives the contents of a file that can be opened.  The path is copied into
  \<open>ip_list_file\<close>, all of whose 256 bytes \<open>strncpy\<close> writes; the thread opens the file named there, and when there is no
  terminator in it, it reads past the array.  \<open>created\<close> says whether the thread could be created.
\<close>

definition main :: "('w, 't) boot_env \<Rightarrow> bool \<Rightarrow> (string \<Rightarrow> string option) \<Rightarrow> nat list \<Rightarrow> anpNcclSocket \<Rightarrow> string list \<Rightarrow> (nat \<times> u32) option list option \<Rightarrow>
    host_db \<Rightarrow> ipt_state \<Rightarrow> 'w \<Rightarrow> (int \<times> host_db \<times> ipt_state \<times> 'w) run" where
  "main E created files ord blank argv ifs db ipt w =
     (if length argv < 2 then Returns (EXIT_FAILURE, db, ipt, w)
      else case read_ip_list (files (argv ! 1)) MAX_IPS of
        None \<Rightarrow> Returns (EXIT_FAILURE, db, ipt, w)
      | Some ips \<Rightarrow>
          if ips = [] \<or> \<not> created then Returns (EXIT_FAILURE, db, ipt, w)
          else (case cstr_text (c_strncpy (replicate 256 0) (argv ! 1) 256) of
             None \<Rightarrow> Undefined
           | Some path \<Rightarrow> (case anp_bootstrap_handler E ord blank (files path) ifs db ipt w of
               Returns r \<Rightarrow> Returns (EXIT_SUCCESS, r) | Undefined \<Rightarrow> Undefined | Diverges \<Rightarrow> Diverges)))"

text \<open>An argument that is a C string has no NUL.\<close>

lemma copied_path:
  assumes "CHR 0x00 \<notin> set path"
  shows "cstr_text (c_strncpy (replicate 256 0) path 256) = (if length path < 256 then Some path else None)"
proof -
  have "byte_of_char c = 0 \<Longrightarrow> c = CHR 0x00" for c using char_of_byte_of_char [of c] by (auto simp: char_of_byte_def char_of_def)
  then have nz: "\<forall>x\<in>set path. byte_of_char x \<noteq> 0" using assms by metis
  then have nz': "0 \<notin> set (map byte_of_char path)" by force
  have c: "cstr (map byte_of_char path) = map byte_of_char path" using nz by (simp add: cstr_def takeWhile_eq_all_conv)
  show ?thesis
  proof (cases "length path < 256")
    case True
    then have "c_strlen (map byte_of_char path @ replicate (256 - length path) 0) = Some (length path)"
      using cstr_append_nul [OF nz', of "replicate (256 - length path) 0"] by (auto simp: c_strlen_def)
    then show ?thesis using True c by (simp add: cstr_text_def c_strncpy_def Let_def comp_def)
  next
    case False
    then have "c_strlen (map byte_of_char (take 256 path)) = None" using nz by (auto simp: c_strlen_def take_map dest: in_set_takeD)
    then show ?thesis using False c by (simp add: cstr_text_def c_strncpy_def Let_def take_map)
  qed
qed

lemma main_runs_handler:
  assumes "CHR 0x00 \<notin> set path" "read_ip_list (files path) MAX_IPS = Some ips" "ips \<noteq> []"
  shows "main E True files ord blank (prog # path # others) ifs db ipt w =
    (if length path < 256 then (case anp_bootstrap_handler E ord blank (files path) ifs db ipt w of
       Returns r \<Rightarrow> Returns (EXIT_SUCCESS, r) | Undefined \<Rightarrow> Undefined | Diverges \<Rightarrow> Diverges) else Undefined)"
  using assms by (simp add: main_def copied_path)

end
