(* ===== verification/Calls.thy ===== *)
theory Calls
  imports Prelude
begin

text \<open>
  The control flow of the setup code: a call either returns early with a result code (the macro
  \<open>NCCLCHECK\<close>) or goes on with a value, and in both cases has changed the state; \<open>None\<close> is
  undefined behaviour.  \<open>nbind\<close> sequences calls the way \<open>NCCLCHECK\<close> does, \<open>nfor\<close> is a loop over
  indices, \<open>zoom\<close> runs a function on the object a pointer argument leads to.

  \<open>keeps I m\<close> says that \<open>m\<close> preserves \<open>I\<close> whatever it returns; \<open>ends_in P m Q\<close> that \<open>m\<close>, started in
  \<open>P\<close>, has \<open>Q\<close> when it does not return early.  Their rules are collected in \<open>keeps_rules\<close> and \<open>ends_rules\<close>.
\<close>

type_synonym ('s, 'a) nc = "'s \<Rightarrow> ((ncclResult + 'a) \<times> 's) option"

named_theorems keeps_rules \<open>rules for preserved properties\<close>
named_theorems ends_rules \<open>rules for the states after a call that does not return early\<close>

definition nret :: "'a \<Rightarrow> ('s, 'a) nc" where
  "nret a s = Some (Inr a, s)"

definition nfail :: "ncclResult \<Rightarrow> ('s, 'a) nc" where
  "nfail r s = Some (Inl r, s)"

definition nbind :: "('s, 'a) nc \<Rightarrow> ('a \<Rightarrow> ('s, 'b) nc) \<Rightarrow> ('s, 'b) nc" where
  "nbind m f s = (case m s of None \<Rightarrow> None | Some (Inl r, t) \<Rightarrow> Some (Inl r, t) | Some (Inr a, t) \<Rightarrow> f a t)"

definition nget :: "('s \<Rightarrow> 'a) \<Rightarrow> ('s, 'a) nc" where
  "nget f s = Some (Inr (f s), s)"

definition nread :: "('s \<Rightarrow> 'a option) \<Rightarrow> ('s, 'a) nc" where
  "nread f s = (case f s of None \<Rightarrow> None | Some a \<Rightarrow> Some (Inr a, s))"

definition nset :: "('s \<Rightarrow> 's) \<Rightarrow> ('s, unit) nc" where
  "nset f s = Some (Inr (), f s)"

definition nwrite :: "('s \<Rightarrow> 's option) \<Rightarrow> ('s, unit) nc" where
  "nwrite f s = (case f s of None \<Rightarrow> None | Some t \<Rightarrow> Some (Inr (), t))"

definition nwhen :: "bool \<Rightarrow> ('s, unit) nc \<Rightarrow> ('s, unit) nc" where
  "nwhen b m = (if b then m else nret ())"

text \<open>A call that gives a result code and a value; the early return keeps the changed state.\<close>

definition ncheck :: "('s \<Rightarrow> (ncclResult \<times> 'a) \<times> 's) \<Rightarrow> ('s, 'a) nc" where
  "ncheck f s = (case f s of ((r, a), t) \<Rightarrow> if r = ncclSuccess then Some (Inr a, t) else Some (Inl r, t))"

fun nfor :: "nat list \<Rightarrow> (nat \<Rightarrow> ('s, unit) nc) \<Rightarrow> ('s, unit) nc" where
  "nfor [] f = nret ()"
| "nfor (i # is) f = nbind (f i) (\<lambda>_. nfor is f)"

definition zoom :: "('s \<Rightarrow> 't option) \<Rightarrow> ('t \<Rightarrow> 's \<Rightarrow> 's) \<Rightarrow> ('t, 'a) nc \<Rightarrow> ('s, 'a) nc" where
  "zoom g p m s = (case g s of None \<Rightarrow> None | Some t \<Rightarrow> (case m t of None \<Rightarrow> None | Some (r, t') \<Rightarrow> Some (r, p t' s)))"

lemmas nc_defs = nret_def nfail_def nbind_def nget_def nread_def nset_def nwrite_def nwhen_def ncheck_def zoom_def

lemma nbind_ret [simp]: "nbind (nret a) f = f a"
  by (rule ext) (simp add: nc_defs)

lemma nbind_SomeE:
  assumes "nbind m f s = Some (Inr b, t)"
  obtains a u where "m s = Some (Inr a, u)" "f a u = Some (Inr b, t)"
  using assms by (auto simp: nbind_def split: option.splits sum.splits)

lemma nbind_eq: "m s = Some (Inr a, t) \<Longrightarrow> nbind m f s = f a t"
  by (simp add: nbind_def)

lemma nbind_early: "m s = Some (Inl r, t) \<Longrightarrow> nbind m f s = Some (Inl r, t)"
  by (simp add: nbind_def)

text \<open>Inversion of the basic calls when they do not return early.\<close>

lemma nc_inv:
  "nret a s = Some (Inr b, t) \<longleftrightarrow> b = a \<and> t = s"
  "nfail r s = Some (Inr b, t) \<longleftrightarrow> False"
  "nget g s = Some (Inr b, t) \<longleftrightarrow> b = g s \<and> t = s"
  "nread h s = Some (Inr b, t) \<longleftrightarrow> h s = Some b \<and> t = s"
  "nset f s = Some (Inr u, t) \<longleftrightarrow> t = f s"
  "nwrite k s = Some (Inr u, t) \<longleftrightarrow> k s = Some t"
  "ncheck c s = Some (Inr b, t) \<longleftrightarrow> c s = ((ncclSuccess, b), t)"
  by (auto simp: nc_defs split: option.splits prod.splits if_splits)

lemma zoom_inv: "zoom g p m s = Some (Inr a, t) \<longleftrightarrow> (\<exists>x y. g s = Some x \<and> m x = Some (Inr a, y) \<and> t = p y s)"
  by (auto simp: zoom_def split: option.splits)

text \<open>The call did not return early and \<open>P\<close> holds of its value and state.\<close>

definition ended :: "((ncclResult + 'a) \<times> 's) option \<Rightarrow> ('a \<Rightarrow> 's \<Rightarrow> bool) \<Rightarrow> bool" where
  "ended r P = (case r of Some (Inr a, s) \<Rightarrow> P a s | _ \<Rightarrow> False)"

lemma ended_iff: "ended r P \<longleftrightarrow> (\<exists>a s. r = Some (Inr a, s) \<and> P a s)"
proof (cases r)
  case (Some x)
  then show ?thesis by (cases x, cases "fst x") (auto simp: ended_def)
qed (simp add: ended_def)

subsection \<open>Preserved properties\<close>

definition keeps :: "('s \<Rightarrow> bool) \<Rightarrow> ('s, 'a) nc \<Rightarrow> bool" where
  "keeps I m \<longleftrightarrow> (\<forall>s r t. I s \<longrightarrow> m s = Some (r, t) \<longrightarrow> I t)"

lemma keepsD: "keeps I m \<Longrightarrow> I s \<Longrightarrow> m s = Some (r, t) \<Longrightarrow> I t"
  by (simp add: keeps_def)

lemma keeps_bind [keeps_rules]: "keeps I m \<Longrightarrow> (\<And>a. keeps I (f a)) \<Longrightarrow> keeps I (nbind m f)"
proof -
  assume m: "keeps I m" and f: "\<And>a. keeps I (f a)"
  show ?thesis
    unfolding keeps_def
  proof (intro allI impI)
    fix s r t assume s: "I s" "nbind m f s = Some (r, t)"
    then obtain x u where x: "m s = Some (x, u)" by (auto simp: nbind_def split: option.splits)
    then have "I u" using m s(1) by (rule keepsD [rotated 2])
    then show "I t" using s(2) x keepsD [OF f] by (cases x) (auto simp: nbind_def)
  qed
qed

lemma keeps_basic [keeps_rules]: "keeps I (nret a)" "keeps I (nfail r)" "keeps I (nget g)" "keeps I (nread h)"
  by (auto simp: keeps_def nc_defs split: option.splits)

lemma keeps_set [keeps_rules]: "(\<And>s. I s \<Longrightarrow> I (f s)) \<Longrightarrow> keeps I (nset f)"
  by (auto simp: keeps_def nc_defs)

lemma keeps_write [keeps_rules]: "(\<And>s t. I s \<Longrightarrow> f s = Some t \<Longrightarrow> I t) \<Longrightarrow> keeps I (nwrite f)"
  by (auto simp: keeps_def nc_defs split: option.splits)

lemma keeps_when [keeps_rules]: "(b \<Longrightarrow> keeps I m) \<Longrightarrow> keeps I (nwhen b m)"
  by (simp add: nwhen_def keeps_rules)

lemma keeps_check [keeps_rules]: "(\<And>s. I s \<Longrightarrow> I (snd (f s))) \<Longrightarrow> keeps I (ncheck f)"
  unfolding keeps_def ncheck_def by (fastforce split: prod.splits if_splits)

lemma keeps_for [keeps_rules]: "(\<And>i. i \<in> set is \<Longrightarrow> keeps I (f i)) \<Longrightarrow> keeps I (nfor is f)"
  by (induction "is") (auto intro!: keeps_rules)

lemma keeps_zoom: "(\<And>s t r t'. I s \<Longrightarrow> g s = Some t \<Longrightarrow> m t = Some (r, t') \<Longrightarrow> I (p t' s)) \<Longrightarrow> keeps I (zoom g p m)"
  unfolding keeps_def zoom_def by (fastforce split: option.splits prod.splits)

subsection \<open>States reached without an early return\<close>

definition ends_in :: "('s \<Rightarrow> bool) \<Rightarrow> ('s, 'a) nc \<Rightarrow> ('a \<Rightarrow> 's \<Rightarrow> bool) \<Rightarrow> bool" where
  "ends_in P m Q \<longleftrightarrow> (\<forall>s a t. P s \<longrightarrow> m s = Some (Inr a, t) \<longrightarrow> Q a t)"

lemma ends_inD: "ends_in P m Q \<Longrightarrow> P s \<Longrightarrow> m s = Some (Inr a, t) \<Longrightarrow> Q a t"
  by (simp add: ends_in_def)

lemma ends_bind [ends_rules]: "ends_in P m R \<Longrightarrow> (\<And>a. ends_in (R a) (f a) Q) \<Longrightarrow> ends_in P (nbind m f) Q"
  unfolding ends_in_def by (metis nbind_SomeE)

lemma ends_ret: "(\<And>s. P s \<Longrightarrow> Q a s) \<Longrightarrow> ends_in P (nret a) Q"
  by (simp add: ends_in_def nret_def)

lemma ends_fail: "ends_in P (nfail r) Q"
  by (simp add: ends_in_def nfail_def)

lemma ends_get: "(\<And>s. P s \<Longrightarrow> Q (g s) s) \<Longrightarrow> ends_in P (nget g) Q"
  by (simp add: ends_in_def nget_def)

lemma ends_read: "(\<And>s a. P s \<Longrightarrow> g s = Some a \<Longrightarrow> Q a s) \<Longrightarrow> ends_in P (nread g) Q"
  by (auto simp: ends_in_def nread_def split: option.splits)

lemma ends_set: "(\<And>s. P s \<Longrightarrow> Q () (f s)) \<Longrightarrow> ends_in P (nset f) Q"
  by (simp add: ends_in_def nset_def)

lemma ends_write: "(\<And>s t. P s \<Longrightarrow> f s = Some t \<Longrightarrow> Q () t) \<Longrightarrow> ends_in P (nwrite f) Q"
  by (auto simp: ends_in_def nwrite_def split: option.splits)

lemma ends_check: "(\<And>s a t. P s \<Longrightarrow> f s = ((ncclSuccess, a), t) \<Longrightarrow> Q a t) \<Longrightarrow> ends_in P (ncheck f) Q"
  by (auto simp: ends_in_def ncheck_def split: prod.splits if_splits)

lemma ends_when: "(b \<Longrightarrow> ends_in P m Q) \<Longrightarrow> (\<And>s. \<not> b \<Longrightarrow> P s \<Longrightarrow> Q () s) \<Longrightarrow> ends_in P (nwhen b m) Q"
  by (simp add: nwhen_def ends_ret)

lemma ends_zoom:
  "(\<And>s t a t'. P s \<Longrightarrow> g s = Some t \<Longrightarrow> m t = Some (Inr a, t') \<Longrightarrow> Q a (p t' s)) \<Longrightarrow> ends_in P (zoom g p m) Q"
  unfolding ends_in_def zoom_def by (fastforce split: option.splits prod.splits)

lemma ends_for:
  assumes "\<And>i. m \<le> i \<Longrightarrow> i < n \<Longrightarrow> ends_in (I i) (f i) (\<lambda>_. I (Suc i))" "m \<le> n"
  shows "ends_in (I m) (nfor [m..<n] f) (\<lambda>_. I n)"
  using assms(2,1)
proof (induction rule: inc_induct)
  case base
  then show ?case by (simp add: ends_ret)
next
  case (step k)
  have "ends_in (I k) (nbind (f k) (\<lambda>_. nfor [Suc k..<n] f)) (\<lambda>_. I n)"
    by (rule ends_bind [where R = "\<lambda>_. I (Suc k)"]) (use step in auto)
  then show ?case using step.hyps by (simp add: upt_conv_Cons)
qed

lemma ends_weaken: "ends_in P' m Q' \<Longrightarrow> (\<And>s. P s \<Longrightarrow> P' s) \<Longrightarrow> (\<And>a s. Q' a s \<Longrightarrow> Q a s) \<Longrightarrow> ends_in P m Q"
  unfolding ends_in_def by blast

lemma ends_keeps: "keeps I m \<Longrightarrow> ends_in I m (\<lambda>_. I)"
  by (auto simp: keeps_def ends_in_def)

lemma ends_conj: "ends_in P m Q \<Longrightarrow> ends_in P' m Q' \<Longrightarrow> ends_in (\<lambda>s. P s \<and> P' s) m (\<lambda>a s. Q a s \<and> Q' a s)"
  by (auto simp: ends_in_def)

subsection \<open>Resumable calls\<close>

text \<open>
  The contract of a call that is repeated until it has a result: \<open>succ st r st'\<close> says that a call in stage \<open>st\<close> reported success, with the result \<open>r\<close>
  or none yet, and left the stage \<open>st'\<close>.  The provider ranks its stages; an unfinished call never goes back.
\<close>

locale resumable =
  fixes start :: "'st"
    and succ :: "'st \<Rightarrow> 'r option \<Rightarrow> 'st \<Rightarrow> bool"
    and ok :: "'st \<Rightarrow> bool"
    and rank :: "'st \<Rightarrow> nat option"
    and complete :: "'r \<Rightarrow> 'st \<Rightarrow> bool"
  assumes start_ok: "ok start"
    and ok_rank: "ok st \<Longrightarrow> \<exists>k. rank st = Some k"
    and succ_ok: "ok st \<Longrightarrow> succ st r st' \<Longrightarrow> ok st'"
    and succ_pending: "ok st \<Longrightarrow> succ st None st' \<Longrightarrow> rank st = Some k \<Longrightarrow> \<exists>j. rank st' = Some j \<and> k \<le> j \<and> 0 < j"
    and succ_complete: "ok st \<Longrightarrow> succ st (Some v) st' \<Longrightarrow> complete v st'"
begin

text \<open>Stages reached from the first one by calls that report success.\<close>

inductive reach :: "'st \<Rightarrow> bool" where
  fresh: "reach start"
| again: "reach st \<Longrightarrow> succ st r st' \<Longrightarrow> reach st'"

lemma reach_ok: "reach st \<Longrightarrow> ok st"
  by (induction rule: reach.induct) (auto intro: start_ok succ_ok)

lemma resumes:
  assumes "reach st" "succ st r st'"
  shows "\<exists>k. rank st = Some k \<and> (case r of None \<Rightarrow> (\<exists>j. rank st' = Some j \<and> k \<le> j \<and> 0 < j) | Some v \<Rightarrow> complete v st')"
proof -
  note ok = reach_ok [OF assms(1)]
  then obtain k where k: "rank st = Some k" using ok_rank by blast
  then show ?thesis using succ_pending [OF ok _ k] succ_complete [OF ok] assms(2) by (cases r) auto
qed

end

end
