(* ===== verification/Verbs.thy ===== *)
theory Verbs
  imports Prelude
begin

text \<open>
  The interface to the code outside the repository: RCCL's \<open>wrap_ibv_*\<close> wrappers of
  libibverbs and its allocation helpers.  They are parameters of the model: one
  record of functions over an abstract state \<open>'w\<close> of the outside world (NIC, kernel, peer,
  heap).  Every call may change the world and may fail with any result code; nothing is
  assumed about them here.  A theorem that relies on one of them states what it relies on
  as a hypothesis.
\<close>

subsection \<open>Objects of the verbs interface\<close>

text \<open>A memory region: the address of the \<open>ibv_mr\<close> object and the two keys the plugin reads.\<close>

record ibv_mr =
  mr_ptr :: nat
  lkey :: u32
  rkey :: u32

type_synonym pd_ptr = nat
type_synonym cq_ptr = nat
type_synonym ctx_ptr = nat

datatype ibv_access =
    IBV_ACCESS_LOCAL_WRITE
  | IBV_ACCESS_REMOTE_WRITE
  | IBV_ACCESS_REMOTE_READ
  | IBV_ACCESS_RELAXED_ORDERING

text \<open>The allocation and memory registration calls.\<close>

record 'w mem_verbs =
  v_realloc :: "nat \<Rightarrow> nat \<Rightarrow> 'w \<Rightarrow> ncclResult \<times> 'w"
  v_reg_mr :: "pd_ptr \<Rightarrow> u64 \<Rightarrow> u64 \<Rightarrow> ibv_access list \<Rightarrow> 'w \<Rightarrow> ncclResult \<times> ibv_mr \<times> 'w"
  v_reg_mr_iova2 :: "pd_ptr \<Rightarrow> u64 \<Rightarrow> u64 \<Rightarrow> u64 \<Rightarrow> ibv_access list \<Rightarrow> 'w \<Rightarrow> ncclResult \<times> ibv_mr \<times> 'w"
  v_reg_dmabuf_mr :: "pd_ptr \<Rightarrow> u64 \<Rightarrow> u64 \<Rightarrow> u64 \<Rightarrow> int \<Rightarrow> ibv_access list \<Rightarrow> 'w \<Rightarrow> ncclResult \<times> ibv_mr \<times> 'w"
  v_dereg_mr :: "ibv_mr \<Rightarrow> 'w \<Rightarrow> ncclResult \<times> 'w"

end
