(* ===== verification/RefCount.thy ===== *)
theory RefCount
  imports Prelude
begin

text \<open>
  The contract of a reference-counted resource.  A provider has states with an invariant, a
  relation \<open>acq s h s'\<close> (a call that takes one reference to \<open>h\<close> succeeded and moved the
  provider from \<open>s\<close> to \<open>s'\<close>), a relation \<open>rel s h s'\<close> for giving one back, and a reading
  \<open>cnt s h\<close> of the references to \<open>h\<close>.  The clients' facts are about whole sequences of
  such calls.  Two components provide it: the memory-region cache and the
  protection-domain count of a device.
\<close>

datatype 'h rc_call = Acquire 'h | Release 'h

fun rc_balance :: "'h rc_call list \<Rightarrow> 'h \<Rightarrow> int" where
  "rc_balance [] h = 0"
| "rc_balance (Acquire g # cs) h = (if g = h then 1 else 0) + rc_balance cs h"
| "rc_balance (Release g # cs) h = (if g = h then -1 else 0) + rc_balance cs h"

locale refcounted =
  fixes inv :: "'s \<Rightarrow> bool"
    and acq :: "'s \<Rightarrow> 'h \<Rightarrow> 's \<Rightarrow> bool"
    and rel :: "'s \<Rightarrow> 'h \<Rightarrow> 's \<Rightarrow> bool"
    and cnt :: "'s \<Rightarrow> 'h \<Rightarrow> int"
  assumes cnt_nonneg: "inv s \<Longrightarrow> 0 \<le> cnt s h"
    and acq_inv: "inv s \<Longrightarrow> acq s h s' \<Longrightarrow> inv s'"
    and rel_inv: "inv s \<Longrightarrow> rel s h s' \<Longrightarrow> inv s'"
    and acq_cnt: "inv s \<Longrightarrow> acq s h s' \<Longrightarrow> cnt s' g = (if g = h then cnt s g + 1 else cnt s g)"
    and rel_cnt: "inv s \<Longrightarrow> rel s h s' \<Longrightarrow> cnt s' g = (if g = h then cnt s g - 1 else cnt s g)"
begin

inductive run :: "'s \<Rightarrow> 'h rc_call list \<Rightarrow> 's \<Rightarrow> bool" where
  run_nil: "run s [] s"
| run_acq: "acq s h t \<Longrightarrow> run t cs u \<Longrightarrow> run s (Acquire h # cs) u"
| run_rel: "rel s h t \<Longrightarrow> run t cs u \<Longrightarrow> run s (Release h # cs) u"

lemma run_inv: "run s cs u \<Longrightarrow> inv s \<Longrightarrow> inv u"
  by (induction rule: run.induct) (auto dest: acq_inv rel_inv)

lemma run_cnt: "run s cs u \<Longrightarrow> inv s \<Longrightarrow> cnt u h = cnt s h + rc_balance cs h"
proof (induction rule: run.induct)
  case (run_nil s)
  then show ?case by simp
next
  case (run_acq s g t cs u)
  then show ?case using acq_inv acq_cnt [of s g t h] by fastforce
next
  case (run_rel s g t cs u)
  then show ?case using rel_inv rel_cnt [of s g t h] by fastforce
qed

lemma run_held: "run s cs u \<Longrightarrow> inv s \<Longrightarrow> cnt s h = 0 \<Longrightarrow> 0 \<le> rc_balance cs h"
  using run_cnt [of s cs u h] run_inv [of s cs u] cnt_nonneg [of u h] by simp

lemma run_balanced: "run s cs u \<Longrightarrow> inv s \<Longrightarrow> rc_balance cs h = 0 \<Longrightarrow> cnt u h = cnt s h"
  using run_cnt [of s cs u h] by simp

lemma run_append: "run s as t \<Longrightarrow> run t bs u \<Longrightarrow> run s (as @ bs) u"
  by (induction rule: run.induct) (auto intro: run.intros)

end

end
