(* ===== verification/MrCache.thy ===== *)
theory MrCache
  imports Verbs RefCount "HOL-Library.Multiset"
begin

text \<open>
  The memory-region cache of a device (\<open>struct ncclIbMr\<close>, \<open>struct ncclIbMrCache\<close>,
  \<open>ncclIbRegMrDmaBufInternal\<close> and \<open>ncclIbDeregMrInternal\<close> of src/src/net_ib.cc).

  The array \<open>slots\<close> is modelled with the memory it really has: \<open>slots c\<close> is the list of
  allocated elements, of which the first \<open>population c\<close> are in use, and \<open>capacity c\<close> is the
  number the code believes to be allocated.  The two differ after a failed \<open>ncclRealloc\<close>.
  The whole of both functions runs under the device's lock, so each is one step.
\<close>

record ncclIbMr =
  mr_addr :: u64
  mr_pages :: u64
  mr_refs :: int
  mr_mr :: ibv_mr

record ncclIbMrCache =
  slots :: "ncclIbMr list"
  capacity :: nat
  population :: nat

definition zero_mr :: ncclIbMr where
  "zero_mr = \<lparr>mr_addr = 0, mr_pages = 0, mr_refs = 0, mr_mr = \<lparr>mr_ptr = 0, lkey = 0, rkey = 0\<rparr>\<rparr>"

definition empty_cache :: ncclIbMrCache where
  "empty_cache = \<lparr>slots = [], capacity = 0, population = 0\<rparr>"

text \<open>The arguments of one registration, with the device state the function reads.\<close>

record reg_req =
  rq_pageSize :: u64
  rq_relaxed :: bool
  rq_pd :: pd_ptr
  rq_data :: u64
  rq_size :: u64
  rq_offset :: u64
  rq_fd :: int

definition rq_addr :: "reg_req \<Rightarrow> u64" where
  "rq_addr q = rq_data q AND (- rq_pageSize q)"

definition rq_pages :: "reg_req \<Rightarrow> u64" where
  "rq_pages q = (rq_data q + rq_size q - rq_addr q + rq_pageSize q - 1) div rq_pageSize q"

subsection \<open>Registration\<close>

definition grow_cache :: "'w mem_verbs \<Rightarrow> ncclIbMrCache \<Rightarrow> 'w \<Rightarrow> ncclResult \<times> ncclIbMrCache \<times> 'w" where
  "grow_cache V c w =
     (let cap = (if capacity c < 32 then 32 else 2 * capacity c);
          (r, w') = v_realloc V (population c) cap w
      in if r = ncclSuccess
         then (r, c\<lparr>capacity := cap,
                    slots := take (population c) (slots c) @ replicate (cap - population c) zero_mr\<rparr>, w')
         else (r, c\<lparr>capacity := cap\<rparr>, w'))"

definition reg_flags :: "reg_req \<Rightarrow> ibv_access list" where
  "reg_flags q = [IBV_ACCESS_LOCAL_WRITE, IBV_ACCESS_REMOTE_WRITE, IBV_ACCESS_REMOTE_READ] @
     (if rq_relaxed q then [IBV_ACCESS_RELAXED_ORDERING] else [])"

definition register_mr :: "'w mem_verbs \<Rightarrow> reg_req \<Rightarrow> 'w \<Rightarrow> ncclResult \<times> ibv_mr \<times> 'w" where
  "register_mr V q w =
     (let len = rq_pages q * rq_pageSize q in
      if rq_fd q \<noteq> -1 then v_reg_dmabuf_mr V (rq_pd q) (rq_offset q) len (rq_addr q) (rq_fd q) (reg_flags q) w
      else if rq_relaxed q then v_reg_mr_iova2 V (rq_pd q) (rq_addr q) len (rq_addr q) (reg_flags q) w
      else v_reg_mr V (rq_pd q) (rq_addr q) len (reg_flags q) w)"

text \<open>\<open>memmove(slots+slot+1, slots+slot, population-slot)\<close>: undefined when it writes past the array.\<close>

definition open_slot :: "ncclIbMr list \<Rightarrow> nat \<Rightarrow> nat \<Rightarrow> ncclIbMr list option" where
  "open_slot xs slot pop =
     (if slot = pop then Some xs
      else if pop < length xs
      then Some (take (Suc slot) xs @ take (pop - slot) (drop slot xs) @ drop (Suc pop) xs)
      else None)"

definition reg_insert ::
  "'w mem_verbs \<Rightarrow> reg_req \<Rightarrow> nat \<Rightarrow> ncclIbMrCache \<Rightarrow> 'w \<Rightarrow> (ncclResult \<times> ibv_mr option \<times> ncclIbMrCache \<times> 'w) option" where
  "reg_insert V q slot c w =
     (let (r1, c1, w1) = (if population c = capacity c then grow_cache V c w else (ncclSuccess, c, w)) in
      if r1 \<noteq> ncclSuccess then Some (r1, None, c1, w1)
      else (let (r2, mr, w2) = register_mr V q w1 in
            if r2 \<noteq> ncclSuccess then Some (r2, None, c1, w2)
            else do {
              xs \<leftarrow> open_slot (slots c1) slot (population c1);
              ys \<leftarrow> arr_set xs slot \<lparr>mr_addr = rq_addr q, mr_pages = rq_pages q, mr_refs = 1, mr_mr = mr\<rparr>;
              Some (ncclSuccess, Some mr, c1\<lparr>slots := ys, population := population c1 + 1\<rparr>, w2)
            }))"

definition slot_hit :: "reg_req \<Rightarrow> ncclIbMr \<Rightarrow> bool" where
  "slot_hit q s \<longleftrightarrow> mr_addr s \<le> rq_addr q \<and>
     (rq_addr q - mr_addr s) div rq_pageSize q + rq_pages q \<le> mr_pages s"

function reg_loop ::
  "'w mem_verbs \<Rightarrow> reg_req \<Rightarrow> nat \<Rightarrow> ncclIbMrCache \<Rightarrow> 'w \<Rightarrow> (ncclResult \<times> ibv_mr option \<times> ncclIbMrCache \<times> 'w) option" where
  "reg_loop V q slot c w =
     (if slot = population c then reg_insert V q slot c w
      else case arr_get (slots c) slot of
        None \<Rightarrow> None
      | Some s \<Rightarrow>
          if rq_addr q < mr_addr s then reg_insert V q slot c w
          else if slot_hit q s
          then Some (ncclSuccess, Some (mr_mr s), c\<lparr>slots := (slots c)[slot := s\<lparr>mr_refs := mr_refs s + 1\<rparr>]\<rparr>, w)
          else reg_loop V q (Suc slot) c w)"
  by pat_completeness auto
termination
  by (relation "measure (\<lambda>(V, q, slot, c, w). length (slots c) - slot)") (auto dest: arr_get_SomeD)

declare reg_loop.simps [simp del]

definition ncclIbRegMrDmaBufInternal ::
  "'w mem_verbs \<Rightarrow> reg_req \<Rightarrow> ncclIbMrCache \<Rightarrow> 'w \<Rightarrow> (ncclResult \<times> ibv_mr option \<times> ncclIbMrCache \<times> 'w) option" where
  "ncclIbRegMrDmaBufInternal V q c w = reg_loop V q 0 c w"

subsection \<open>Deregistration\<close>

definition drop_slot :: "ncclIbMrCache \<Rightarrow> nat \<Rightarrow> ncclIbMrCache option" where
  "drop_slot c i =
     (let pop = population c - 1 in
      do {
        l \<leftarrow> arr_get (slots c) pop;
        xs \<leftarrow> arr_set (slots c) i l;
        Some (if pop = 0 then \<lparr>slots = [], capacity = 0, population = 0\<rparr>
              else c\<lparr>slots := xs, population := pop\<rparr>)
      })"

function dereg_loop ::
  "'w mem_verbs \<Rightarrow> ibv_mr \<Rightarrow> nat \<Rightarrow> ncclIbMrCache \<Rightarrow> 'w \<Rightarrow> (ncclResult \<times> ncclIbMrCache \<times> 'w) option" where
  "dereg_loop V mh i c w =
     (if population c \<le> i then Some (ncclInternalError, c, w)
      else case arr_get (slots c) i of
        None \<Rightarrow> None
      | Some s \<Rightarrow>
          if mr_ptr mh = mr_ptr (mr_mr s)
          then (if mr_refs s - 1 = 0
                then case drop_slot c i of
                       None \<Rightarrow> None
                     | Some c' \<Rightarrow> (let (r, w') = v_dereg_mr V mh w in Some (r, c', w'))
                else Some (ncclSuccess, c\<lparr>slots := (slots c)[i := s\<lparr>mr_refs := mr_refs s - 1\<rparr>]\<rparr>, w))
          else dereg_loop V mh (Suc i) c w)"
  by pat_completeness auto
termination
  by (relation "measure (\<lambda>(V, mh, i, c, w). population c - i)") auto

declare dereg_loop.simps [simp del]

definition ncclIbDeregMrInternal ::
  "'w mem_verbs \<Rightarrow> ibv_mr \<Rightarrow> ncclIbMrCache \<Rightarrow> 'w \<Rightarrow> (ncclResult \<times> ncclIbMrCache \<times> 'w) option" where
  "ncclIbDeregMrInternal V mh c w = dereg_loop V mh 0 c w"

subsection \<open>Memory safety and the effect on the live entries\<close>

definition live :: "ncclIbMrCache \<Rightarrow> ncclIbMr list" where
  "live c = take (population c) (slots c)"

text \<open>The array really has the capacity the code believes it has.\<close>

definition mem_ok :: "ncclIbMrCache \<Rightarrow> bool" where
  "mem_ok c \<longleftrightarrow> population c \<le> capacity c \<and> length (slots c) = capacity c"

lemma mem_ok_empty [simp]: "mem_ok empty_cache"
  by (simp add: mem_ok_def empty_cache_def)

lemma live_empty [simp]: "live empty_cache = []"
  by (simp add: live_def empty_cache_def)

lemma length_live [simp]: "mem_ok c \<Longrightarrow> length (live c) = population c"
  by (simp add: live_def mem_ok_def)

lemma live_nth: "i < population c \<Longrightarrow> live c ! i = slots c ! i"
  by (simp add: live_def)

lemma arr_get_live: "mem_ok c \<Longrightarrow> i < population c \<Longrightarrow> arr_get (slots c) i = Some (live c ! i)"
  by (simp add: mem_ok_def arr_get_def live_def)

lemma live_update:
  "mem_ok c \<Longrightarrow> live (c\<lparr>slots := (slots c)[i := s]\<rparr>) = (live c)[i := s]"
  by (simp add: live_def take_update_swap)

lemma mem_ok_update: "mem_ok c \<Longrightarrow> mem_ok (c\<lparr>slots := (slots c)[i := s]\<rparr>)"
  by (simp add: mem_ok_def)

definition new_entry :: "reg_req \<Rightarrow> ibv_mr \<Rightarrow> ncclIbMr" where
  "new_entry q mr = \<lparr>mr_addr = rq_addr q, mr_pages = rq_pages q, mr_refs = 1, mr_mr = mr\<rparr>"

lemma grow_cache_ok:
  assumes "mem_ok c" "population c = capacity c" "grow_cache V c w = (ncclSuccess, c1, w1)"
  shows "mem_ok c1" "live c1 = live c" "population c1 = population c" "population c1 < length (slots c1)"
  using assms by (auto simp: grow_cache_def mem_ok_def live_def Let_def split: prod.splits if_splits)

lemma make_room_ok:
  assumes "mem_ok c"
    and "(if population c = capacity c then grow_cache V c w else (ncclSuccess, c, w)) = (ncclSuccess, c1, w1)"
  shows "mem_ok c1 \<and> live c1 = live c \<and> population c1 = population c \<and> population c1 < length (slots c1)"
proof (cases "population c = capacity c")
  case True
  with grow_cache_ok [OF assms(1) True] assms(2) show ?thesis by auto
next
  case False
  with assms show ?thesis by (auto simp: mem_ok_def)
qed

lemma grow_cache_fail:
  assumes "grow_cache V c w = (r, c1, w1)" "r \<noteq> ncclSuccess"
  shows "live c1 = live c"
  using assms by (auto simp: grow_cache_def live_def Let_def split: prod.splits if_splits)

lemma open_slot_insert:
  assumes "slot \<le> pop" "pop < length xs"
  shows "\<exists>ys. open_slot xs slot pop = Some ys \<and> slot < length ys \<and> length ys = length xs \<and>
           take (Suc pop) (ys[slot := e]) = take slot xs @ e # drop slot (take pop xs)"
proof (cases "slot = pop")
  case True
  then show ?thesis using assms
    by (simp add: open_slot_def take_Suc_conv_app_nth)
next
  case False
  let ?ys = "take (Suc slot) xs @ take (pop - slot) (drop slot xs) @ drop (Suc pop) xs"
  have lt: "slot < pop" using assms False by simp
  have len: "length ?ys = length xs" using assms lt by simp
  have "take (Suc pop) (?ys[slot := e]) = take slot xs @ e # take (pop - slot) (drop slot xs)"
    using assms lt by (simp add: take_Suc_conv_app_nth list_update_append take_drop Suc_diff_le)
  moreover have "take (pop - slot) (drop slot xs) = drop slot (take pop xs)"
    by (simp add: drop_take)
  ultimately show ?thesis using assms lt len by (simp add: open_slot_def)
qed

text \<open>
  An insertion at a slot of the live part never leaves the array when the capacity is
  true, and its effect is to put the new entry before the slot; a failed call leaves the
  live entries alone.
\<close>

lemma reg_insert_cases:
  assumes ok: "mem_ok c" and slot: "slot \<le> population c"
  obtains (failed) r c' w' where "reg_insert V q slot c w = Some (r, None, c', w')"
      "r \<noteq> ncclSuccess" "live c' = live c"
  | (inserted) mr c' w' w1 where "reg_insert V q slot c w = Some (ncclSuccess, Some mr, c', w')"
      "register_mr V q w1 = (ncclSuccess, mr, w')" "mem_ok c'"
      "live c' = take slot (live c) @ new_entry q mr # drop slot (live c)"
proof -
  obtain r1 c1 w1 where g: "(if population c = capacity c then grow_cache V c w else (ncclSuccess, c, w)) = (r1, c1, w1)"
    by (metis prod_cases3)
  show thesis
  proof (cases "r1 = ncclSuccess")
    case False
    then have "live c1 = live c" using g by (auto split: if_splits dest: grow_cache_fail)
    with False g show thesis by (intro failed [of r1 c1 w1]) (simp_all add: reg_insert_def)
  next
    case True
    have c1: "mem_ok c1" "live c1 = live c" "population c1 = population c" "population c1 < length (slots c1)"
      using make_room_ok [OF ok g [unfolded True]] by auto
    obtain r2 mr w2 where reg: "register_mr V q w1 = (r2, mr, w2)" by (metis prod_cases3)
    show thesis
    proof (cases "r2 = ncclSuccess")
      case False
      with True g reg c1 show thesis by (intro failed [of r2 c1 w2]) (simp_all add: reg_insert_def)
    next
      case r2: True
      obtain ys where ys: "open_slot (slots c1) slot (population c1) = Some ys" "slot < length ys"
          "length ys = length (slots c1)"
          "take (Suc (population c1)) (ys[slot := new_entry q mr])
             = take slot (slots c1) @ new_entry q mr # drop slot (take (population c1) (slots c1))"
        using open_slot_insert [of slot "population c1" "slots c1"] slot c1 by metis
      let ?c = "c1\<lparr>slots := ys[slot := new_entry q mr], population := population c1 + 1\<rparr>"
      have tk: "take slot (slots c1) = take slot (live c1)"
        using slot c1(3) by (simp add: live_def min_absorb1)
      have "live ?c = take slot (live c1) @ new_entry q mr # drop slot (live c1)"
        using ys(4) tk by (simp add: live_def)
      moreover have "mem_ok ?c" using c1 ys(3) by (auto simp: mem_ok_def)
      ultimately show thesis using True r2 g reg ys c1
        by (intro inserted [of mr ?c w2 w1]) (simp_all add: reg_insert_def new_entry_def arr_set_def)
    qed
  qed
qed

text \<open>
  One registration, from any slot: either it stops at a slot of the live part whose region
  covers the request and counts one more reference, or it inserts a new entry.
\<close>

lemma reg_loop_cases:
  assumes ok: "mem_ok c" and slot: "slot \<le> population c"
  obtains (hit) i where "slot \<le> i" "i < population c" "slot_hit q (live c ! i)"
      "reg_loop V q slot c w = Some (ncclSuccess, Some (mr_mr (live c ! i)),
         c\<lparr>slots := (slots c)[i := (live c ! i)\<lparr>mr_refs := mr_refs (live c ! i) + 1\<rparr>]\<rparr>, w)"
  | (miss) i where "slot \<le> i" "i \<le> population c" "reg_loop V q slot c w = reg_insert V q i c w"
      "\<forall>j. slot \<le> j \<and> j < i \<longrightarrow> mr_addr (live c ! j) \<le> rq_addr q \<and> \<not> slot_hit q (live c ! j)"
      "i < population c \<longrightarrow> rq_addr q < mr_addr (live c ! i)"
  using slot
proof (induction "population c - slot" arbitrary: slot thesis)
  case 0
  then have "slot = population c" by simp
  then show ?case by (intro "0.prems"(2) [of slot]) (auto simp: reg_loop.simps [of V q "population c"])
next
  case (Suc n)
  then have lt: "slot < population c" by simp
  let ?s = "live c ! slot"
  have get: "arr_get (slots c) slot = Some ?s" using arr_get_live [OF ok lt] .
  consider "rq_addr q < mr_addr ?s" | "mr_addr ?s \<le> rq_addr q" "slot_hit q ?s"
    | "mr_addr ?s \<le> rq_addr q" "\<not> slot_hit q ?s" by fastforce
  then show ?case
  proof cases
    case 1
    then show ?thesis using lt get
      by (intro Suc.prems(2) [of slot]) (auto simp: reg_loop.simps [of V q slot])
  next
    case 2
    then show ?thesis using lt get
      by (intro Suc.prems(1) [of slot]) (auto simp: reg_loop.simps [of V q slot])
  next
    case 3
    have eq: "reg_loop V q slot c w = reg_loop V q (Suc slot) c w"
      using 3 lt get by (auto simp: reg_loop.simps [of V q slot])
    show ?thesis
    proof (rule Suc.hyps(1) [of "Suc slot"])
      show "n = population c - Suc slot" using Suc.hyps(2) by simp
      show "Suc slot \<le> population c" using lt by simp
    next
      fix i assume "Suc slot \<le> i" "i < population c" "slot_hit q (live c ! i)"
        "reg_loop V q (Suc slot) c w = Some (ncclSuccess, Some (mr_mr (live c ! i)),
           c\<lparr>slots := (slots c)[i := (live c ! i)\<lparr>mr_refs := mr_refs (live c ! i) + 1\<rparr>]\<rparr>, w)"
      then show ?thesis by (intro Suc.prems(1) [of i]) (auto simp: eq)
    next
      fix i assume *: "Suc slot \<le> i" "i \<le> population c"
        "reg_loop V q (Suc slot) c w = reg_insert V q i c w"
        "\<forall>j. Suc slot \<le> j \<and> j < i \<longrightarrow> mr_addr (live c ! j) \<le> rq_addr q \<and> \<not> slot_hit q (live c ! j)"
        "i < population c \<longrightarrow> rq_addr q < mr_addr (live c ! i)"
      have "\<forall>j. slot \<le> j \<and> j < i \<longrightarrow> mr_addr (live c ! j) \<le> rq_addr q \<and> \<not> slot_hit q (live c ! j)"
        using *(4) 3 by (metis Suc_leI le_neq_implies_less)
      with * show ?thesis by (intro Suc.prems(2) [of i]) (auto simp: eq)
    qed
  qed
qed

lemma drop_slot_live:
  assumes ok: "mem_ok c" and i: "i < population c"
  obtains c' where "drop_slot c i = Some c'" "mem_ok c'"
    "live c' = butlast ((live c)[i := last (live c)])"
proof -
  let ?pop = "population c - 1"
  have pos: "?pop < length (slots c)" "i < length (slots c)" using ok i by (auto simp: mem_ok_def)
  have last: "slots c ! ?pop = last (live c)"
  proof -
    have "live c \<noteq> []" using ok i length_live [OF ok] by force
    then have "last (live c) = live c ! (length (live c) - 1)" by (rule last_conv_nth)
    then show ?thesis using ok i by (simp add: live_nth)
  qed
  show thesis
  proof (cases "?pop = 0")
    case True
    then have "length (live c) = 1" using ok i by simp
    then show thesis using True pos
      by (intro that [of "\<lparr>slots = [], capacity = 0, population = 0\<rparr>"])
        (auto simp: drop_slot_def ub_simps mem_ok_def live_def butlast_conv_take)
  next
    case False
    let ?c = "c\<lparr>slots := (slots c)[i := last (live c)], population := ?pop\<rparr>"
    have "live ?c = butlast ((live c)[i := last (live c)])"
      using ok i by (simp add: live_def butlast_conv_take take_update_swap mem_ok_def min_absorb2)
    then show thesis using False pos last ok i
      by (intro that [of ?c]) (auto simp: drop_slot_def ub_simps mem_ok_def)
  qed
qed

lemma mset_swap_last:
  assumes "i < length xs"
  shows "mset (butlast (xs[i := last xs])) = mset xs - {#xs ! i#}"
proof -
  let ?ys = "xs[i := last xs]"
  have ne: "?ys \<noteq> []" using assms by auto
  have "last ?ys = last xs"
    using assms last_list_update [of xs i "last xs"] by (cases xs) auto
  then have "mset ?ys = mset (butlast ?ys) + {#last xs#}"
    using ne by (metis append_butlast_last_id mset.simps(1) mset.simps(2) mset_append union_mset_add_mset_right)
  moreover have "mset ?ys = add_mset (last xs) (mset xs - {#xs ! i#})"
    using assms by (simp add: mset_update)
  ultimately show ?thesis by simp
qed

text \<open>One deregistration, from any index.\<close>

lemma dereg_loop_cases:
  assumes ok: "mem_ok c"
  obtains (absent) "dereg_loop V mh i c w = Some (ncclInternalError, c, w)"
      "\<forall>j. i \<le> j \<and> j < population c \<longrightarrow> mr_ptr (mr_mr (live c ! j)) \<noteq> mr_ptr mh"
  | (released) j where "i \<le> j" "j < population c" "mr_ptr (mr_mr (live c ! j)) = mr_ptr mh"
      "mr_refs (live c ! j) \<noteq> 1"
      "dereg_loop V mh i c w = Some (ncclSuccess,
         c\<lparr>slots := (slots c)[j := (live c ! j)\<lparr>mr_refs := mr_refs (live c ! j) - 1\<rparr>]\<rparr>, w)"
  | (removed) j c' r w' where "i \<le> j" "j < population c" "mr_ptr (mr_mr (live c ! j)) = mr_ptr mh"
      "mr_refs (live c ! j) = 1" "drop_slot c j = Some c'" "v_dereg_mr V mh w = (r, w')"
      "dereg_loop V mh i c w = Some (r, c', w')"
proof (induction "population c - i" arbitrary: i thesis)
  case 0
  then have "population c \<le> i" by simp
  then show ?case by (intro "0.prems"(1)) (auto simp: dereg_loop.simps [of V mh i])
next
  case (Suc n)
  then have lt: "i < population c" by simp
  have get: "arr_get (slots c) i = Some (live c ! i)" using arr_get_live [OF ok lt] .
  consider "mr_ptr (mr_mr (live c ! i)) \<noteq> mr_ptr mh"
    | "mr_ptr (mr_mr (live c ! i)) = mr_ptr mh" "mr_refs (live c ! i) \<noteq> 1"
    | "mr_ptr (mr_mr (live c ! i)) = mr_ptr mh" "mr_refs (live c ! i) = 1" by blast
  then show ?case
  proof cases
    case 1
    have eq: "dereg_loop V mh i c w = dereg_loop V mh (Suc i) c w"
      using 1 lt get by (auto simp: dereg_loop.simps [of V mh i])
    show ?thesis
    proof (rule Suc.hyps(1) [of "Suc i"])
      show "n = population c - Suc i" using Suc.hyps(2) by simp
    next
      assume *: "dereg_loop V mh (Suc i) c w = Some (ncclInternalError, c, w)"
        "\<forall>j. Suc i \<le> j \<and> j < population c \<longrightarrow> mr_ptr (mr_mr (live c ! j)) \<noteq> mr_ptr mh"
      have "\<forall>j. i \<le> j \<and> j < population c \<longrightarrow> mr_ptr (mr_mr (live c ! j)) \<noteq> mr_ptr mh"
        using *(2) 1 by (metis Suc_leI le_neq_implies_less)
      then show ?thesis using *(1) Suc.prems(1) eq by simp
    next
      fix j assume "Suc i \<le> j" "j < population c" "mr_ptr (mr_mr (live c ! j)) = mr_ptr mh"
        "mr_refs (live c ! j) \<noteq> 1" "dereg_loop V mh (Suc i) c w = Some (ncclSuccess,
         c\<lparr>slots := (slots c)[j := (live c ! j)\<lparr>mr_refs := mr_refs (live c ! j) - 1\<rparr>]\<rparr>, w)"
      then show ?thesis by (intro Suc.prems(2) [of j]) (simp_all add: eq)
    next
      fix j c' r w' assume "Suc i \<le> j" "j < population c" "mr_ptr (mr_mr (live c ! j)) = mr_ptr mh"
        "mr_refs (live c ! j) = 1" "drop_slot c j = Some c'" "v_dereg_mr V mh w = (r, w')"
        "dereg_loop V mh (Suc i) c w = Some (r, c', w')"
      then show ?thesis by (intro Suc.prems(3) [of j c' r w']) (simp_all add: eq)
    qed
  next
    case 2
    then show ?thesis using lt get
      by (intro Suc.prems(2) [of i]) (auto simp: dereg_loop.simps [of V mh i])
  next
    case 3
    obtain c' where "drop_slot c i = Some c'" using drop_slot_live [OF ok lt] by blast
    moreover obtain r w' where "v_dereg_mr V mh w = (r, w')" by (metis surj_pair)
    ultimately show ?thesis using 3 lt get
      by (intro Suc.prems(3) [of i c' r w']) (auto simp: dereg_loop.simps [of V mh i])
  qed
qed

subsection \<open>What a region covers\<close>

text \<open>Page sizes are powers of two, and the pages of the request do not wrap around the address space.\<close>

definition page_ok :: "reg_req \<Rightarrow> bool" where
  "page_ok q \<longleftrightarrow> (\<exists>k. 0 < k \<and> k < 64 \<and> rq_pageSize q = 2 ^ k) \<and>
     uint (rq_data q) + uint (rq_size q) + uint (rq_pageSize q) \<le> 2 ^ 64"

definition covers :: "u64 \<Rightarrow> ncclIbMr \<Rightarrow> u64 \<Rightarrow> u64 \<Rightarrow> bool" where
  "covers ps s data sz \<longleftrightarrow> uint (mr_addr s) \<le> uint data \<and>
     uint data + uint sz \<le> uint (mr_addr s) + uint (mr_pages s) * uint ps"

definition entry_ok :: "u64 \<Rightarrow> ncclIbMr \<Rightarrow> bool" where
  "entry_ok ps s \<longleftrightarrow> uint ps dvd uint (mr_addr s) \<and>
     uint (mr_addr s) + uint (mr_pages s) * uint ps \<le> 2 ^ 64"

lemma page_arith:
  assumes "page_ok q"
  defines "ps \<equiv> uint (rq_pageSize q)"
  shows "1 < ps" "ps dvd uint (rq_addr q)" "uint (rq_addr q) \<le> uint (rq_data q)"
    "uint (rq_data q) + uint (rq_size q) \<le> uint (rq_addr q) + uint (rq_pages q) * ps"
    "uint (rq_addr q) + uint (rq_pages q) * ps \<le> 2 ^ 64"
proof -
  obtain k where k: "0 < k" "k < 64" "rq_pageSize q = 2 ^ k"
    and nw: "uint (rq_data q) + uint (rq_size q) + ps \<le> 2 ^ 64"
    using assms by (auto simp: page_ok_def)
  have ps: "ps = 2 ^ k" using k by (simp add: ps_def uint_exp2)
  show gt: "1 < ps" using k ps one_less_power [of "2::int" k] by simp
  let ?d = "uint (rq_data q)" and ?s = "uint (rq_size q)" and ?a = "uint (rq_addr q)"
  have a: "?a = ?d div ps * ps" using k ps by (simp add: rq_addr_def uint_page_base)
  show "ps dvd ?a" using a by simp
  have "0 \<le> ?d mod ps" using gt by simp
  then show le: "?a \<le> ?d" using a div_mult_mod_eq [of ?d ps] by linarith
  let ?n = "?d + ?s - ?a + ps - 1"
  have nn: "0 \<le> ?n" "?n < 2 ^ 64" using le gt nw uint_ge_0 [of "rq_size q"] uint_ge_0 [of "rq_addr q"] by linarith+
  have "uint (rq_data q + rq_size q - rq_addr q + rq_pageSize q - 1) = ?n mod 2 ^ 64"
    by (simp add: uint_word_ariths ps_def mod_simps)
  also have "\<dots> = ?n" using nn by (intro mod_pos_pos_trivial)
  finally have p: "uint (rq_pages q) = ?n div ps"
    by (simp only: rq_pages_def uint_div ps_def)
  have r: "0 \<le> ?n mod ps" "?n mod ps < ps" using gt by simp_all
  have m: "uint (rq_pages q) * ps = ?n - ?n mod ps"
    unfolding p using div_mult_mod_eq [of ?n ps] by linarith
  show "?d + ?s \<le> ?a + uint (rq_pages q) * ps" using m r by linarith
  show "?a + uint (rq_pages q) * ps \<le> 2 ^ 64" using m r nw by linarith
qed

lemma new_entry_covers:
  assumes "page_ok q"
  shows "entry_ok (rq_pageSize q) (new_entry q mr)" "covers (rq_pageSize q) (new_entry q mr) (rq_data q) (rq_size q)"
  using page_arith [OF assms] by (auto simp: entry_ok_def covers_def new_entry_def)

lemma slot_hit_covers:
  assumes ok: "page_ok q" and e: "entry_ok (rq_pageSize q) s" and hit: "slot_hit q s"
  shows "covers (rq_pageSize q) s (rq_data q) (rq_size q)"
proof -
  let ?ps = "uint (rq_pageSize q)" and ?a = "uint (rq_addr q)" and ?b = "uint (mr_addr s)" and ?n = "uint (rq_pages q)"
  note P = page_arith [OF ok]
  have le: "?b \<le> ?a" using hit by (simp add: slot_hit_def word_le_def)
  have dvd: "?ps dvd ?a - ?b" using P(2) e by (simp add: entry_ok_def)
  let ?k = "(?a - ?b) div ?ps"
  have ke: "?k * ?ps = ?a - ?b" using dvd by simp
  have "uint (rq_addr q - mr_addr s) = ?a - ?b" using le by (simp add: uint_sub_lem [THEN iffD1] word_le_def)
  then have k: "uint ((rq_addr q - mr_addr s) div rq_pageSize q) = ?k" by (simp add: uint_div)
  have "(?k + ?n) * ?ps = ?a - ?b + ?n * ?ps" using ke by (simp add: distrib_right)
  then have "(?k + ?n) * ?ps \<le> 2 ^ 64" using P(5) uint_ge_0 [of "mr_addr s"] by linarith
  then have "?k + ?n < 2 ^ 64"
    by (rule mult_le_imp_less [OF _ P(1)]) simp
  then have "uint ((rq_addr q - mr_addr s) div rq_pageSize q + rq_pages q) = ?k + ?n"
    using k uint_ge_0 [of "rq_pages q"] pos_imp_zdiv_nonneg_iff [of ?ps "?a - ?b"] P(1) le
    by (simp add: uint_word_ariths mod_pos_pos_trivial)
  then have "?k + ?n \<le> uint (mr_pages s)" using hit by (simp add: slot_hit_def word_le_def)
  then have "(?k + ?n) * ?ps \<le> uint (mr_pages s) * ?ps" using P(1) by (intro mult_right_mono) auto
  then have "?a - ?b + ?n * ?ps \<le> uint (mr_pages s) * ?ps" using ke by (simp add: distrib_right)
  then show ?thesis using P(3,4) le by (simp add: covers_def)
qed
subsection \<open>Abstract specification: a multiset of counted regions\<close>

text \<open>
  What the cache promises, without its order, its capacity and its slots: a registration
  takes a reference to a region that covers the request or adds a new region; a
  deregistration gives one reference of the region back and forgets it with the last.
\<close>

definition reg_spec :: "reg_req \<Rightarrow> ibv_mr \<Rightarrow> ncclIbMr multiset \<Rightarrow> ncclIbMr multiset \<Rightarrow> bool" where
  "reg_spec q mr M M' \<longleftrightarrow>
     (\<exists>s. s \<in># M \<and> slot_hit q s \<and> mr = mr_mr s \<and>
          M' = add_mset (s\<lparr>mr_refs := mr_refs s + 1\<rparr>) (M - {#s#})) \<or>
     M' = add_mset (new_entry q mr) M"

definition dereg_spec :: "ibv_mr \<Rightarrow> ncclIbMr multiset \<Rightarrow> ncclIbMr multiset \<Rightarrow> bool" where
  "dereg_spec mh M M' \<longleftrightarrow>
     (\<exists>s. s \<in># M \<and> mr_ptr (mr_mr s) = mr_ptr mh \<and>
          M' = (if mr_refs s = 1 then M - {#s#}
                else add_mset (s\<lparr>mr_refs := mr_refs s - 1\<rparr>) (M - {#s#})))"

lemma mset_insert_at: "mset (take i xs @ x # drop i xs) = add_mset x (mset xs)"
  by (metis append_take_drop_id mset_append union_mset_add_mset_right mset.simps(2))

lemma mset_live_update:
  assumes "mem_ok c" "i < population c"
  shows "mset (live (c\<lparr>slots := (slots c)[i := s]\<rparr>)) = add_mset s (mset (live c) - {#live c ! i#})"
  using assms by (simp add: live_update mset_update)

lemma live_nth_mem: "mem_ok c \<Longrightarrow> i < population c \<Longrightarrow> live c ! i \<in> set (live c)"
  by (simp add: nth_mem)

lemma reg_effect:
  assumes ok: "mem_ok c"
  obtains (failed) r c' w' where "ncclIbRegMrDmaBufInternal V q c w = Some (r, None, c', w')"
      "r \<noteq> ncclSuccess" "live c' = live c"
  | (hit) s c' where "ncclIbRegMrDmaBufInternal V q c w = Some (ncclSuccess, Some (mr_mr s), c', w)"
      "mem_ok c'" "s \<in># mset (live c)" "slot_hit q s"
      "mset (live c') = add_mset (s\<lparr>mr_refs := mr_refs s + 1\<rparr>) (mset (live c) - {#s#})"
  | (new) mr c' w' w1 where "ncclIbRegMrDmaBufInternal V q c w = Some (ncclSuccess, Some mr, c', w')"
      "mem_ok c'" "register_mr V q w1 = (ncclSuccess, mr, w')"
      "mset (live c') = add_mset (new_entry q mr) (mset (live c))"
proof (rule reg_loop_cases [OF ok, of 0 q V w])
  show "0 \<le> population c" by simp
next
  fix i assume i: "i < population c" "slot_hit q (live c ! i)"
    "reg_loop V q 0 c w = Some (ncclSuccess, Some (mr_mr (live c ! i)),
       c\<lparr>slots := (slots c)[i := (live c ! i)\<lparr>mr_refs := mr_refs (live c ! i) + 1\<rparr>]\<rparr>, w)"
  then show thesis using ok live_nth_mem [OF ok i(1)]
    by (intro hit [of "live c ! i" "c\<lparr>slots := (slots c)[i := (live c ! i)\<lparr>mr_refs := mr_refs (live c ! i) + 1\<rparr>]\<rparr>"])
      (simp_all add: ncclIbRegMrDmaBufInternal_def mset_live_update mem_ok_update)
next
  fix i assume i: "i \<le> population c" "reg_loop V q 0 c w = reg_insert V q i c w"
  show thesis
  proof (rule reg_insert_cases [OF ok i(1), of V q w])
    fix r c' w' assume "reg_insert V q i c w = Some (r, None, c', w')" "r \<noteq> ncclSuccess" "live c' = live c"
    then show thesis using i(2)
      by (intro failed [of r c' w']) (simp_all add: ncclIbRegMrDmaBufInternal_def)
  next
    fix mr c' w' w1 assume "reg_insert V q i c w = Some (ncclSuccess, Some mr, c', w')"
      "register_mr V q w1 = (ncclSuccess, mr, w')" "mem_ok c'"
      "live c' = take i (live c) @ new_entry q mr # drop i (live c)"
    then show thesis using i(2)
      by (intro new [of mr c' w' w1]) (simp_all add: ncclIbRegMrDmaBufInternal_def mset_insert_at del: mset_append)
  qed
qed

lemma dereg_effect:
  assumes ok: "mem_ok c"
  obtains (absent) "ncclIbDeregMrInternal V mh c w = Some (ncclInternalError, c, w)"
      "\<forall>s\<in>set (live c). mr_ptr (mr_mr s) \<noteq> mr_ptr mh"
  | (released) r c' w' where "ncclIbDeregMrInternal V mh c w = Some (r, c', w')" "mem_ok c'"
      "dereg_spec mh (mset (live c)) (mset (live c'))"
proof (rule dereg_loop_cases [OF ok, of V mh 0 w])
  assume "dereg_loop V mh 0 c w = Some (ncclInternalError, c, w)"
    "\<forall>j. 0 \<le> j \<and> j < population c \<longrightarrow> mr_ptr (mr_mr (live c ! j)) \<noteq> mr_ptr mh"
  then show thesis using ok
    by (intro absent) (auto simp: ncclIbDeregMrInternal_def in_set_conv_nth)
next
  fix j assume j: "j < population c" "mr_ptr (mr_mr (live c ! j)) = mr_ptr mh" "mr_refs (live c ! j) \<noteq> 1"
    "dereg_loop V mh 0 c w = Some (ncclSuccess,
       c\<lparr>slots := (slots c)[j := (live c ! j)\<lparr>mr_refs := mr_refs (live c ! j) - 1\<rparr>]\<rparr>, w)"
  then have "dereg_spec mh (mset (live c)) (mset (live
       (c\<lparr>slots := (slots c)[j := (live c ! j)\<lparr>mr_refs := mr_refs (live c ! j) - 1\<rparr>]\<rparr>)))"
    unfolding dereg_spec_def using ok live_nth_mem [OF ok j(1)]
    by (intro exI [of _ "live c ! j"]) (simp add: mset_live_update)
  with j ok show thesis by (intro released) (simp_all add: ncclIbDeregMrInternal_def mem_ok_update)
next
  fix j c' r w' assume j: "j < population c" "mr_ptr (mr_mr (live c ! j)) = mr_ptr mh"
    "mr_refs (live c ! j) = 1" "drop_slot c j = Some c'" "v_dereg_mr V mh w = (r, w')"
    "dereg_loop V mh 0 c w = Some (r, c', w')"
  obtain c'' where c'': "drop_slot c j = Some c''" "mem_ok c''"
      "live c'' = butlast ((live c)[j := last (live c)])"
    using drop_slot_live [OF ok j(1)] by blast
  have "mset (live c') = mset (live c) - {#live c ! j#}"
    using c'' j(4) ok j(1) by (simp add: mset_swap_last)
  then have "dereg_spec mh (mset (live c)) (mset (live c'))"
    unfolding dereg_spec_def using live_nth_mem [OF ok j(1)] j
    by (intro exI [of _ "live c ! j"]) simp
  moreover have "mem_ok c'" using c'' j(4) by simp
  ultimately show thesis using j(6) by (intro released [of r c' w']) (simp_all only: ncclIbDeregMrInternal_def)
qed

subsection \<open>References per region, as a counted resource\<close>

definition refs_of :: "ncclIbMr multiset \<Rightarrow> nat \<Rightarrow> int" where
  "refs_of M p = sum_mset (image_mset mr_refs (filter_mset (\<lambda>s. mr_ptr (mr_mr s) = p) M))"

text \<open>The state invariant: the array is as large as it says, every entry is referenced.\<close>

definition cache_inv :: "ncclIbMrCache \<Rightarrow> bool" where
  "cache_inv c \<longleftrightarrow> mem_ok c \<and> (\<forall>s\<in>set (live c). 0 < mr_refs s)"

lemma refs_of_add [simp]:
  "refs_of (add_mset s M) p = (if mr_ptr (mr_mr s) = p then mr_refs s else 0) + refs_of M p"
  by (simp add: refs_of_def)

lemma refs_of_diff:
  "s \<in># M \<Longrightarrow> refs_of (M - {#s#}) p = refs_of M p - (if mr_ptr (mr_mr s) = p then mr_refs s else 0)"
  using refs_of_add [of s "M - {#s#}" p] by simp

lemma refs_of_nonneg: "\<forall>s\<in>#M. 0 < mr_refs s \<Longrightarrow> 0 \<le> refs_of M p"
  by (induction M) (auto simp: refs_of_def)

lemma reg_spec_refs:
  "reg_spec q mr M M' \<Longrightarrow> refs_of M' p = refs_of M p + (if p = mr_ptr mr then 1 else 0)"
  by (auto simp: reg_spec_def refs_of_diff new_entry_def)

lemma reg_spec_pos: "reg_spec q mr M M' \<Longrightarrow> \<forall>s\<in>#M. 0 < mr_refs s \<Longrightarrow> \<forall>s\<in>#M'. 0 < mr_refs s"
  by (fastforce simp: reg_spec_def new_entry_def dest: in_diffD)

lemma dereg_spec_refs:
  "dereg_spec mh M M' \<Longrightarrow> refs_of M' p = refs_of M p - (if p = mr_ptr mh then 1 else 0)"
  by (auto simp: dereg_spec_def refs_of_diff)

lemma dereg_spec_pos: "dereg_spec mh M M' \<Longrightarrow> \<forall>s\<in>#M. 0 < mr_refs s \<Longrightarrow> \<forall>s\<in>#M'. 0 < mr_refs s"
  by (fastforce simp: dereg_spec_def dest: in_diffD split: if_splits)

lemma reg_success_spec:
  assumes "mem_ok c" "ncclIbRegMrDmaBufInternal V q c w = Some (ncclSuccess, m, c', w')"
  shows "mem_ok c' \<and> (\<exists>mr. m = Some mr \<and> reg_spec q mr (mset (live c)) (mset (live c')))"
  using assms(1)
  by (rule reg_effect [of c V q w]) (use assms(2) in \<open>auto simp: reg_spec_def\<close>)

lemma dereg_present_spec:
  assumes "mem_ok c" "ncclIbDeregMrInternal V mh c w = Some (r, c', w')"
    and "\<exists>s\<in>set (live c). mr_ptr (mr_mr s) = mr_ptr mh"
  shows "mem_ok c' \<and> dereg_spec mh (mset (live c)) (mset (live c'))"
  using assms(1)
  by (rule dereg_effect [of c V mh w]) (use assms(2,3) in auto)

text \<open>The calls that succeed, as relations on the cache and the outside world.\<close>

definition cache_acq :: "'w mem_verbs \<Rightarrow> ncclIbMrCache \<times> 'w \<Rightarrow> nat \<Rightarrow> ncclIbMrCache \<times> 'w \<Rightarrow> bool" where
  "cache_acq V s p s' \<longleftrightarrow> (\<exists>q mr. mr_ptr mr = p \<and>
     ncclIbRegMrDmaBufInternal V q (fst s) (snd s) = Some (ncclSuccess, Some mr, fst s', snd s'))"

definition cache_rel :: "'w mem_verbs \<Rightarrow> ncclIbMrCache \<times> 'w \<Rightarrow> nat \<Rightarrow> ncclIbMrCache \<times> 'w \<Rightarrow> bool" where
  "cache_rel V s p s' \<longleftrightarrow> (\<exists>mr r. mr_ptr mr = p \<and> (\<exists>e\<in>set (live (fst s)). mr_ptr (mr_mr e) = p) \<and>
     ncclIbDeregMrInternal V mr (fst s) (snd s) = Some (r, fst s', snd s'))"

lemma cache_acq_spec:
  assumes "cache_inv (fst s)" "cache_acq V s p s'"
  obtains q mr where "mr_ptr mr = p" "mem_ok (fst s')" "reg_spec q mr (mset (live (fst s))) (mset (live (fst s')))"
proof -
  obtain q mr where mr: "mr_ptr mr = p"
      "ncclIbRegMrDmaBufInternal V q (fst s) (snd s) = Some (ncclSuccess, Some mr, fst s', snd s')"
    using assms(2) unfolding cache_acq_def by blast
  have ok: "mem_ok (fst s)" using assms(1) by (simp add: cache_inv_def)
  show thesis using reg_success_spec [OF ok mr(2)] mr(1) by (intro that [of mr q]) auto
qed

lemma cache_rel_spec:
  assumes "cache_inv (fst s)" "cache_rel V s p s'"
  obtains mr where "mr_ptr mr = p" "mem_ok (fst s')" "dereg_spec mr (mset (live (fst s))) (mset (live (fst s')))"
proof -
  obtain mr r where mr: "mr_ptr mr = p" "\<exists>e\<in>set (live (fst s)). mr_ptr (mr_mr e) = mr_ptr mr"
      "ncclIbDeregMrInternal V mr (fst s) (snd s) = Some (r, fst s', snd s')"
    using assms(2) unfolding cache_rel_def by blast
  have ok: "mem_ok (fst s)" using assms(1) by (simp add: cache_inv_def)
  show thesis using dereg_present_spec [OF ok mr(3,2)] mr(1) by (intro that [of mr]) auto
qed

interpretation mrc: refcounted "\<lambda>s. cache_inv (fst s)" "cache_acq V" "cache_rel V" "\<lambda>s. refs_of (mset (live (fst s)))"
  for V :: "'w mem_verbs"
proof unfold_locales
  fix s :: "ncclIbMrCache \<times> 'w" and h assume "cache_inv (fst s)"
  then show "0 \<le> refs_of (mset (live (fst s))) h" by (intro refs_of_nonneg) (simp add: cache_inv_def)
next
  fix s s' :: "ncclIbMrCache \<times> 'w" and h assume i: "cache_inv (fst s)" and a: "cache_acq V s h s'"
  show "cache_inv (fst s')"
    by (rule cache_acq_spec [OF i a]) (use i reg_spec_pos in \<open>fastforce simp: cache_inv_def\<close>)
next
  fix s s' :: "ncclIbMrCache \<times> 'w" and h assume i: "cache_inv (fst s)" and a: "cache_rel V s h s'"
  show "cache_inv (fst s')"
    by (rule cache_rel_spec [OF i a]) (use i dereg_spec_pos in \<open>fastforce simp: cache_inv_def\<close>)
next
  fix s s' :: "ncclIbMrCache \<times> 'w" and h g assume i: "cache_inv (fst s)" and a: "cache_acq V s h s'"
  show "refs_of (mset (live (fst s'))) g
      = (if g = h then refs_of (mset (live (fst s))) g + 1 else refs_of (mset (live (fst s))) g)"
    by (rule cache_acq_spec [OF i a]) (simp add: reg_spec_refs)
next
  fix s s' :: "ncclIbMrCache \<times> 'w" and h g assume i: "cache_inv (fst s)" and a: "cache_rel V s h s'"
  show "refs_of (mset (live (fst s'))) g
      = (if g = h then refs_of (mset (live (fst s))) g - 1 else refs_of (mset (live (fst s))) g)"
    by (rule cache_rel_spec [OF i a]) (simp add: dereg_spec_refs)
qed

subsection \<open>Properties of the cache\<close>

text \<open>
  C9: on a cache whose array has the capacity it records, a registration never accesses
  memory outside the array, and it refines the abstract registration: with a result code
  other than \<open>ncclSuccess\<close> no handle is returned and the live entries are as before; with
  \<open>ncclSuccess\<close> the multiset of live entries changes as \<open>reg_spec\<close> says and the array still
  has the recorded capacity.
\<close>

theorem mr_register_refines:
  assumes "mem_ok c"
  shows "\<exists>r m c' w'. ncclIbRegMrDmaBufInternal V q c w = Some (r, m, c', w') \<and>
     (if r = ncclSuccess
      then mem_ok c' \<and> (\<exists>mr. m = Some mr \<and> reg_spec q mr (mset (live c)) (mset (live c')))
      else m = None \<and> live c' = live c)"
  using assms by (rule reg_effect [of c V q w]) (auto simp: reg_spec_def)

text \<open>
  C10: a deregistration refines the abstract one: a handle that is not in the cache gives
  \<open>ncclInternalError\<close> and changes nothing (no call leaves the process), and a handle that is
  gives one reference back; no access leaves the array.
\<close>

theorem mr_deregister_refines:
  assumes "mem_ok c"
  shows "\<exists>r c' w'. ncclIbDeregMrInternal V mh c w = Some (r, c', w') \<and> mem_ok c' \<and>
     (if \<exists>s\<in>set (live c). mr_ptr (mr_mr s) = mr_ptr mh
      then dereg_spec mh (mset (live c)) (mset (live c'))
      else r = ncclInternalError \<and> c' = c \<and> w' = w)"
  using assms
proof (rule dereg_effect [of c V mh w])
  assume "ncclIbDeregMrInternal V mh c w = Some (ncclInternalError, c, w)"
    "\<forall>s\<in>set (live c). mr_ptr (mr_mr s) \<noteq> mr_ptr mh"
  then show ?thesis using assms by auto
next
  fix r c' w' assume *: "ncclIbDeregMrInternal V mh c w = Some (r, c', w')" "mem_ok c'"
    "dereg_spec mh (mset (live c)) (mset (live c'))"
  then have "\<exists>s\<in>set (live c). mr_ptr (mr_mr s) = mr_ptr mh" by (auto simp: dereg_spec_def)
  with * show ?thesis by auto
qed

text \<open>
  C11: the handle a successful registration returns belongs to a live region that contains
  every byte of the buffer, for a page size that is a power of two and a buffer whose last
  page lies below the top of the address space; and the regions stay page aligned.
\<close>

theorem mr_register_covers:
  assumes "mem_ok c" and "page_ok q" and "\<forall>s\<in>set (live c). entry_ok (rq_pageSize q) s"
    and "ncclIbRegMrDmaBufInternal V q c w = Some (ncclSuccess, m, c', w')"
  shows "(\<exists>s\<in>set (live c'). m = Some (mr_mr s) \<and> covers (rq_pageSize q) s (rq_data q) (rq_size q)) \<and>
     (\<forall>s\<in>set (live c'). entry_ok (rq_pageSize q) s)"
  using assms(1)
proof (rule reg_effect [of c V q w])
  fix s d assume *: "ncclIbRegMrDmaBufInternal V q c w = Some (ncclSuccess, Some (mr_mr s), d, w)"
    "s \<in># mset (live c)" "slot_hit q s"
    "mset (live d) = add_mset (s\<lparr>mr_refs := mr_refs s + 1\<rparr>) (mset (live c) - {#s#})"
  have e: "entry_ok (rq_pageSize q) s" using assms(3) *(2) by simp
  have set_d: "set (live d) \<subseteq> insert (s\<lparr>mr_refs := mr_refs s + 1\<rparr>) (set (live c))"
      "s\<lparr>mr_refs := mr_refs s + 1\<rparr> \<in> set (live d)"
    using arg_cong [OF *(4), of set_mset] by (auto dest: in_diffD)
  have "covers (rq_pageSize q) (s\<lparr>mr_refs := mr_refs s + 1\<rparr>) (rq_data q) (rq_size q)"
    using slot_hit_covers [OF assms(2) e *(3)] by (simp add: covers_def)
  moreover have "entry_ok (rq_pageSize q) (s\<lparr>mr_refs := mr_refs s + 1\<rparr>)"
    using e by (simp add: entry_ok_def)
  moreover have "m = Some (mr_mr s)" "c' = d" using *(1) assms(4) by auto
  ultimately show ?thesis using set_d assms(3)
    by (intro conjI bexI [of _ "s\<lparr>mr_refs := mr_refs s + 1\<rparr>"]) auto
next
  fix mr d v w1 assume *: "ncclIbRegMrDmaBufInternal V q c w = Some (ncclSuccess, Some mr, d, v)"
    "mset (live d) = add_mset (new_entry q mr) (mset (live c))"
  have "set (live d) = insert (new_entry q mr) (set (live c))"
    using arg_cong [OF *(2), of set_mset] by simp
  moreover have "m = Some mr" "c' = d" using *(1) assms(4) by auto
  ultimately show ?thesis using new_entry_covers [OF assms(2)] assms(3)
    by (auto simp: new_entry_def)
qed (use assms(4) in auto)

text \<open>A sequence of calls in which every call returns \<open>ncclSuccess\<close>, and the trace of its handles.\<close>

datatype mr_call = RegCall reg_req | DeregCall ibv_mr

fun mr_session ::
  "'w mem_verbs \<Rightarrow> mr_call list \<Rightarrow> ncclIbMrCache \<Rightarrow> 'w \<Rightarrow> (nat rc_call list \<times> ncclIbMrCache \<times> 'w) option" where
  "mr_session V [] c w = Some ([], c, w)"
| "mr_session V (RegCall q # cs) c w =
     (case ncclIbRegMrDmaBufInternal V q c w of
        Some (ncclSuccess, Some mr, c', w') \<Rightarrow>
          map_option (\<lambda>(t, s). (Acquire (mr_ptr mr) # t, s)) (mr_session V cs c' w')
      | _ \<Rightarrow> None)"
| "mr_session V (DeregCall mh # cs) c w =
     (case ncclIbDeregMrInternal V mh c w of
        Some (ncclSuccess, c', w') \<Rightarrow>
          map_option (\<lambda>(t, s). (Release (mr_ptr mh) # t, s)) (mr_session V cs c' w')
      | _ \<Rightarrow> None)"

lemma dereg_success_present:
  assumes "mem_ok c" "ncclIbDeregMrInternal V mh c w = Some (ncclSuccess, c', w')"
  shows "\<exists>s\<in>set (live c). mr_ptr (mr_mr s) = mr_ptr mh"
  using assms(1) by (rule dereg_effect [of c V mh w]) (use assms(2) in \<open>auto simp: dereg_spec_def\<close>)

lemma mr_session_run:
  "mr_session V cs c w = Some (tr, c', w') \<Longrightarrow> cache_inv c \<Longrightarrow> mrc.run V (c, w) tr (c', w')"
proof (induction V cs c w arbitrary: tr rule: mr_session.induct)
  case (1 V c w)
  then show ?case by (auto intro: mrc.run_nil)
next
  case (2 V q cs c w)
  from "2.prems"(1) obtain mr d v t where
    reg: "ncclIbRegMrDmaBufInternal V q c w = Some (ncclSuccess, Some mr, d, v)"
    and rest: "mr_session V cs d v = Some (t, c', w')" and tr: "tr = Acquire (mr_ptr mr) # t"
    by (auto split: option.splits ncclResult.splits)
  have acq: "cache_acq V (c, w) (mr_ptr mr) (d, v)"
    using reg by (auto simp: cache_acq_def)
  have "cache_inv d" using mrc.acq_inv [of "(c, w)" V _ "(d, v)"] acq "2.prems"(2) by simp
  with "2.IH" reg rest have "mrc.run V (d, v) t (c', w')" by simp
  then show ?case using acq tr by (auto intro: mrc.run_acq)
next
  case (3 V mh cs c w)
  from "3.prems"(1) obtain d v t where
    dereg: "ncclIbDeregMrInternal V mh c w = Some (ncclSuccess, d, v)"
    and rest: "mr_session V cs d v = Some (t, c', w')" and tr: "tr = Release (mr_ptr mh) # t"
    by (auto split: option.splits ncclResult.splits)
  have "\<exists>s\<in>set (live c). mr_ptr (mr_mr s) = mr_ptr mh"
    using dereg_success_present dereg "3.prems"(2) by (auto simp: cache_inv_def)
  then have rel: "cache_rel V (c, w) (mr_ptr mh) (d, v)"
    using dereg by (auto simp: cache_rel_def)
  have "cache_inv d" using mrc.rel_inv [of "(c, w)" V _ "(d, v)"] rel "3.prems"(2) by simp
  with "3.IH" dereg rest have "mrc.run V (d, v) t (c', w')" by simp
  then show ?case using rel tr by (auto intro: mrc.run_rel)
qed

text \<open>
  C12: over any sequence of successful registrations and deregistrations, the references held
  on every region are those held before, plus its registrations, minus its
  deregistrations; the count is never negative and every live entry stays referenced.
\<close>

theorem mr_session_counts:
  assumes "cache_inv c" and "mr_session V cs c w = Some (tr, c', w')"
  shows "cache_inv c' \<and> refs_of (mset (live c')) p = refs_of (mset (live c)) p + rc_balance tr p \<and>
     0 \<le> refs_of (mset (live c')) p"
proof -
  have run: "mrc.run V (c, w) tr (c', w')" using assms by (rule mr_session_run [rotated])
  show ?thesis
    using mrc.run_inv [OF run] mrc.run_cnt [OF run, of p] mrc.cnt_nonneg [of "(c', w')" p] assms(1)
    by simp
qed

subsection \<open>The address order\<close>

definition addr_sorted :: "ncclIbMr list \<Rightarrow> bool" where
  "addr_sorted xs \<longleftrightarrow> sorted_wrt (\<lambda>a b. mr_addr a \<le> mr_addr b) xs"

lemma addr_sorted_le: "addr_sorted xs \<Longrightarrow> i \<le> j \<Longrightarrow> j < length xs \<Longrightarrow> mr_addr (xs ! i) \<le> mr_addr (xs ! j)"
  by (cases "i = j") (auto simp: addr_sorted_def sorted_wrt_iff_nth_less)

lemma addr_sorted_insert:
  assumes "addr_sorted xs" "i \<le> length xs" "\<forall>j<i. mr_addr (xs ! j) \<le> mr_addr e"
    and "i < length xs \<longrightarrow> mr_addr e \<le> mr_addr (xs ! i)"
  shows "addr_sorted (take i xs @ e # drop i xs)"
proof -
  have before: "\<forall>x\<in>set (take i xs). mr_addr x \<le> mr_addr e"
    using assms(2,3) by (auto simp: in_set_conv_nth)
  have after: "\<forall>x\<in>set (drop i xs). mr_addr e \<le> mr_addr x"
  proof
    fix x assume "x \<in> set (drop i xs)"
    then obtain k where "k < length (drop i xs)" "x = drop i xs ! k"
      by (auto simp only: in_set_conv_nth)
    then have k: "i + k < length xs" "x = xs ! (i + k)" by auto
    then have "mr_addr (xs ! i) \<le> mr_addr x" using addr_sorted_le [OF assms(1), of i "i + k"] by simp
    with assms(4) k(1) show "mr_addr e \<le> mr_addr x" by simp
  qed
  have "sorted_wrt (\<lambda>a b. mr_addr a \<le> mr_addr b) (take i xs @ drop i xs)"
    using assms(1) by (simp add: addr_sorted_def)
  then have parts: "sorted_wrt (\<lambda>a b. mr_addr a \<le> mr_addr b) (take i xs)"
      "sorted_wrt (\<lambda>a b. mr_addr a \<le> mr_addr b) (drop i xs)"
    by (simp_all only: sorted_wrt_append)
  show ?thesis unfolding addr_sorted_def sorted_wrt_append
    using parts before after by (fastforce intro: order_trans)
qed

lemma addr_sorted_update:
  "addr_sorted xs \<Longrightarrow> i < length xs \<Longrightarrow> mr_addr e = mr_addr (xs ! i) \<Longrightarrow> addr_sorted (xs[i := e])"
  unfolding addr_sorted_def sorted_wrt_iff_nth_less by (simp add: nth_list_update)

text \<open>
  C33: registrations keep the live entries ordered by address, and in a cache that is in
  order a request that some live region covers is always served from the cache: no verb
  is called, the world is unchanged.
\<close>

theorem mr_register_sorted:
  assumes "mem_ok c" and "addr_sorted (live c)"
    and "ncclIbRegMrDmaBufInternal V q c w = Some (r, m, c', w')"
  shows "addr_sorted (live c') \<and> ((\<exists>s\<in>set (live c). slot_hit q s) \<longrightarrow> r = ncclSuccess \<and> w' = w)"
proof (rule reg_loop_cases [OF assms(1), of 0 q V w])
  show "0 \<le> population c" by simp
next
  fix i assume i: "i < population c" "reg_loop V q 0 c w = Some (ncclSuccess, Some (mr_mr (live c ! i)),
     c\<lparr>slots := (slots c)[i := (live c ! i)\<lparr>mr_refs := mr_refs (live c ! i) + 1\<rparr>]\<rparr>, w)"
  then show ?thesis using assms
    by (auto simp: ncclIbRegMrDmaBufInternal_def live_update addr_sorted_update)
next
  fix i assume i: "i \<le> population c" "reg_loop V q 0 c w = reg_insert V q i c w"
    "\<forall>j. 0 \<le> j \<and> j < i \<longrightarrow> mr_addr (live c ! j) \<le> rq_addr q \<and> \<not> slot_hit q (live c ! j)"
    "i < population c \<longrightarrow> rq_addr q < mr_addr (live c ! i)"
  have no_hit: "\<not> slot_hit q (live c ! j)" if "j < population c" for j
  proof (cases "j < i")
    case True
    with i(3) show ?thesis by simp
  next
    case False
    then have "mr_addr (live c ! i) \<le> mr_addr (live c ! j)"
      using assms(1,2) that by (intro addr_sorted_le) auto
    then show ?thesis using i(4) that False by (auto simp: slot_hit_def)
  qed
  then have none: "\<not> (\<exists>s\<in>set (live c). slot_hit q s)" using assms(1) by (auto simp: in_set_conv_nth)
  have eq: "reg_insert V q i c w = Some (r, m, c', w')"
    using i(2) assms(3) by (simp add: ncclIbRegMrDmaBufInternal_def)
  have "addr_sorted (live c')"
  proof (rule reg_insert_cases [OF assms(1) i(1), of V q w])
    fix mr d v assume "reg_insert V q i c w = Some (ncclSuccess, Some mr, d, v)"
      "live d = take i (live c) @ new_entry q mr # drop i (live c)"
    moreover have "addr_sorted (take i (live c) @ new_entry q mr # drop i (live c))"
      using assms(1,2) i by (intro addr_sorted_insert) (auto simp: new_entry_def intro: less_imp_le)
    ultimately show ?thesis using eq by simp
  qed (use eq assms(2) in auto)
  with none show ?thesis by blast
qed

subsection \<open>Concrete runs\<close>

text \<open>A world that hands out increasing handles and never fails, and requests on 4096-byte pages.\<close>

definition demo_mem :: "nat mem_verbs" where
  "demo_mem = \<lparr>v_realloc = (\<lambda>_ _ w. (ncclSuccess, w)),
     v_reg_mr = (\<lambda>_ _ _ _ w. (ncclSuccess, \<lparr>mr_ptr = w, lkey = 1, rkey = 2\<rparr>, Suc w)),
     v_reg_mr_iova2 = (\<lambda>_ _ _ _ _ w. (ncclSuccess, \<lparr>mr_ptr = w, lkey = 1, rkey = 2\<rparr>, Suc w)),
     v_reg_dmabuf_mr = (\<lambda>_ _ _ _ _ _ w. (ncclSuccess, \<lparr>mr_ptr = w, lkey = 1, rkey = 2\<rparr>, Suc w)),
     v_dereg_mr = (\<lambda>_ w. (ncclSuccess, w))\<rparr>"

definition demo_req :: "u64 \<Rightarrow> u64 \<Rightarrow> reg_req" where
  "demo_req data sz = \<lparr>rq_pageSize = 4096, rq_relaxed = False, rq_pd = 1, rq_data = data, rq_size = sz,
     rq_offset = 0, rq_fd = -1\<rparr>"

definition demo_mr :: "nat \<Rightarrow> ibv_mr" where "demo_mr p = \<lparr>mr_ptr = p, lkey = 1, rkey = 2\<rparr>"

theorem mr_register_refines_witness:
  "mem_ok empty_cache \<and> (\<exists>c' w'. ncclIbRegMrDmaBufInternal demo_mem (demo_req 0x2010 100) empty_cache 7
     = Some (ncclSuccess, Some (demo_mr 7), c', w') \<and> mem_ok c')"
proof -
  have "map_option (\<lambda>(r, m, s). (r, m)) (ncclIbRegMrDmaBufInternal demo_mem (demo_req 0x2010 100) empty_cache 7)
      = Some (ncclSuccess, Some (demo_mr 7))" by code_simp
  then show ?thesis
    using mr_register_refines [of empty_cache demo_mem "demo_req 0x2010 100" 7] by auto
qed

theorem mr_deregister_refines_witness:
  "mem_ok empty_cache \<and> ncclIbDeregMrInternal demo_mem (demo_mr 3) empty_cache 7
     = Some (ncclInternalError, empty_cache, 7)"
  using mr_deregister_refines [of empty_cache demo_mem "demo_mr 3" 7] by auto

theorem mr_register_covers_witness:
  "\<exists>c' w'. ncclIbRegMrDmaBufInternal demo_mem (demo_req 0x2010 0x5000) empty_cache 7
      = Some (ncclSuccess, Some (demo_mr 7), c', w') \<and>
     (\<exists>s\<in>set (live c'). mr_mr s = demo_mr 7 \<and> covers 4096 s 0x2010 0x5000)"
proof -
  have "map_option (\<lambda>(r, m, s). (r, m)) (ncclIbRegMrDmaBufInternal demo_mem (demo_req 0x2010 0x5000) empty_cache 7)
      = Some (ncclSuccess, Some (demo_mr 7))" by code_simp
  then obtain c' w' where
    run: "ncclIbRegMrDmaBufInternal demo_mem (demo_req 0x2010 0x5000) empty_cache 7
      = Some (ncclSuccess, Some (demo_mr 7), c', w')" by auto
  have "page_ok (demo_req 0x2010 0x5000)"
    unfolding page_ok_def demo_req_def by (auto intro: exI [of _ 12])
  from mr_register_covers [OF mem_ok_empty this _ run] run show ?thesis
    by (fastforce simp: demo_req_def)
qed

definition demo_calls :: "mr_call list" where
  "demo_calls = [RegCall (demo_req 0x1010 100), RegCall (demo_req 0x2010 100), RegCall (demo_req 0x3010 100),
     RegCall (demo_req 0x2020 8), DeregCall (demo_mr 7)]"

theorem mr_session_counts_witness:
  "\<exists>tr c' w'. mr_session demo_mem demo_calls empty_cache 7 = Some (tr, c', w') \<and>
     tr = [Acquire 7, Acquire 8, Acquire 9, Acquire 8, Release 7] \<and> refs_of (mset (live c')) 8 = 2"
proof -
  have "map_option fst (mr_session demo_mem demo_calls empty_cache 7)
      = Some [Acquire 7, Acquire 8, Acquire 9, Acquire 8, Release 7]" by code_simp
  then obtain c' w' where run: "mr_session demo_mem demo_calls empty_cache 7
      = Some ([Acquire 7, Acquire 8, Acquire 9, Acquire 8, Release 7], c', w')" by auto
  have "cache_inv empty_cache" by (simp add: cache_inv_def)
  from mr_session_counts [OF this run, of 8] run show ?thesis by (simp add: refs_of_def)
qed

theorem mr_register_sorted_witness:
  "addr_sorted (live empty_cache) \<and> (\<exists>r m c' w'. ncclIbRegMrDmaBufInternal demo_mem (demo_req 0x2010 100) empty_cache 7
     = Some (r, m, c', w') \<and> addr_sorted (live c'))"
proof -
  have s: "addr_sorted (live empty_cache)" by (simp add: addr_sorted_def)
  have "ncclIbRegMrDmaBufInternal demo_mem (demo_req 0x2010 100) empty_cache 7 \<noteq> None" by code_simp
  then obtain r m c' w' where "ncclIbRegMrDmaBufInternal demo_mem (demo_req 0x2010 100) empty_cache 7
     = Some (r, m, c', w')" by auto
  with mr_register_sorted [OF mem_ok_empty s this] s show ?thesis by blast
qed


text \<open>
  The capacity is raised before the array is reallocated.  When \<open>ncclRealloc\<close> fails on
  the first registration, the error is reported, but the cache then believes it has 32
  slots, and the next registration that gets a region from the device writes through the
  unallocated array.
\<close>

theorem mr_failed_growth_corrupts:
  assumes "v_realloc V 0 32 w = (r, w1)" and "r \<noteq> ncclSuccess"
    and "register_mr V q w2 = (ncclSuccess, mr, w3)"
  shows "\<exists>c'. ncclIbRegMrDmaBufInternal V q empty_cache w = Some (r, None, c', w1) \<and>
     capacity c' = 32 \<and> slots c' = [] \<and> ncclIbRegMrDmaBufInternal V q c' w2 = None"
  using assms
  by (auto simp: ncclIbRegMrDmaBufInternal_def reg_loop.simps [of V q 0] reg_insert_def grow_cache_def
      empty_cache_def open_slot_def arr_set_def Let_def)

theorem mr_failed_growth_corrupts_witness:
  "\<exists>c'. ncclIbRegMrDmaBufInternal (demo_mem\<lparr>v_realloc := \<lambda>_ _ w. (ncclSystemError, w)\<rparr>) (demo_req 0x2010 100) empty_cache 7
      = Some (ncclSystemError, None, c', 7) \<and>
     ncclIbRegMrDmaBufInternal (demo_mem\<lparr>v_realloc := \<lambda>_ _ w. (ncclSystemError, w)\<rparr>) (demo_req 0x2010 100) c' 7 = None"
  using mr_failed_growth_corrupts [of "demo_mem\<lparr>v_realloc := \<lambda>_ _ w. (ncclSystemError, w)\<rparr>" 7 ncclSystemError 7
      "demo_req 0x2010 100" 7 "demo_mr 7" 8]
  by (auto simp: register_mr_def demo_mem_def demo_req_def demo_mr_def)

end
