(* ===== verification/Comm.thy ===== *)
theory Comm
  imports Verbs
begin

text \<open>
  Communicators of the network plugin (\<open>net_ib.cc\<close>): requests, queue pairs, work requests,
  completions, the send and the receive communicator, and the pool of requests.

  Pointers into an array of the same communicator (a request, a device base, a sizes slot)
  are indices; a null pointer is \<open>None\<close>.  \<open>M\<close> stands for \<open>MAX_REQUESTS\<close>, that is
  \<open>NCCL_NET_MAX_REQUESTS * 8\<close> with the first factor from RCCL's \<open>net.h\<close>; the source asserts \<open>M \<le> 256\<close>.
  The request's \<open>sock\<close> and \<open>base\<close> pointers lead back to the communicator it belongs to and are only
  used for diagnostics, so they have no field.
\<close>

subsection \<open>Requests\<close>

definition NCCL_IB_MAX_DEVS_PER_NIC :: nat where "NCCL_IB_MAX_DEVS_PER_NIC = 2"
definition NCCL_NET_IB_MAX_RECVS :: nat where "NCCL_NET_IB_MAX_RECVS = 8"
definition NCCL_IB_MAX_QPS :: nat where "NCCL_IB_MAX_QPS = 128"

datatype req_type = REQ_UNUSED | REQ_SEND | REQ_RECV | REQ_FLUSH

text \<open>The anonymous union of a request; reading the part that was not written last is undefined.\<close>

record send_part =
  snd_size :: int
  snd_data :: u64
  snd_lkeys :: "u32 list"
  snd_offset :: int

datatype req_union = SendPart send_part | RecvPart nat | NoPart

record ncclIbRequest =
  rq_type :: req_type
  events :: "int list"
  devBases :: "nat option list"
  nreqs :: int
  rq_part :: req_union

subsection \<open>Queue pairs, work requests and completions\<close>

record ibv_qp =
  qp_ptr :: nat
  qp_num :: u32

record ncclIbQp =
  qp :: "ibv_qp option"
  devIndex :: nat
  remDevIdx :: nat
  ctsQpSlot :: "8 word"

datatype wr_opcode = IBV_WR_RDMA_WRITE | IBV_WR_RDMA_WRITE_WITH_IMM | IBV_WR_RDMA_READ
datatype send_flag = IBV_SEND_SIGNALED | IBV_SEND_INLINE

record ibv_sge =
  sge_addr :: u64
  sge_length :: u32
  sge_lkey :: u32

record ibv_send_wr =
  wr_id :: u64
  opcode :: wr_opcode
  send_flags :: "send_flag list"
  sg_list :: "ibv_sge option"
  imm_data :: u32
  remote_addr :: u64
  wr_rkey :: u32

definition zero_wr :: ibv_send_wr where
  "zero_wr = \<lparr>wr_id = 0, opcode = IBV_WR_RDMA_WRITE, send_flags = [], sg_list = None, imm_data = 0, remote_addr = 0, wr_rkey = 0\<rparr>"

datatype wc_opcode = IBV_WC_SEND_SIDE | IBV_WC_RECV_RDMA_WITH_IMM | IBV_WC_OTHER

record ibv_wc =
  wc_success :: bool
  wc_wr_id :: u64
  wc_opcode :: wc_opcode
  wc_imm_data :: u32
  wc_qp_num :: u32

text \<open>The data path of the verbs library; a chain of work requests is the list along \<open>next\<close>.\<close>

record 'w data_verbs =
  v_post_send :: "ibv_qp \<Rightarrow> ibv_send_wr list \<Rightarrow> 'w \<Rightarrow> ncclResult \<times> 'w"
  v_post_recv :: "ibv_qp \<Rightarrow> u64 \<Rightarrow> 'w \<Rightarrow> ncclResult \<times> 'w"
  v_poll_cq :: "cq_ptr \<Rightarrow> nat \<Rightarrow> 'w \<Rightarrow> (ncclResult \<times> ibv_wc list) \<times> 'w"
  v_time_ns :: "'w \<Rightarrow> u64"

subsection \<open>Communicators\<close>

record ncclIbGidInfo =
  gi_link_layer :: u8
  localGid :: "u64 \<times> u64"
  localGidIndex :: int

record ncclIbNetCommDevBase =
  ibDevN :: nat
  pd :: pd_ptr
  cq :: cq_ptr
  gidInfo :: ncclIbGidInfo

record ncclIbDevInfo =
  lid :: u32
  ib_port :: u8
  mtu :: nat
  link_layer :: u8
  gid :: "u64 \<times> u64"
  fifoRkey :: u32
  remoteGid :: "u64 \<times> u64"
  ibv_dev_index :: nat

record ncclIbNetCommBase =
  ndevs :: nat
  isSend :: bool
  reqs :: "ncclIbRequest list"
  qps :: "ncclIbQp list"
  nqps :: nat
  qpIndex :: nat
  ready :: bool
  nRemDevs :: int
  remDevs :: "ncclIbDevInfo list"
  devBase :: "ncclIbNetCommDevBase list"

record ncclIbMrHandle =
  mrs :: "ibv_mr list"

record ncclIbSendFifo =
  f_addr :: u64
  f_rkeys :: "u32 list"
  f_size :: "32 word"
  f_nreqs :: u8
  f_tag :: u16
  f_idx :: u32

record ncclIbSendComm = ncclIbNetCommBase +
  fifoMr :: "ibv_mr option list"
  fifoReqs :: "nat option list list"
  remSizes_elems :: "int list list"
  remSizes_mrs :: "ibv_mr option list"
  remSizes_rkeys :: "u32 list"
  remSizes_addr :: u64
  fifoHead :: u64
  ar :: bool

record ncclIbGpuFlush =
  hostMr :: "ibv_mr option"
  gpuMr :: "ibv_mr option"
  gpuFlushGpuMem :: u64
  fl_sge :: ibv_sge
  fl_qp :: ncclIbQp

record ncclIbRecvComm = ncclIbNetCommBase +
  gpuFlush :: "ncclIbGpuFlush list"
  rfifoMr :: "ibv_mr option list"
  fifoSge :: "ibv_sge list"
  sizesFifoMr :: "ibv_mr option list"
  remFifo_elems :: "ncclIbSendFifo list list"
  remFifo_addr :: u64
  remFifo_inline :: bool
  fifoTail :: u64
  elems_addr :: u64
  sizesFifo :: "int list list"
  flushEnabled :: bool

text \<open>
  The device bases of the send and the receive communicator stand at the head of the elements of
  \<open>devs\<close> in both; \<open>devBase\<close> holds them, and \<open>ncclIbGetNetCommDevBase\<close> is the access to them.
  \<open>elems_addr\<close> is the address of \<open>remFifo.elems\<close>.
\<close>

definition ncclIbGetNetCommDevBase :: "('a) ncclIbNetCommBase_scheme \<Rightarrow> nat \<Rightarrow> ncclIbNetCommDevBase option" where
  "ncclIbGetNetCommDevBase base i = arr_get (devBase base) i"

subsection \<open>The pool of requests\<close>

text \<open>\<open>ncclIbGetRequest\<close>: the index of the first unused request, whose events and device bases are cleared.\<close>

fun get_request_loop :: "ncclIbRequest list \<Rightarrow> nat \<Rightarrow> nat option" where
  "get_request_loop [] i = None"
| "get_request_loop (r # rs) i = (if rq_type r = REQ_UNUSED then Some i else get_request_loop rs (Suc i))"

definition ncclIbGetRequest :: "('a) ncclIbNetCommBase_scheme \<Rightarrow> ncclResult \<times> nat option \<times> ('a) ncclIbNetCommBase_scheme" where
  "ncclIbGetRequest base = (case get_request_loop (reqs base) 0 of
     Some i \<Rightarrow> (ncclSuccess, Some i,
       base\<lparr>reqs := (reqs base)[i := (reqs base ! i)\<lparr>devBases := [None, None], events := [0, 0]\<rparr>]\<rparr>)
   | None \<Rightarrow> (ncclInternalError, None, base))"

definition ncclIbFreeRequest :: "nat \<Rightarrow> ('a) ncclIbNetCommBase_scheme \<Rightarrow> ('a) ncclIbNetCommBase_scheme option" where
  "ncclIbFreeRequest i base = do { r \<leftarrow> arr_get (reqs base) i; Some (base\<lparr>reqs := (reqs base)[i := r\<lparr>rq_type := REQ_UNUSED\<rparr>]\<rparr>) }"

definition set_req :: "nat \<Rightarrow> (ncclIbRequest \<Rightarrow> ncclIbRequest option) \<Rightarrow> ('a) ncclIbNetCommBase_scheme \<Rightarrow> ('a) ncclIbNetCommBase_scheme option" where
  "set_req i f base = do { r \<leftarrow> arr_get (reqs base) i; r \<leftarrow> f r; Some (base\<lparr>reqs := (reqs base)[i := r]\<rparr>) }"

text \<open>\<open>events[devIndex]++; devBases[devIndex] = base\<close> on a request.\<close>

definition ncclIbAddEvent :: "nat \<Rightarrow> ncclIbRequest \<Rightarrow> ncclIbRequest option" where
  "ncclIbAddEvent d r = do {
     e \<leftarrow> arr_get (events r) d;
     ev \<leftarrow> arr_set (events r) d (e + 1);
     db \<leftarrow> arr_set (devBases r) d (Some d);
     Some (r\<lparr>events := ev, devBases := db\<rparr>) }"

lemma get_request_loop_SomeD:
  "get_request_loop rs i = Some j \<Longrightarrow> \<exists>k. j = i + k \<and> k < length rs \<and> rq_type (rs ! k) = REQ_UNUSED \<and> (\<forall>l<k. rq_type (rs ! l) \<noteq> REQ_UNUSED)"
proof (induction rs i rule: get_request_loop.induct)
  case (1 i)
  then show ?case by simp
next
  case (2 r rs i)
  show ?case
  proof (cases "rq_type r = REQ_UNUSED")
    case True
    then show ?thesis using 2 by (intro exI [of _ 0]) simp
  next
    case False
    then obtain k where "j = Suc i + k" "k < length rs" "rq_type (rs ! k) = REQ_UNUSED" "\<forall>l<k. rq_type (rs ! l) \<noteq> REQ_UNUSED"
      using 2 by auto
    then show ?thesis using False by (intro exI [of _ "Suc k"]) (auto simp: less_Suc_eq_0_disj)
  qed
qed

lemma get_request_loop_None: "get_request_loop rs i = None \<longleftrightarrow> (\<forall>r\<in>set rs. rq_type r \<noteq> REQ_UNUSED)"
  by (induction rs i rule: get_request_loop.induct) auto

definition in_use :: "ncclIbRequest list \<Rightarrow> nat" where
  "in_use rs = length (filter (\<lambda>r. rq_type r \<noteq> REQ_UNUSED) rs)"

lemma in_use_simps [simp]:
  "in_use [] = 0" "in_use (r # rs) = (if rq_type r \<noteq> REQ_UNUSED then 1 else 0) + in_use rs" "in_use (as @ bs) = in_use as + in_use bs"
  by (simp_all add: in_use_def)

lemma in_use_update:
  assumes "i < length rs"
  shows "int (in_use (rs[i := r])) = int (in_use rs) - (if rq_type (rs ! i) \<noteq> REQ_UNUSED then 1 else 0) + (if rq_type r \<noteq> REQ_UNUSED then 1 else 0)"
proof -
  have "in_use rs = in_use (take i rs @ rs ! i # drop (Suc i) rs)" using id_take_nth_drop [OF assms] by simp
  moreover have "in_use (rs[i := r]) = in_use (take i rs @ r # drop (Suc i) rs)" using assms by (simp add: upd_conv_take_nth_drop)
  ultimately show ?thesis by simp
qed

end
