(* ===== verification/Sending.thy ===== *)
theory Sending
  imports Comm
begin

text \<open>
  The sending side of the data path (\<open>ncclIbMultiSend\<close>, \<open>anpNetIsend\<close>), in the build the source selects:
  \<open>CTS_INLINE_ENABLED\<close> and \<open>CTS_RCVR_OFFLOAD_ENABLED\<close> are defined, so a send has one
  request (\<open>nreqs\<close> is the constant 1 in \<open>ncclIbMultiSend\<close> and \<open>anpNetIsend\<close>) and does not read the fifo.

  Counters and telemetry calls are part of the state: \<open>xw_dbg\<close> is \<open>g_debug_stats\<close>, \<open>xw_tele\<close> the
  sequence of calls made on the telemetry object \<open>g_anp_state\<close>, executed when telemetry is compiled in.
\<close>

subsection \<open>Configuration, counters and telemetry calls\<close>

record xcfg =
  MAX_REQUESTS :: nat
  splitDataOnQps :: bool
  arThreshold :: int
  telemetry :: bool
  flushNoRelaxed :: bool

record dbg_stats =
  num_cts_sent :: u64
  num_signalled_cts_sent :: u64
  num_wr_wqe :: u64
  num_wi_wqe :: u64
  num_send_completion :: u64
  num_send_completion_ok :: u64
  num_recv_wqe :: u64
  num_recv_completion :: u64
  num_recv_completion_ok :: u64

datatype tele_call =
    T_update_wqe_size int
  | T_increment_num_write_wqe u32 u32
  | T_increment_num_write_imm_wqe u32
  | T_update_wqe_send u32 u64 u64
  | T_update_wqe_rcvd u32 u64 u64
  | T_update_cts_send u32
  | T_increment_cts_signalled u32
  | T_increment_cts_unsignalled u32
  | T_increment_num_recv_wqe u32
  | T_update_cq_poll
  | T_set_device_name nat string
  | T_add_queue_pair nat int u32 bool
  | T_create_json_thread

record 'w xw =
  xw_dbg :: dbg_stats
  xw_tele :: "tele_call list"
  xw_w :: 'w

definition tele :: "xcfg \<Rightarrow> tele_call list \<Rightarrow> 'w xw \<Rightarrow> 'w xw" where
  "tele C ts x = (if telemetry C then x\<lparr>xw_tele := xw_tele x @ ts\<rparr> else x)"

definition count :: "xcfg \<Rightarrow> (dbg_stats \<Rightarrow> dbg_stats) \<Rightarrow> 'w xw \<Rightarrow> 'w xw" where
  "count C f x = (if telemetry C then x\<lparr>xw_dbg := f (xw_dbg x)\<rparr> else x)"

subsection \<open>Sending\<close>

text \<open>C division truncates; a sum outside the range of \<open>int\<close> is undefined.\<close>

definition c_div :: "int \<Rightarrow> int \<Rightarrow> int" where
  "c_div a b = (if a < 0 then - ((- a) div b) else a div b)"

definition int_ok :: "int \<Rightarrow> bool" where
  "int_ok v \<longleftrightarrow> - (2 ^ 31) \<le> v \<and> v < 2 ^ 31"

definition chk :: "int \<Rightarrow> int option" where
  "chk v = (if int_ok v then Some v else None)"

definition DIVUP :: "int \<Rightarrow> int \<Rightarrow> int option" where
  "DIVUP x y = do { s \<leftarrow> chk (x + y); s \<leftarrow> chk (s - 1); Some (c_div s y) }"

definition chunk_size :: "int \<Rightarrow> int \<Rightarrow> int option" where
  "chunk_size sz n = do { a \<leftarrow> DIVUP sz n; b \<leftarrow> DIVUP a 128; chk (b * 128) }"

definition get_send_part :: "ncclIbRequest \<Rightarrow> send_part option" where
  "get_send_part r = (case rq_part r of SendPart s \<Rightarrow> Some s | _ \<Rightarrow> None)"

text \<open>
  One iteration of the loop over the queue pairs: \<open>wr0\<close> is \<open>comm->wrs[0]\<close>, \<open>rest\<close> the chain after it,
  \<open>sa\<close> the address in \<open>comm->sges[0]\<close>, \<open>q\<close> the request, \<open>n\<close> the number of queue pairs used.
\<close>

definition send_sge :: "send_part \<Rightarrow> u64 \<Rightarrow> nat \<Rightarrow> int \<Rightarrow> ibv_sge option option" where
  "send_sge s sa d len = (if len \<le> 0 then Some None
     else do { k \<leftarrow> arr_get (snd_lkeys s) d; Some (Some \<lparr>sge_addr = sa, sge_length = word_of_int len, sge_lkey = k\<rparr>) })"

definition send_telemetry :: "xcfg \<Rightarrow> bool \<Rightarrow> u32 \<Rightarrow> u32 \<Rightarrow> u64 \<Rightarrow> u64 \<Rightarrow> 'w xw \<Rightarrow> 'w xw" where
  "send_telemetry C use_write_op qpn num_write wid start x =
     tele C [T_increment_num_write_wqe qpn num_write, T_increment_num_write_imm_wqe qpn, T_update_wqe_send qpn wid start]
       (count C (\<lambda>d. if use_write_op then d\<lparr>num_wr_wqe := num_wr_wqe d + 1\<rparr> else d\<lparr>num_wi_wqe := num_wi_wqe d + 1\<rparr>) x)"

fun multi_send_loop :: "xcfg \<Rightarrow> 'w data_verbs \<Rightarrow> bool \<Rightarrow> u32 \<Rightarrow> u64 \<Rightarrow> nat \<Rightarrow> nat \<Rightarrow> nat \<Rightarrow> ibv_send_wr \<Rightarrow> ibv_send_wr list \<Rightarrow> u64 \<Rightarrow>
    ncclIbSendComm \<Rightarrow> 'w xw \<Rightarrow> (ncclResult \<times> ncclIbSendComm \<times> 'w xw) option" where
  "multi_send_loop C V use_write_op num_write wid n q 0 wr0 rest sa comm x = Some (ncclSuccess, comm, x)"
| "multi_send_loop C V use_write_op num_write wid n q (Suc k) wr0 rest sa comm x = do {
     e \<leftarrow> arr_get (qps comm) (qpIndex comm);
     r \<leftarrow> arr_get (reqs comm) q;
     s \<leftarrow> get_send_part r;
     chunk \<leftarrow> chunk_size (snd_size s) (int n);
     left \<leftarrow> chk (snd_size s - snd_offset s);
     let len = min left chunk;
     sg \<leftarrow> send_sge s sa (devIndex e) len;
     let x = (if len \<le> 0 then x else tele C [T_update_wqe_size len] x);
     let wr0 = wr0\<lparr>wr_rkey := 0xbade, sg_list := sg\<rparr>;
     p \<leftarrow> qp e;
     let start = v_time_ns V (xw_w x);
     case v_post_send V p (wr0 # rest) (xw_w x) of (res, w) \<Rightarrow>
     let x = x\<lparr>xw_w := w\<rparr> in
     if res \<noteq> ncclSuccess then Some (res, comm, x)
     else do {
       off \<leftarrow> chk (snd_offset s + chunk);
       let comm = comm\<lparr>reqs := (reqs comm)[q := r\<lparr>rq_part := SendPart (s\<lparr>snd_offset := off\<rparr>)\<rparr>],
                       qpIndex := (qpIndex comm + 1) mod nqps comm\<rparr>;
       multi_send_loop C V use_write_op num_write wid n q k
         (wr0\<lparr>remote_addr := remote_addr wr0 + word_of_int chunk\<rparr>) rest (sa + word_of_int chunk) comm
         (send_telemetry C use_write_op (qp_num p) num_write wid start x) } }"

text \<open>
  The work requests prepared before the loop.  A plain write is one signalled \<open>RDMA_WRITE\<close>; a
  write with immediate is one signalled \<open>RDMA_WRITE_WITH_IMM\<close>, or, under adaptive routing above the threshold,
  an unsignalled write followed by an empty signalled one with the immediate.
\<close>

definition prepare_wrs :: "xcfg \<Rightarrow> bool \<Rightarrow> bool \<Rightarrow> int \<Rightarrow> u64 \<Rightarrow> ibv_send_wr \<times> ibv_send_wr list \<times> u32" where
  "prepare_wrs C use_write_op adaptive sz wid =
     (let wr = zero_wr\<lparr>remote_addr := 0xdeadbeef\<rparr>;
          imm = word_of_int sz
      in if use_write_op then (wr\<lparr>wr_id := wid, send_flags := [IBV_SEND_SIGNALED]\<rparr>, [], 1)
         else if adaptive \<and> arThreshold C < sz
         then (wr, [zero_wr\<lparr>wr_id := wid, opcode := IBV_WR_RDMA_WRITE_WITH_IMM, imm_data := imm, send_flags := [IBV_SEND_SIGNALED]\<rparr>], 1)
         else (wr\<lparr>wr_id := wid, opcode := IBV_WR_RDMA_WRITE_WITH_IMM, imm_data := imm, send_flags := [IBV_SEND_SIGNALED]\<rparr>, [], 0))"

definition send_width :: "xcfg \<Rightarrow> ('a) ncclIbNetCommBase_scheme \<Rightarrow> nat" where
  "send_width C comm = (if splitDataOnQps C then nqps comm else ndevs comm)"

definition ncclIbMultiSend :: "xcfg \<Rightarrow> 'w data_verbs \<Rightarrow> nat \<Rightarrow> bool \<Rightarrow> ncclIbSendComm \<Rightarrow> 'w xw \<Rightarrow> (ncclResult \<times> ncclIbSendComm \<times> 'w xw) option" where
  "ncclIbMultiSend C V slot use_write_op comm x = do {
     rs \<leftarrow> arr_get (fifoReqs comm) slot;
     r0 \<leftarrow> arr_get rs 0;
     q \<leftarrow> r0;
     r \<leftarrow> arr_get (reqs comm) q;
     s \<leftarrow> get_send_part r;
     let wid = word_of_nat q;
     comm \<leftarrow> (if use_write_op then do {
         row \<leftarrow> arr_get (remSizes_elems comm) slot;
         row \<leftarrow> arr_set row 0 (snd_size s);
         Some (comm\<lparr>remSizes_elems := (remSizes_elems comm)[slot := row]\<rparr>) } else Some comm);
     let (wr0, rest, num_write) = prepare_wrs C use_write_op (ar comm) (snd_size s) wid;
     let n = send_width C comm;
     multi_send_loop C V use_write_op num_write wid n q n wr0 rest (snd_data s) comm x }"

text \<open>The events a send waits for, one per queue pair it will use, and the keys of its region.\<close>

definition set_lkey :: "nat \<Rightarrow> ncclIbMrHandle \<Rightarrow> ncclIbRequest \<Rightarrow> ncclIbRequest option" where
  "set_lkey d mh r = do {
     s \<leftarrow> get_send_part r;
     m \<leftarrow> arr_get (mrs mh) d;
     ks \<leftarrow> arr_set (snd_lkeys s) d (lkey m);
     Some (r\<lparr>rq_part := SendPart (s\<lparr>snd_lkeys := ks\<rparr>)\<rparr>) }"

fun isend_events :: "ncclIbQp list \<Rightarrow> nat \<Rightarrow> ncclIbMrHandle \<Rightarrow> nat \<Rightarrow> nat \<Rightarrow> ncclIbRequest \<Rightarrow> ncclIbRequest option" where
  "isend_events qs nq mh 0 qi r = Some r"
| "isend_events qs nq mh (Suc n) qi r = do {
     e \<leftarrow> arr_get qs qi;
     r \<leftarrow> ncclIbAddEvent (devIndex e) r;
     r \<leftarrow> set_lkey (devIndex e) mh r;
     isend_events qs nq mh n ((qi + 1) mod nq) r }"

fun store_lkeys :: "ncclIbMrHandle \<Rightarrow> nat \<Rightarrow> nat \<Rightarrow> ncclIbRequest \<Rightarrow> ncclIbRequest option" where
  "store_lkeys mh i 0 r = Some r"
| "store_lkeys mh i (Suc n) r = do { r \<leftarrow> set_lkey i mh r; store_lkeys mh (Suc i) n r }"

definition new_send :: "u64 \<Rightarrow> u64 \<Rightarrow> ncclIbRequest \<Rightarrow> ncclIbRequest" where
  "new_send data sz r = r\<lparr>rq_type := REQ_SEND, nreqs := 1,
     rq_part := SendPart \<lparr>snd_size = to_int32 sz, snd_data = data, snd_lkeys = [0, 0], snd_offset = 0\<rparr>\<rparr>"

text \<open>The result, the request handed out (\<open>None\<close> is a null request: try again) and the new state.\<close>

definition anpNetIsend :: "xcfg \<Rightarrow> 'w data_verbs \<Rightarrow> u64 \<Rightarrow> u64 \<Rightarrow> ncclIbMrHandle \<Rightarrow> bool \<Rightarrow> ncclIbSendComm \<Rightarrow> 'w xw \<Rightarrow>
    (ncclResult \<times> nat option \<times> ncclIbSendComm \<times> 'w xw) option" where
  "anpNetIsend C V data sz mh use_write_op comm x =
     (if \<not> ready comm then Some (ncclInternalError, None, comm, x)
      else let slot = unat (fifoHead comm mod word_of_nat (MAX_REQUESTS C)) in do {
        rs \<leftarrow> arr_get (fifoReqs comm) slot;
        r0 \<leftarrow> arr_get rs 0;
        if r0 \<noteq> None then Some (ncclSuccess, None, comm, x)
        else case ncclIbGetRequest comm of (res, qo, comm) \<Rightarrow>
          if res \<noteq> ncclSuccess then Some (res, None, comm, x)
          else do {
            q \<leftarrow> qo;
            r \<leftarrow> arr_get (reqs comm) q;
            r \<leftarrow> isend_events (qps comm) (nqps comm) mh (send_width C comm) (qpIndex comm) (new_send data sz r);
            r \<leftarrow> store_lkeys mh 0 (ndevs comm) r;
            let comm = comm\<lparr>reqs := (reqs comm)[q := r], fifoReqs := (fifoReqs comm)[slot := rs[0 := Some q]]\<rparr>;
            (res, comm, x) \<leftarrow> ncclIbMultiSend C V slot use_write_op comm x;
            if res \<noteq> ncclSuccess then Some (res, Some q, comm, x)
            else Some (ncclSuccess, Some q, comm\<lparr>fifoReqs := (fifoReqs comm)[slot := replicate NCCL_NET_IB_MAX_RECVS None],
                                          fifoHead := fifoHead comm + 1\<rparr>, x) } })"

subsection \<open>Chunks\<close>

lemma chk_ok: "- (2 ^ 31) \<le> v \<Longrightarrow> v < 2 ^ 31 \<Longrightarrow> chk v = Some v"
  by (simp add: chk_def int_ok_def)

lemma chunk_size_ok:
  assumes "0 \<le> sz" "1 \<le> n" "sz + 128 * n < 2 ^ 31"
  obtains c where "chunk_size sz n = Some c" "128 dvd c" "0 \<le> c" "sz \<le> n * c" "n * c < sz + 128 * n"
proof -
  let ?a = "(sz + n - 1) div n" let ?b = "(?a + 127) div 128"
  have na: "n * ?a \<le> sz + n - 1" "sz + n - 1 < n * ?a + n"
    using assms(2) mult_div_mod_eq [of n "sz + n - 1"] pos_mod_bound [of n "sz + n - 1"] pos_mod_sign [of n "sz + n - 1"] by linarith+
  have a0: "0 \<le> ?a" using assms by (simp add: pos_imp_zdiv_nonneg_iff)
  have aub: "?a \<le> sz + n - 1" using mult_right_mono [of 1 n ?a] assms(2) a0 na(1) by linarith
  have cb: "?b * 128 \<le> ?a + 127" "?a \<le> ?b * 128" by linarith+
  have "n * (?b * 128) \<le> n * (?a + 127)" using cb(1) assms(2) by (intro mult_left_mono) auto
  then have up: "n * (?b * 128) < sz + 128 * n" using na(1) by (simp add: distrib_left)
  have lo: "sz \<le> n * (?b * 128)" using mult_left_mono [OF cb(2), of n] assms(2) na(2) by linarith
  have d1: "DIVUP sz n = Some ?a"
    using assms by (simp add: DIVUP_def chk_ok c_div_def)
  have d2: "DIVUP ?a 128 = Some ?b"
    using assms a0 aub by (simp add: DIVUP_def chk_ok c_div_def)
  have "chunk_size sz n = Some (?b * 128)"
    using d1 d2 cb a0 aub assms by (simp add: chunk_size_def chk_ok)
  moreover have "0 \<le> ?b * 128" using cb(2) a0 by linarith
  ultimately show thesis using up lo by (intro that [of "?b * 128"]) auto
qed

text \<open>The length of chunk \<open>i\<close>.\<close>

definition chunk_len :: "int \<Rightarrow> int \<Rightarrow> nat \<Rightarrow> int" where
  "chunk_len sz c i = max 0 (min (sz - int i * c) c)"

lemma chunk_len_sum:
  assumes "0 \<le> sz" "0 \<le> c"
  shows "sum_list (map (chunk_len sz c) [0..<k]) = min sz (int k * c)"
proof (induction k)
  case 0
  then show ?case using assms by simp
next
  case (Suc k)
  have "int (Suc k) * c = int k * c + c" by (simp add: distrib_right)
  moreover have "0 \<le> int k * c" using assms(2) by simp
  ultimately show ?case using Suc assms by (simp add: chunk_len_def)
qed

subsection \<open>What a send posts\<close>

fun post_all :: "'w data_verbs \<Rightarrow> (ibv_qp \<times> ibv_send_wr list) list \<Rightarrow> 'w \<Rightarrow> ncclResult \<times> 'w" where
  "post_all V [] w = (ncclSuccess, w)"
| "post_all V ((p, ch) # ps) w = (case v_post_send V p ch w of (res, w) \<Rightarrow> if res \<noteq> ncclSuccess then (res, w) else post_all V ps w)"

text \<open>The chain posted for chunk \<open>i\<close> on the queue pair entry \<open>e\<close>.\<close>

definition chunk_sge :: "send_part \<Rightarrow> int \<Rightarrow> nat \<Rightarrow> ncclIbQp \<Rightarrow> ibv_sge option" where
  "chunk_sge s c i e = (if chunk_len (snd_size s) c i = 0 then None
     else Some \<lparr>sge_addr = snd_data s + word_of_int (int i * c), sge_length = word_of_int (chunk_len (snd_size s) c i),
                sge_lkey = snd_lkeys s ! devIndex e\<rparr>)"

definition chunk_post :: "ibv_send_wr \<Rightarrow> ibv_send_wr list \<Rightarrow> send_part \<Rightarrow> int \<Rightarrow> ncclIbSendComm \<Rightarrow> nat \<Rightarrow> ibv_qp \<times> ibv_send_wr list" where
  "chunk_post wr0 rest s c comm i = (let e = qps comm ! ((qpIndex comm + i) mod nqps comm) in
     (the (qp e), wr0\<lparr>remote_addr := remote_addr wr0 + word_of_int (int i * c), wr_rkey := 0xbade, sg_list := chunk_sge s c i e\<rparr> # rest))"

definition qps_ok :: "('a) ncclIbNetCommBase_scheme \<Rightarrow> bool" where
  "qps_ok comm \<longleftrightarrow> 0 < nqps comm \<and> nqps comm \<le> length (qps comm) \<and> qpIndex comm < nqps comm \<and> 0 < ndevs comm \<and> ndevs comm \<le> nqps comm \<and>
     ndevs comm \<le> NCCL_IB_MAX_DEVS_PER_NIC \<and> (\<forall>i<nqps comm. qp (qps comm ! i) \<noteq> None \<and> devIndex (qps comm ! i) < ndevs comm)"

lemma tele_world [simp]: "xw_w (tele C ts x) = xw_w x" "xw_w (count C f x) = xw_w x" "xw_w (send_telemetry C u a b c d x) = xw_w x"
  by (simp_all add: tele_def count_def send_telemetry_def)

lemma send_sge_chunk:
  assumes "length (snd_lkeys s) = 2" "devIndex e < 2" "0 \<le> c"
  shows "send_sge s (snd_data s + word_of_int (int j * c)) (devIndex e) (min (snd_size s - int j * c) c) = Some (chunk_sge s c j e)"
  using assms by (auto simp: send_sge_def chunk_sge_def chunk_len_def ub_simps max_def min_def)

lemma multi_send_loop_posts:
  fixes comm0 :: ncclIbSendComm and r0 :: ncclIbRequest and s :: send_part and c :: int and q j k :: nat
  defines "commj \<equiv> \<lambda>j. comm0\<lparr>reqs := (reqs comm0)[q := r0\<lparr>rq_part := SendPart (s\<lparr>snd_offset := int j * c\<rparr>)\<rparr>],
      qpIndex := (qpIndex comm0 + j) mod nqps comm0\<rparr>"
  assumes ok: "qps_ok comm0" "q < length (reqs comm0)" "length (snd_lkeys s) = 2"
    and sz: "0 \<le> snd_size s" "snd_size s + 128 * int n < 2 ^ 31" "1 \<le> n"
    and c: "chunk_size (snd_size s) (int n) = Some c" "0 \<le> c" "int n * c < snd_size s + 128 * int n"
  shows "j + k \<le> n \<Longrightarrow> wr = wr0\<lparr>remote_addr := remote_addr wr0 + word_of_int (int j * c), wr_rkey := B, sg_list := D\<rparr> \<Longrightarrow>
    \<exists>res x' comm'. multi_send_loop C V u nw wid n q k wr rest (snd_data s + word_of_int (int j * c)) (commj j) x = Some (res, comm', x') \<and>
      (res, xw_w x') = post_all V (map (chunk_post wr0 rest s c comm0) [j..<j + k]) (xw_w x) \<and>
      (res = ncclSuccess \<longrightarrow> comm' = commj (j + k))"
proof (induction k arbitrary: j wr B D x)
  case 0
  then show ?case by simp
next
  case (Suc k)
  define e where "e = qps comm0 ! ((qpIndex comm0 + j) mod nqps comm0)"
  define s' where "s' = s\<lparr>snd_offset := int j * c\<rparr>"
  have lt: "(qpIndex comm0 + j) mod nqps comm0 < nqps comm0" using ok(1) by (simp add: qps_ok_def)
  then have "qp e \<noteq> None" "devIndex e < 2"
    using ok(1) by (auto simp: qps_ok_def e_def NCCL_IB_MAX_DEVS_PER_NIC_def dest!: spec [of _ "(qpIndex comm0 + j) mod nqps comm0"])
  moreover have "(qpIndex comm0 + j) mod nqps comm0 < length (qps comm0)"
    using lt ok(1) unfolding qps_ok_def by linarith
  ultimately obtain p where e: "arr_get (qps (commj j)) (qpIndex (commj j)) = Some e" "qp e = Some p" "devIndex e < 2"
    by (auto simp: commj_def ub_simps e_def)
  have r: "arr_get (reqs (commj j)) q = Some (r0\<lparr>rq_part := SendPart s'\<rparr>)" using ok(2) by (simp add: commj_def ub_simps s'_def)
  have jn: "int j * c \<le> int n * c" "int j * c + c \<le> int n * c" "0 \<le> int j * c"
    using Suc.prems(1) c(2) mult_right_mono [of "int j" "int n" c] mult_right_mono [of "int j + 1" "int n" c] by (auto simp: distrib_right)
  have k1: "chk (snd_size s - int j * c) = Some (snd_size s - int j * c)" "chk (int j * c + c) = Some (int j * c + c)"
    by (rule chk_ok; use jn c(2,3) sz in linarith)+
  have sg: "send_sge s' (snd_data s + word_of_int (int j * c)) (devIndex e) (min (snd_size s - int j * c) c) = Some (chunk_sge s c j e)"
  proof -
    have "send_sge s' = send_sge s" by (simp add: send_sge_def s'_def fun_eq_iff)
    then show ?thesis using send_sge_chunk [OF ok(3) e(3) c(2), of j] by simp
  qed
  let ?wr = "wr0\<lparr>remote_addr := remote_addr wr0 + word_of_int (int j * c), wr_rkey := 0xbade, sg_list := chunk_sge s c j e\<rparr>"
  let ?x = "if min (snd_size s - int j * c) c \<le> 0 then x else tele C [T_update_wqe_size (min (snd_size s - int j * c) c)] x"
  obtain res w where pw: "v_post_send V p (?wr # rest) (xw_w x) = (res, w)" by fastforce
  have post: "chunk_post wr0 rest s c comm0 j = (p, ?wr # rest)" using e(2) by (simp add: chunk_post_def Let_def e_def)
  have xw: "xw_w ?x = xw_w x" by simp
  let ?y = "send_telemetry C u (qp_num p) nw wid (v_time_ns V (xw_w x)) (?x\<lparr>xw_w := w\<rparr>)"
  have cj: "(commj j)\<lparr>reqs := (reqs (commj j))[q := r0\<lparr>rq_part := SendPart (s\<lparr>snd_offset := int j * c + c\<rparr>)\<rparr>],
      qpIndex := Suc (qpIndex (commj j)) mod nqps (commj j)\<rparr> = commj (Suc j)"
    by (simp add: commj_def mod_Suc_eq algebra_simps)
  have wr': "?wr\<lparr>remote_addr := remote_addr ?wr + word_of_int c\<rparr> = wr0\<lparr>remote_addr := remote_addr wr0 + word_of_int (int (Suc j) * c), wr_rkey := 0xbade, sg_list := chunk_sge s c j e\<rparr>"
    by (simp add: distrib_right)
  have step: "multi_send_loop C V u nw wid n q (Suc k) wr rest (snd_data s + word_of_int (int j * c)) (commj j) x =
     (if res \<noteq> ncclSuccess then Some (res, commj j, ?x\<lparr>xw_w := w\<rparr>)
      else multi_send_loop C V u nw wid n q k (?wr\<lparr>remote_addr := remote_addr ?wr + word_of_int c\<rparr>) rest
        (snd_data s + word_of_int (int j * c) + word_of_int c) (commj (Suc j)) ?y)"
    using e r k1 sg pw c(1) Suc.prems(2) xw
    by (simp add: get_send_part_def Let_def s'_def cj cong: if_cong)
  have upt: "[j..<j + Suc k] = j # [Suc j..<Suc j + k]" by (simp add: upt_conv_Cons)
  show ?case
  proof (cases "res = ncclSuccess")
    case False
    then show ?thesis using step pw post upt by (simp del: multi_send_loop.simps upt_Suc)
  next
    case True
    have sa: "snd_data s + word_of_int (int j * c) + word_of_int c = snd_data s + word_of_int (int (Suc j) * c)"
      by (simp add: distrib_right)
    have "Suc j + k \<le> n" using Suc.prems(1) by simp
    from Suc.IH [OF this wr', of ?y] obtain res' x' comm' where ih:
      "multi_send_loop C V u nw wid n q k (?wr\<lparr>remote_addr := remote_addr ?wr + word_of_int c\<rparr>) rest (snd_data s + word_of_int (int (Suc j) * c)) (commj (Suc j)) ?y = Some (res', comm', x')"
      "(res', xw_w x') = post_all V (map (chunk_post wr0 rest s c comm0) [Suc j..<Suc j + k]) w" "res' = ncclSuccess \<longrightarrow> comm' = commj (Suc j + k)"
      by auto
    have "multi_send_loop C V u nw wid n q (Suc k) wr rest (snd_data s + word_of_int (int j * c)) (commj j) x = Some (res', comm', x')"
      using step [unfolded sa] True ih(1) by (simp only: simp_thms if_False)
    then show ?thesis using ih(2,3) True pw post upt by (simp del: multi_send_loop.simps upt_Suc)
  qed
qed

subsection \<open>The bookkeeping of a send\<close>

text \<open>
  A request is consistent when its arrays have their size and every device it expects events from has
  its base recorded, which is what \<open>anpNetTest\<close> follows to the completion queue.
\<close>

definition req_ok :: "ncclIbRequest \<Rightarrow> bool" where
  "req_ok r \<longleftrightarrow> length (events r) = 2 \<and> length (devBases r) = 2 \<and> (\<forall>d<2. events r ! d \<noteq> 0 \<longrightarrow> devBases r ! d = Some d)"

lemma sum_list_bump:
  assumes "length xs = 2" "d < 2"
  shows "sum_list (xs[d := xs ! d + v]) = sum_list xs + (v :: int)"
proof -
  obtain a b where "xs = [a, b]" using assms(1) by (auto simp: numeral_2_eq_2 length_Suc_conv)
  then show ?thesis using assms(2) by (auto simp: less_2_cases_iff)
qed

lemma add_event_ok:
  assumes "req_ok r" "d < 2"
  shows "ncclIbAddEvent d r = Some (r\<lparr>events := (events r)[d := events r ! d + 1], devBases := (devBases r)[d := Some d]\<rparr>)"
    and "req_ok (r\<lparr>events := (events r)[d := events r ! d + 1], devBases := (devBases r)[d := Some d]\<rparr>)"
    and "sum_list ((events r)[d := events r ! d + 1]) = sum_list (events r) + 1"
  using assms by (auto simp: ncclIbAddEvent_def req_ok_def ub_simps nth_list_update sum_list_bump)

definition send_req :: "send_part \<Rightarrow> ncclIbRequest \<Rightarrow> bool" where
  "send_req s r \<longleftrightarrow> (\<exists>ks. length ks = 2 \<and> rq_part r = SendPart (s\<lparr>snd_lkeys := ks\<rparr>))"

lemma set_lkey_ok:
  assumes "send_req s r" "d < 2" "d < length (mrs mh)"
  shows "\<exists>ks. length ks = 2 \<and> set_lkey d mh r = Some (r\<lparr>rq_part := SendPart (s\<lparr>snd_lkeys := ks\<rparr>)\<rparr>) \<and> ks ! d = lkey (mrs mh ! d) \<and>
    (\<forall>ks'. rq_part r = SendPart (s\<lparr>snd_lkeys := ks'\<rparr>) \<longrightarrow> (\<forall>i. i \<noteq> d \<longrightarrow> ks ! i = ks' ! i))"
proof -
  obtain ks where ks: "length ks = 2" "rq_part r = SendPart (s\<lparr>snd_lkeys := ks\<rparr>)" using assms(1) by (auto simp: send_req_def)
  have "set_lkey d mh r = Some (r\<lparr>rq_part := SendPart (s\<lparr>snd_lkeys := ks[d := lkey (mrs mh ! d)]\<rparr>)\<rparr>)"
    using ks assms(2,3) by (simp add: set_lkey_def get_send_part_def ub_simps)
  moreover have "ks' = ks" if "rq_part r = SendPart (s\<lparr>snd_lkeys := ks'\<rparr>)" for ks'
    using that ks(2) by (cases s) simp
  ultimately show ?thesis using ks(1) assms(2) by (intro exI [of _ "ks[d := lkey (mrs mh ! d)]"]) auto
qed

lemma send_req_part [simp]: "length ks = 2 \<Longrightarrow> send_req s (r\<lparr>rq_part := SendPart (s\<lparr>snd_lkeys := ks\<rparr>)\<rparr>)"
  by (auto simp: send_req_def)

lemma req_ok_part [simp]: "req_ok (r\<lparr>rq_part := p\<rparr>) = req_ok r"
  by (simp add: req_ok_def)

text \<open>How many of the next \<open>n\<close> queue pairs, from entry \<open>qi\<close> on, belong to device \<open>d\<close>.\<close>

definition dev_posts :: "ncclIbQp list \<Rightarrow> nat \<Rightarrow> nat \<Rightarrow> nat \<Rightarrow> nat \<Rightarrow> int" where
  "dev_posts qs nq qi n d = int (length (filter (\<lambda>i. devIndex (qs ! ((qi + i) mod nq)) = d) [0..<n]))"

lemma dev_posts_Suc:
  assumes "qi < nq"
  shows "dev_posts qs nq qi (Suc n) d = (if devIndex (qs ! qi) = d then 1 else 0) + dev_posts qs nq ((qi + 1) mod nq) n d"
proof -
  have e: "[0..<Suc n] = 0 # map Suc [0..<n]" by (simp only: map_Suc_upt upt_conv_Cons [OF zero_less_Suc])
  have m: "((qi + 1) mod nq + i) mod nq = (qi + Suc i) mod nq" for i by (simp add: mod_add_left_eq)
  show ?thesis unfolding dev_posts_def e m using assms by (simp add: filter_map comp_def)
qed

lemma isend_events_ok:
  assumes "0 < nq" "\<forall>i<nq. i < length qs \<and> devIndex (qs ! i) < 2 \<and> devIndex (qs ! i) < length (mrs mh)"
  shows "qi < nq \<Longrightarrow> req_ok r \<Longrightarrow> send_req s r \<Longrightarrow> \<exists>r'. isend_events qs nq mh n qi r = Some r' \<and> req_ok r' \<and> send_req s r' \<and>
    rq_type r' = rq_type r \<and> nreqs r' = nreqs r \<and> sum_list (events r') = sum_list (events r) + int n \<and>
    (\<forall>d<2. events r' ! d = events r ! d + dev_posts qs nq qi n d)"
proof (induction n arbitrary: qi r)
  case 0
  then show ?case by (auto simp: dev_posts_def)
next
  case (Suc n)
  define d where "d = devIndex (qs ! qi)"
  have d: "d < 2" "d < length (mrs mh)" "qi < length qs" using assms(2) Suc.prems(1) by (auto simp: d_def)
  let ?r = "r\<lparr>events := (events r)[d := events r ! d + 1], devBases := (devBases r)[d := Some d]\<rparr>"
  note ae = add_event_ok [OF Suc.prems(2) d(1)]
  have "send_req s ?r" using Suc.prems(3) by (simp add: send_req_def)
  then obtain ks where ks: "length ks = 2" "set_lkey d mh ?r = Some (?r\<lparr>rq_part := SendPart (s\<lparr>snd_lkeys := ks\<rparr>)\<rparr>)"
    using set_lkey_ok [of s ?r d mh] d by blast
  let ?r2 = "?r\<lparr>rq_part := SendPart (s\<lparr>snd_lkeys := ks\<rparr>)\<rparr>"
  have "(qi + 1) mod nq < nq" using assms(1) by simp
  moreover have "req_ok ?r2" using ae(2) by simp
  moreover have "send_req s ?r2" using ks(1) by simp
  ultimately obtain r' where r': "isend_events qs nq mh n ((qi + 1) mod nq) ?r2 = Some r'" "req_ok r'" "send_req s r'"
    "rq_type r' = rq_type ?r2" "nreqs r' = nreqs ?r2" "sum_list (events r') = sum_list (events ?r2) + int n" "\<forall>i<2. events r' ! i = events ?r2 ! i + dev_posts qs nq ((qi + 1) mod nq) n i"
    using Suc.IH [of "(qi + 1) mod nq" ?r2] by blast
  have "isend_events qs nq mh (Suc n) qi r = Some r'"
    using d ae(1) ks(2) r'(1) by (simp add: ub_simps d_def)
  moreover have "\<forall>i<2. events r' ! i = events r ! i + dev_posts qs nq qi (Suc n) i"
  proof (intro allI impI)
    fix i :: nat assume "i < 2"
    then have "events r' ! i = events ?r2 ! i + dev_posts qs nq ((qi + 1) mod nq) n i" using r'(7) by blast
    moreover have "events ?r2 ! i = events r ! i + (if d = i then 1 else 0)" using \<open>i < 2\<close> Suc.prems(2) by (cases "i = d") (auto simp: req_ok_def)
    ultimately show "events r' ! i = events r ! i + dev_posts qs nq qi (Suc n) i" using dev_posts_Suc [OF Suc.prems(1), of qs n i] by (simp add: d_def)
  qed
  ultimately show ?case using r' ae(3) by auto
qed

lemma store_lkeys_ok:
  assumes "i + n \<le> length (mrs mh)" "i + n \<le> 2" "send_req s r"
  shows "\<exists>ks. length ks = 2 \<and> store_lkeys mh i n r = Some (r\<lparr>rq_part := SendPart (s\<lparr>snd_lkeys := ks\<rparr>)\<rparr>) \<and>
    (\<forall>j. i \<le> j \<and> j < i + n \<longrightarrow> ks ! j = lkey (mrs mh ! j)) \<and>
    (\<forall>ks'. rq_part r = SendPart (s\<lparr>snd_lkeys := ks'\<rparr>) \<longrightarrow> (\<forall>j<i. ks ! j = ks' ! j))"
  using assms
proof (induction n arbitrary: i r)
  case 0
  then obtain ks where ks: "length ks = 2" "rq_part r = SendPart (s\<lparr>snd_lkeys := ks\<rparr>)" by (auto simp: send_req_def)
  have st: "store_lkeys mh i 0 r = Some (r\<lparr>rq_part := SendPart (s\<lparr>snd_lkeys := ks\<rparr>)\<rparr>)" using ks(2) by (cases r) simp
  have un: "ks' = ks" if "rq_part r = SendPart (s\<lparr>snd_lkeys := ks'\<rparr>)" for ks'
    using that ks(2) by (cases s) simp
  have "\<forall>j. i \<le> j \<and> j < i + 0 \<longrightarrow> ks ! j = lkey (mrs mh ! j)" by auto
  then show ?case using ks(1) st un by blast
next
  case (Suc n)
  obtain ks where ks: "length ks = 2" "set_lkey i mh r = Some (r\<lparr>rq_part := SendPart (s\<lparr>snd_lkeys := ks\<rparr>)\<rparr>)" "ks ! i = lkey (mrs mh ! i)"
      "\<forall>ks'. rq_part r = SendPart (s\<lparr>snd_lkeys := ks'\<rparr>) \<longrightarrow> (\<forall>j. j \<noteq> i \<longrightarrow> ks ! j = ks' ! j)"
    using set_lkey_ok [OF Suc.prems(3), of i mh] Suc.prems(1,2) by auto
  let ?r = "r\<lparr>rq_part := SendPart (s\<lparr>snd_lkeys := ks\<rparr>)\<rparr>"
  obtain ks2 where ks2: "length ks2 = 2" "store_lkeys mh (Suc i) n ?r = Some (?r\<lparr>rq_part := SendPart (s\<lparr>snd_lkeys := ks2\<rparr>)\<rparr>)"
      "\<forall>j. Suc i \<le> j \<and> j < Suc i + n \<longrightarrow> ks2 ! j = lkey (mrs mh ! j)" "\<forall>j<Suc i. ks2 ! j = ks ! j"
    using Suc.IH [of "Suc i" ?r] Suc.prems(1,2) ks(1) by auto
  have "store_lkeys mh i (Suc n) r = Some (r\<lparr>rq_part := SendPart (s\<lparr>snd_lkeys := ks2\<rparr>)\<rparr>)" using ks(2) ks2(2) by simp
  moreover have "\<forall>j. i \<le> j \<and> j < i + Suc n \<longrightarrow> ks2 ! j = lkey (mrs mh ! j)"
  proof (intro allI impI)
    fix j assume "i \<le> j \<and> j < i + Suc n"
    then show "ks2 ! j = lkey (mrs mh ! j)" using ks2(3,4) ks(3) by (cases "j = i") auto
  qed
  moreover have "\<forall>ks'. rq_part r = SendPart (s\<lparr>snd_lkeys := ks'\<rparr>) \<longrightarrow> (\<forall>j<i. ks2 ! j = ks' ! j)"
    using ks2(4) ks(4) by auto
  ultimately show ?case using ks2(1) by blast
qed

subsection \<open>A whole send\<close>

text \<open>The invariant of a send communicator.\<close>

definition send_comm_ok :: "xcfg \<Rightarrow> ncclIbSendComm \<Rightarrow> bool" where
  "send_comm_ok C comm \<longleftrightarrow> 0 < MAX_REQUESTS C \<and> MAX_REQUESTS C \<le> 256 \<and> qps_ok comm \<and>
     length (reqs comm) = MAX_REQUESTS C \<and> list_all req_ok (reqs comm) \<and>
     length (fifoReqs comm) = MAX_REQUESTS C \<and> list_all (\<lambda>row. length row = NCCL_NET_IB_MAX_RECVS) (fifoReqs comm) \<and>
     length (remSizes_elems comm) = MAX_REQUESTS C \<and> list_all (\<lambda>row. length row = NCCL_NET_IB_MAX_RECVS) (remSizes_elems comm)"

definition send_slot :: "xcfg \<Rightarrow> ncclIbSendComm \<Rightarrow> nat" where
  "send_slot C comm = unat (fifoHead comm mod word_of_nat (MAX_REQUESTS C))"

lemma send_slot_less: "0 < MAX_REQUESTS C \<Longrightarrow> MAX_REQUESTS C \<le> 256 \<Longrightarrow> send_slot C comm < MAX_REQUESTS C"
proof -
  assume m: "0 < MAX_REQUESTS C" "MAX_REQUESTS C \<le> 256"
  then have u: "unat (word_of_nat (MAX_REQUESTS C) :: u64) = MAX_REQUESTS C" by (simp add: unsigned_of_nat take_bit_nat_eq_self)
  show ?thesis unfolding send_slot_def unat_mod_distrib u using m(1) by simp
qed

text \<open>The work requests of a chain that report completion, by their identifier.\<close>

definition signalled_ids :: "ibv_send_wr list \<Rightarrow> u64 list" where
  "signalled_ids ch = map wr_id (filter (\<lambda>w. IBV_SEND_SIGNALED \<in> set (send_flags w)) ch)"

lemma prepared_signalled:
  assumes "prepare_wrs C u a sz wid = (wr0, rest, nw)"
  shows "signalled_ids (wr0\<lparr>remote_addr := A, wr_rkey := B, sg_list := D\<rparr> # rest) = [wid]"
  using assms by (auto simp: prepare_wrs_def Let_def signalled_ids_def zero_wr_def split: if_splits)

lemma chunk_post_signalled:
  assumes "prepare_wrs C u a sz wid = (wr0, rest, nw)"
  shows "signalled_ids (snd (chunk_post wr0 rest s c comm i)) = [wid]"
  using prepared_signalled [OF assms] by (simp add: chunk_post_def Let_def)

lemma multi_send_posts:
  assumes "qps_ok comm" "slot < length (fifoReqs comm)" "0 < length (fifoReqs comm ! slot)" "fifoReqs comm ! slot ! 0 = Some q"
    and "q < length (reqs comm)" "rq_part (reqs comm ! q) = SendPart s" "snd_offset s = 0" "length (snd_lkeys s) = 2"
    and "slot < length (remSizes_elems comm)" "0 < length (remSizes_elems comm ! slot)"
    and "0 \<le> snd_size s" "snd_size s + 128 * int (send_width C comm) < 2 ^ 31"
    and "prepare_wrs C u (ar comm) (snd_size s) (word_of_nat q) = (wr0, rest, nw)"
    and "chunk_size (snd_size s) (int (send_width C comm)) = Some c" "0 \<le> c" "int (send_width C comm) * c < snd_size s + 128 * int (send_width C comm)"
  shows "\<exists>res x' comm' rs. ncclIbMultiSend C V slot u comm x = Some (res, comm', x') \<and>
    (res, xw_w x') = post_all V (map (chunk_post wr0 rest s c comm) [0..<send_width C comm]) (xw_w x) \<and>
    (res = ncclSuccess \<longrightarrow> comm' = comm\<lparr>remSizes_elems := rs, qpIndex := (qpIndex comm + send_width C comm) mod nqps comm,
        reqs := (reqs comm)[q := (reqs comm ! q)\<lparr>rq_part := SendPart (s\<lparr>snd_offset := int (send_width C comm) * c\<rparr>)\<rparr>]\<rparr>) \<and>
    rs = (if u then (remSizes_elems comm)[slot := (remSizes_elems comm ! slot)[0 := snd_size s]] else remSizes_elems comm)"
proof -
  define n where "n = send_width C comm"
  define rs where "rs = (if u then (remSizes_elems comm)[slot := (remSizes_elems comm ! slot)[0 := snd_size s]] else remSizes_elems comm)"
  define comm0 where "comm0 = comm\<lparr>remSizes_elems := rs\<rparr>"
  define cj where "cj = (\<lambda>j. comm0\<lparr>reqs := (reqs comm0)[q := (reqs comm0 ! q)\<lparr>rq_part := SendPart (s\<lparr>snd_offset := int j * c\<rparr>)\<rparr>],
      qpIndex := (qpIndex comm0 + j) mod nqps comm0\<rparr>)"
  have n1: "1 \<le> n" using assms(1) by (auto simp: n_def send_width_def qps_ok_def)
  have ok0: "qps_ok comm0" using assms(1) by (simp add: comm0_def qps_ok_def)
  have s0: "s\<lparr>snd_offset := 0\<rparr> = s" using assms(7) by (cases s) simp
  have r0: "(reqs comm ! q)\<lparr>rq_part := SendPart s\<rparr> = reqs comm ! q" using assms(6) by (cases "reqs comm ! q") simp
  have c0: "cj 0 = comm0" using assms(1) s0 r0 by (simp add: cj_def comm0_def qps_ok_def)
  have ms: "ncclIbMultiSend C V slot u comm x = multi_send_loop C V u nw (word_of_nat q) n q n wr0 rest (snd_data s) comm0 x"
    using assms(2-6,9,10,13) by (auto simp: ncclIbMultiSend_def ub_simps get_send_part_def n_def comm0_def rs_def send_width_def Let_def)
  have w0: "wr0 = wr0\<lparr>remote_addr := remote_addr wr0 + word_of_int (int 0 * c), wr_rkey := wr_rkey wr0, sg_list := sg_list wr0\<rparr>" by simp
  have "\<exists>res x' comm'. multi_send_loop C V u nw (word_of_nat q) n q n wr0 rest (snd_data s + word_of_int (int 0 * c)) (cj 0) x = Some (res, comm', x') \<and>
      (res, xw_w x') = post_all V (map (chunk_post wr0 rest s c comm0) [0..<0 + n]) (xw_w x) \<and> (res = ncclSuccess \<longrightarrow> comm' = cj (0 + n))"
    unfolding cj_def
    by (rule multi_send_loop_posts [OF ok0 _ assms(8,11) _ n1 _ assms(15) _ _ w0]) (use assms(5,12,14,16) in \<open>simp_all add: comm0_def n_def\<close>)
  moreover have "chunk_post wr0 rest s c comm0 = chunk_post wr0 rest s c comm" by (simp add: fun_eq_iff chunk_post_def comm0_def)
  ultimately obtain res x' comm' where "multi_send_loop C V u nw (word_of_nat q) n q n wr0 rest (snd_data s) comm0 x = Some (res, comm', x')"
      "(res, xw_w x') = post_all V (map (chunk_post wr0 rest s c comm) [0..<n]) (xw_w x)" "res = ncclSuccess \<longrightarrow> comm' = cj n"
    by (auto simp: c0)
  then show ?thesis using ms
    by (intro exI [of _ res] exI [of _ x'] exI [of _ comm'] exI [of _ rs]) (auto simp: n_def cj_def comm0_def rs_def)
qed

text \<open>
  The lemma behind the properties of a send: on a free slot with an unused request, \<open>anpNetIsend\<close> fills the
  first unused request and posts one chain per queue pair.
\<close>

lemma chunk_post_cong:
  "qps a = qps b \<Longrightarrow> qpIndex a = qpIndex b \<Longrightarrow> nqps a = nqps b \<Longrightarrow> chunk_post wr0 rest s c a = chunk_post wr0 rest s c b"
  by (simp add: fun_eq_iff chunk_post_def)

lemma send_width_reqs: "send_width C (comm\<lparr>reqs := rr\<rparr>) = send_width C comm"
  by (simp add: send_width_def)

lemma isend_runs:
  assumes ok: "send_comm_ok C comm" and rdy: "ready comm" and mh: "ndevs comm \<le> length (mrs mh)"
    and free: "fifoReqs comm ! send_slot C comm ! 0 = None" and q: "get_request_loop (reqs comm) 0 = Some q"
    and sz: "0 \<le> to_int32 sz" "to_int32 sz + 128 * int (send_width C comm) < 2 ^ 31"
    and pw: "prepare_wrs C u (ar comm) (to_int32 sz) (word_of_nat q) = (wr0, rest, nw)"
    and c: "chunk_size (to_int32 sz) (int (send_width C comm)) = Some c" "0 \<le> c" "int (send_width C comm) * c < to_int32 sz + 128 * int (send_width C comm)"
  obtains s r res comm' x' rs where "anpNetIsend C V data sz mh u comm x = Some (res, Some q, comm', x')"
    and "(res, xw_w x') = post_all V (map (chunk_post wr0 rest s c comm) [0..<send_width C comm]) (xw_w x)"
    and "snd_size s = to_int32 sz" "snd_data s = data" "\<forall>d<ndevs comm. snd_lkeys s ! d = lkey (mrs mh ! d)"
    and "req_ok r" "rq_type r = REQ_SEND" "nreqs r = 1" "sum_list (events r) = int (send_width C comm)" "\<forall>d<2. 0 \<le> events r ! d"
    and "res = ncclSuccess \<longrightarrow> comm' = comm\<lparr>remSizes_elems := rs, qpIndex := (qpIndex comm + send_width C comm) mod nqps comm,
        reqs := (reqs comm)[q := r\<lparr>rq_part := SendPart (s\<lparr>snd_offset := int (send_width C comm) * c\<rparr>)\<rparr>],
        fifoReqs := (fifoReqs comm)[send_slot C comm := replicate NCCL_NET_IB_MAX_RECVS None], fifoHead := fifoHead comm + 1\<rparr>"
    and "rs = (if u then (remSizes_elems comm)[send_slot C comm := (remSizes_elems comm ! send_slot C comm)[0 := to_int32 sz]] else remSizes_elems comm)"
    and "\<forall>d<2. events r ! d = dev_posts (qps comm) (nqps comm) (qpIndex comm) (send_width C comm) d"
proof -
  let ?M = "MAX_REQUESTS C" and ?slot = "send_slot C comm" and ?n = "send_width C comm"
  have M: "0 < ?M" "?M \<le> 256" and qok: "qps_ok comm" and len: "length (reqs comm) = ?M" "length (fifoReqs comm) = ?M" "length (remSizes_elems comm) = ?M"
    using ok by (auto simp: send_comm_ok_def)
  have slot: "?slot < ?M" using M by (rule send_slot_less)
  have row: "length (fifoReqs comm ! ?slot) = 8" "length (remSizes_elems comm ! ?slot) = 8"
    using ok slot by (auto simp: send_comm_ok_def list_all_length NCCL_NET_IB_MAX_RECVS_def)
  have qM: "q < ?M" using get_request_loop_SomeD [OF q] len(1) by auto
  let ?r0 = "(reqs comm ! q)\<lparr>devBases := [None, None], events := [0, 0]\<rparr>"
  let ?s0 = "\<lparr>snd_size = to_int32 sz, snd_data = data, snd_lkeys = [0, 0], snd_offset = 0\<rparr>"
  let ?comm1 = "comm\<lparr>reqs := (reqs comm)[q := ?r0]\<rparr>"
  have g: "ncclIbGetRequest comm = (ncclSuccess, Some q, ?comm1)" using q by (simp add: ncclIbGetRequest_def)
  have r1: "req_ok (new_send data sz ?r0)" "send_req ?s0 (new_send data sz ?r0)"
    by (auto simp: new_send_def req_ok_def less_2_cases_iff send_req_def)
  have qs: "\<forall>i<nqps comm. i < length (qps comm) \<and> devIndex (qps comm ! i) < 2 \<and> devIndex (qps comm ! i) < length (mrs mh)"
    using qok mh unfolding qps_ok_def NCCL_IB_MAX_DEVS_PER_NIC_def by (meson less_le_trans)
  have q0: "0 < nqps comm" "qpIndex comm < nqps comm" "ndevs comm \<le> 2" using qok by (auto simp: qps_ok_def NCCL_IB_MAX_DEVS_PER_NIC_def)
  obtain r where r: "isend_events (qps comm) (nqps comm) mh ?n (qpIndex comm) (new_send data sz ?r0) = Some r" "req_ok r" "send_req ?s0 r"
      "rq_type r = REQ_SEND" "nreqs r = 1" "sum_list (events r) = int ?n"
      "\<forall>d<2. events r ! d = dev_posts (qps comm) (nqps comm) (qpIndex comm) ?n d"
    using isend_events_ok [OF q0(1) qs q0(2) r1(1,2), of ?n] by (auto simp: new_send_def less_2_cases_iff)
  have r0: "\<forall>d<2. 0 \<le> events r ! d" using r(7) by (simp add: dev_posts_def)
  obtain ks where ks: "length ks = 2" "store_lkeys mh 0 (ndevs comm) r = Some (r\<lparr>rq_part := SendPart (?s0\<lparr>snd_lkeys := ks\<rparr>)\<rparr>)"
      "\<forall>d<ndevs comm. ks ! d = lkey (mrs mh ! d)"
    using store_lkeys_ok [of 0 "ndevs comm" mh ?s0 r] mh q0(3) r(3) by auto
  define s where "s = ?s0\<lparr>snd_lkeys := ks\<rparr>"
  define comm2 where "comm2 = comm\<lparr>reqs := (reqs comm)[q := r\<lparr>rq_part := SendPart s\<rparr>], fifoReqs := (fifoReqs comm)[?slot := (fifoReqs comm ! ?slot)[0 := Some q]]\<rparr>"
  have w2: "send_width C comm2 = ?n" by (simp add: comm2_def send_width_def)
  obtain res x' comm3 rs where ms: "ncclIbMultiSend C V ?slot u comm2 x = Some (res, comm3, x')"
      "(res, xw_w x') = post_all V (map (chunk_post wr0 rest s c comm2) [0..<?n]) (xw_w x)"
      "res = ncclSuccess \<longrightarrow> comm3 = comm2\<lparr>remSizes_elems := rs, qpIndex := (qpIndex comm2 + ?n) mod nqps comm2,
        reqs := (reqs comm2)[q := (reqs comm2 ! q)\<lparr>rq_part := SendPart (s\<lparr>snd_offset := int ?n * c\<rparr>)\<rparr>]\<rparr>"
      "rs = (if u then (remSizes_elems comm2)[?slot := (remSizes_elems comm2 ! ?slot)[0 := snd_size s]] else remSizes_elems comm2)"
    using multi_send_posts [of comm2 ?slot q s C u wr0 rest nw c V x] qok len row slot qM ks(1) sz pw c
    unfolding w2 by (simp add: comm2_def qps_ok_def s_def) blast
  have cp: "chunk_post wr0 rest s c comm2 = chunk_post wr0 rest s c comm" by (rule chunk_post_cong) (simp_all add: comm2_def)
  have isend: "anpNetIsend C V data sz mh u comm x = (if res \<noteq> ncclSuccess then Some (res, Some q, comm3, x')
      else Some (ncclSuccess, Some q, comm3\<lparr>fifoReqs := (fifoReqs comm3)[?slot := replicate NCCL_NET_IB_MAX_RECVS None], fifoHead := fifoHead comm3 + 1\<rparr>, x'))"
    using rdy free g qM len slot row r(1) ks(2) ms(1)
    by (simp add: anpNetIsend_def Let_def send_slot_def [symmetric] ub_simps send_width_reqs comm2_def s_def)
  have res: "(comm3\<lparr>fifoReqs := (fifoReqs comm3)[?slot := replicate NCCL_NET_IB_MAX_RECVS None], fifoHead := fifoHead comm3 + 1\<rparr>) =
      comm\<lparr>remSizes_elems := rs, qpIndex := (qpIndex comm + ?n) mod nqps comm, reqs := (reqs comm)[q := r\<lparr>rq_part := SendPart (s\<lparr>snd_offset := int ?n * c\<rparr>)\<rparr>],
        fifoReqs := (fifoReqs comm)[?slot := replicate NCCL_NET_IB_MAX_RECVS None], fifoHead := fifoHead comm + 1\<rparr>" if "res = ncclSuccess"
    using ms(3) that qM len by (simp add: comm2_def)
  show thesis
  proof (cases "res = ncclSuccess")
    case True
    show thesis by (rule that [of res _ x' s r rs]) (use isend True ms(2,4) cp res [OF True] r r0 ks(3) in \<open>simp_all add: s_def comm2_def\<close>)
  next
    case False
    show thesis by (rule that [of res comm3 x' s r rs]) (use isend False ms(2,4) cp r r0 ks(3) in \<open>simp_all add: s_def comm2_def\<close>)
  qed
qed

subsection \<open>Properties of a send\<close>

definition demo_cfg :: xcfg where
  "demo_cfg = \<lparr>MAX_REQUESTS = 16, splitDataOnQps = True, arThreshold = 8192, telemetry = True, flushNoRelaxed = True\<rparr>"

definition demo_req :: ncclIbRequest where
  "demo_req = \<lparr>rq_type = REQ_UNUSED, events = [0, 0], devBases = [None, None], nreqs = 0, rq_part = NoPart\<rparr>"

definition demo_qp :: "nat \<Rightarrow> nat \<Rightarrow> ncclIbQp" where
  "demo_qp i d = \<lparr>qp = Some \<lparr>qp_ptr = i, qp_num = word_of_nat (100 + i)\<rparr>, devIndex = d, remDevIdx = d, ctsQpSlot = word_of_nat i\<rparr>"

definition demo_base :: "nat \<Rightarrow> ncclIbNetCommDevBase" where
  "demo_base d = \<lparr>ibDevN = d, pd = d, cq = d, gidInfo = \<lparr>gi_link_layer = 2, localGid = (0, 0), localGidIndex = 0\<rparr>\<rparr>"

definition demo_send :: ncclIbSendComm where
  "demo_send = \<lparr>ndevs = 2, isSend = True, reqs = replicate 16 demo_req, qps = [demo_qp 0 0, demo_qp 1 1], nqps = 2, qpIndex = 1, ready = True,
     nRemDevs = 2, remDevs = [], devBase = [demo_base 0, demo_base 1], fifoMr = [], fifoReqs = replicate 16 (replicate 8 None),
     remSizes_elems = replicate 16 (replicate 8 0), remSizes_mrs = [], remSizes_rkeys = [], remSizes_addr = 0, fifoHead = 35, ar = False\<rparr>"

definition demo_mrh :: ncclIbMrHandle where
  "demo_mrh = \<lparr>mrs = [\<lparr>mr_ptr = 1, lkey = 11, rkey = 12\<rparr>, \<lparr>mr_ptr = 2, lkey = 21, rkey = 22\<rparr>]\<rparr>"

text \<open>A world that logs what is posted and hands out the completions it holds.\<close>

definition demo_verbs :: "((ibv_qp \<times> ibv_send_wr list) list \<times> ibv_wc list) data_verbs" where
  "demo_verbs = \<lparr>v_post_send = (\<lambda>p ch w. (ncclSuccess, (fst w @ [(p, ch)], snd w))), v_post_recv = (\<lambda>p i w. (ncclSuccess, w)),
     v_poll_cq = (\<lambda>c n w. ((ncclSuccess, take n (snd w)), (fst w, drop n (snd w)))), v_time_ns = (\<lambda>w. 0)\<rparr>"

definition demo_xw :: "((ibv_qp \<times> ibv_send_wr list) list \<times> ibv_wc list) xw" where
  "demo_xw = \<lparr>xw_dbg = \<lparr>num_cts_sent = 0, num_signalled_cts_sent = 0, num_wr_wqe = 0, num_wi_wqe = 0, num_send_completion = 0,
     num_send_completion_ok = 0, num_recv_wqe = 0, num_recv_completion = 0, num_recv_completion_ok = 0\<rparr>, xw_tele = [], xw_w = ([], [])\<rparr>"

lemma demo_send_ok: "send_comm_ok demo_cfg demo_send"
  by code_simp



text \<open>What a successful send leaves behind.\<close>

lemma isend_success:
  assumes "send_comm_ok C comm" "ready comm" "ndevs comm \<le> length (mrs mh)" "fifoReqs comm ! send_slot C comm ! 0 = None"
    and "get_request_loop (reqs comm) 0 = Some q" "0 \<le> to_int32 sz" "to_int32 sz + 128 * int (send_width C comm) < 2 ^ 31"
    and "anpNetIsend C V data sz mh u comm x = Some (ncclSuccess, qo, comm', x')"
  obtains wr0 rest s c r rs n where "\<And>i. signalled_ids (snd (chunk_post wr0 rest s c comm i)) = [word_of_nat q]"
    and "(ncclSuccess, xw_w x') = post_all V (map (chunk_post wr0 rest s c comm) [0..<send_width C comm]) (xw_w x)"
    and "req_ok r" "rq_type r = REQ_SEND" "nreqs r = 1" "sum_list (events r) = int (send_width C comm)"
    and "\<forall>d<2. events r ! d = dev_posts (qps comm) (nqps comm) (qpIndex comm) (send_width C comm) d"
    and "comm' = comm\<lparr>remSizes_elems := rs, qpIndex := (qpIndex comm + send_width C comm) mod nqps comm,
        reqs := (reqs comm)[q := r\<lparr>rq_part := SendPart (s\<lparr>snd_offset := n\<rparr>)\<rparr>],
        fifoReqs := (fifoReqs comm)[send_slot C comm := replicate NCCL_NET_IB_MAX_RECVS None], fifoHead := fifoHead comm + 1\<rparr>"
    and "send_comm_ok C comm'" "q < length (reqs comm)" "rq_type (reqs comm ! q) = REQ_UNUSED" "send_slot C comm < length (fifoReqs comm)" "qo = Some q"
proof -
  obtain wr0 rest nw where pw: "prepare_wrs C u (ar comm) (to_int32 sz) (word_of_nat q) = (wr0, rest, nw)"
    by (cases "prepare_wrs C u (ar comm) (to_int32 sz) (word_of_nat q)")
  have n: "1 \<le> int (send_width C comm)" using assms(1) by (auto simp: send_comm_ok_def qps_ok_def send_width_def)
  obtain c where c: "chunk_size (to_int32 sz) (int (send_width C comm)) = Some c" "0 \<le> c"
      "int (send_width C comm) * c < to_int32 sz + 128 * int (send_width C comm)"
    using chunk_size_ok [OF assms(6) n assms(7)] by blast
  have q: "q < length (reqs comm)" "rq_type (reqs comm ! q) = REQ_UNUSED" using get_request_loop_SomeD [OF assms(5)] by auto
  have slot: "send_slot C comm < MAX_REQUESTS C" "length (fifoReqs comm) = MAX_REQUESTS C" using assms(1) send_slot_less by (simp_all add: send_comm_ok_def)
  show thesis
  proof (rule isend_runs [OF assms(1-7) pw c, where V = V and data = data and x = x])
    fix s r res comm2 x2 rs
    let ?c = "comm\<lparr>remSizes_elems := rs, qpIndex := (qpIndex comm + send_width C comm) mod nqps comm,
        reqs := (reqs comm)[q := r\<lparr>rq_part := SendPart (s\<lparr>snd_offset := int (send_width C comm) * c\<rparr>)\<rparr>],
        fifoReqs := (fifoReqs comm)[send_slot C comm := replicate NCCL_NET_IB_MAX_RECVS None], fifoHead := fifoHead comm + 1\<rparr>"
    assume a: "anpNetIsend C V data sz mh u comm x = Some (res, Some q, comm2, x2)"
      and r: "(res, xw_w x2) = post_all V (map (chunk_post wr0 rest s c comm) [0..<send_width C comm]) (xw_w x)"
      "req_ok r" "rq_type r = REQ_SEND" "nreqs r = 1" "sum_list (events r) = int (send_width C comm)"
      "res = ncclSuccess \<longrightarrow> comm2 = ?c"
      "rs = (if u then (remSizes_elems comm)[send_slot C comm := (remSizes_elems comm ! send_slot C comm)[0 := to_int32 sz]] else remSizes_elems comm)"
      "\<forall>d<2. events r ! d = dev_posts (qps comm) (nqps comm) (qpIndex comm) (send_width C comm) d"
    have eq: "res = ncclSuccess" "comm2 = comm'" "x2 = x'" "qo = Some q" using a assms(8) by simp_all
    have "send_comm_ok C ?c" using assms(1) r(2,7) q slot unfolding send_comm_ok_def qps_ok_def
      by (auto simp: list_all_length nth_list_update NCCL_NET_IB_MAX_RECVS_def)
    then show thesis using r eq q slot chunk_post_signalled [OF pw] by (intro that [of wr0 rest s c r "int (send_width C comm) * c" rs]) simp_all
  qed
qed

text \<open>
  C2: A send accounts for its completions: after a successful send the request is a send of one message whose
  expected events are as many as the work requests posted with the signalled flag, each of which carries the request's
  index; exactly one more request is in use, the slot is free again, and the invariant of the communicator holds.
\<close>

theorem send_accounts_completions:
  assumes "send_comm_ok C comm" "ready comm" "ndevs comm \<le> length (mrs mh)" "fifoReqs comm ! send_slot C comm ! 0 = None"
    and "get_request_loop (reqs comm) 0 = Some q" "0 \<le> to_int32 sz" "to_int32 sz + 128 * int (send_width C comm) < 2 ^ 31"
    and "anpNetIsend C V data sz mh u comm x = Some (ncclSuccess, Some q, comm', x')"
  shows "\<exists>posts. (ncclSuccess, xw_w x') = post_all V posts (xw_w x) \<and>
    concat (map (signalled_ids \<circ> snd) posts) = replicate (length posts) (word_of_nat q) \<and>
    sum_list (events (reqs comm' ! q)) = int (length posts) \<and> rq_type (reqs comm' ! q) = REQ_SEND \<and> nreqs (reqs comm' ! q) = 1 \<and>
    in_use (reqs comm') = in_use (reqs comm) + 1 \<and> fifoReqs comm' ! send_slot C comm ! 0 = None \<and> fifoHead comm' = fifoHead comm + 1 \<and>
    send_comm_ok C comm'"
proof -
  obtain wr0 rest s c r rs n where r: "\<And>i. signalled_ids (snd (chunk_post wr0 rest s c comm i)) = [word_of_nat q]"
      "(ncclSuccess, xw_w x') = post_all V (map (chunk_post wr0 rest s c comm) [0..<send_width C comm]) (xw_w x)"
      "rq_type r = REQ_SEND" "nreqs r = 1" "sum_list (events r) = int (send_width C comm)"
      "comm' = comm\<lparr>remSizes_elems := rs, qpIndex := (qpIndex comm + send_width C comm) mod nqps comm,
        reqs := (reqs comm)[q := r\<lparr>rq_part := SendPart (s\<lparr>snd_offset := n\<rparr>)\<rparr>],
        fifoReqs := (fifoReqs comm)[send_slot C comm := replicate NCCL_NET_IB_MAX_RECVS None], fifoHead := fifoHead comm + 1\<rparr>"
      "send_comm_ok C comm'" and q: "q < length (reqs comm)" "rq_type (reqs comm ! q) = REQ_UNUSED" "send_slot C comm < length (fifoReqs comm)"
    by (rule isend_success [OF assms]) blast
  have "concat (map (signalled_ids \<circ> snd) (map (chunk_post wr0 rest s c comm) l)) = replicate (length l) (word_of_nat q)" for l
    by (induction l) (simp_all add: r(1))
  moreover have "int (in_use (reqs comm')) = int (in_use (reqs comm)) + 1" using r(3,6) q by (simp add: in_use_update)
  ultimately show ?thesis using r(2-7) q
    by (intro exI [of _ "map (chunk_post wr0 rest s c comm) [0..<send_width C comm]"]) (simp add: NCCL_NET_IB_MAX_RECVS_def)
qed

theorem send_accounts_completions_witness:
  "\<exists>comm' x' posts. anpNetIsend demo_cfg demo_verbs 0x7000 1000 demo_mrh False demo_send demo_xw = Some (ncclSuccess, Some 0, comm', x') \<and>
    (ncclSuccess, xw_w x') = post_all demo_verbs posts (xw_w demo_xw) \<and> concat (map (signalled_ids \<circ> snd) posts) = replicate (length posts) 0 \<and>
    sum_list (events (reqs comm' ! 0)) = int (length posts) \<and> send_comm_ok demo_cfg comm'"
proof -
  have f: "ready demo_send" "ndevs demo_send \<le> length (mrs demo_mrh)" "fifoReqs demo_send ! send_slot demo_cfg demo_send ! 0 = None"
    "get_request_loop (reqs demo_send) 0 = Some 0" "to_int32 1000 = 1000" "send_width demo_cfg demo_send = 2"
    by code_simp+
  have "map_option (\<lambda>(res, q, _). (res, q)) (anpNetIsend demo_cfg demo_verbs 0x7000 1000 demo_mrh False demo_send demo_xw) = Some (ncclSuccess, Some 0)"
    by code_simp
  then obtain comm' x' where r: "anpNetIsend demo_cfg demo_verbs 0x7000 1000 demo_mrh False demo_send demo_xw = Some (ncclSuccess, Some 0, comm', x')"
    by auto
  show ?thesis using send_accounts_completions [OF demo_send_ok f(1-4) _ _ r] r by (auto simp: f(5,6))
qed

text \<open>
  A send that cannot proceed changes nothing: on a communicator that is not ready it is an error, while the
  slot still holds an unfinished request it asks the caller to retry, and without an unused request it is an error.
\<close>

lemma isend_refused:
  assumes "send_comm_ok C comm"
  shows "\<not> ready comm \<Longrightarrow> anpNetIsend C V data sz mh u comm x = Some (ncclInternalError, None, comm, x)"
    and "ready comm \<Longrightarrow> fifoReqs comm ! send_slot C comm ! 0 \<noteq> None \<Longrightarrow> anpNetIsend C V data sz mh u comm x = Some (ncclSuccess, None, comm, x)"
    and "ready comm \<Longrightarrow> fifoReqs comm ! send_slot C comm ! 0 = None \<Longrightarrow> get_request_loop (reqs comm) 0 = None \<Longrightarrow>
      anpNetIsend C V data sz mh u comm x = Some (ncclInternalError, None, comm, x)"
proof -
  have slot: "send_slot C comm < length (fifoReqs comm)" using assms send_slot_less by (simp add: send_comm_ok_def)
  have row: "length (fifoReqs comm ! send_slot C comm) = 8"
    using assms slot by (auto simp: send_comm_ok_def list_all_length NCCL_NET_IB_MAX_RECVS_def)
  show "\<not> ready comm \<Longrightarrow> anpNetIsend C V data sz mh u comm x = Some (ncclInternalError, None, comm, x)"
    "ready comm \<Longrightarrow> fifoReqs comm ! send_slot C comm ! 0 \<noteq> None \<Longrightarrow> anpNetIsend C V data sz mh u comm x = Some (ncclSuccess, None, comm, x)"
    "ready comm \<Longrightarrow> fifoReqs comm ! send_slot C comm ! 0 = None \<Longrightarrow> get_request_loop (reqs comm) 0 = None \<Longrightarrow>
      anpNetIsend C V data sz mh u comm x = Some (ncclInternalError, None, comm, x)"
    using slot row by (auto simp: anpNetIsend_def Let_def send_slot_def [symmetric] ub_simps ncclIbGetRequest_def)
qed

end
