(* ===== verification/Receive.thy ===== *)
theory Receive
  imports Sending
begin

text \<open>
  The receiving side: the clear-to-send fifo (\<open>ncclIbPostFifo\<close>), \<open>anpNetIrecv\<close> in its two variants and
  \<open>anpNetFlush\<close>.  A receive takes lists of \<open>n\<close> addresses, sizes, tags and memory handles; a shorter
  list is undefined.  The request handed out is \<open>None\<close> where the source leaves \<open>*request\<close> as it was.
\<close>

subsection \<open>Clear to send\<close>

definition MAX_INLINE_DATA_SIZE :: nat where "MAX_INLINE_DATA_SIZE = 24"
definition sizeof_SendFifo :: nat where "sizeof_SendFifo = 32"

fun clear_sizes :: "int list \<Rightarrow> nat \<Rightarrow> nat \<Rightarrow> int list option" where
  "clear_sizes row i 0 = Some row"
| "clear_sizes row i (Suc n) = do { row \<leftarrow> arr_set row i 0; clear_sizes row (Suc i) n }"

fun put_rkeys :: "ncclIbMrHandle \<Rightarrow> nat \<Rightarrow> nat \<Rightarrow> u32 list \<Rightarrow> u32 list option" where
  "put_rkeys mh j 0 ks = Some ks"
| "put_rkeys mh j (Suc n) ks = do { m \<leftarrow> arr_get (mrs mh) j; ks \<leftarrow> arr_set ks j (rkey m); put_rkeys mh (Suc j) n ks }"

fun fill_elems :: "nat \<Rightarrow> nat \<Rightarrow> u64 \<Rightarrow> u64 list \<Rightarrow> u64 list \<Rightarrow> int list \<Rightarrow> ncclIbMrHandle list \<Rightarrow> nat \<Rightarrow> nat \<Rightarrow>
    ncclIbSendFifo list \<Rightarrow> ncclIbSendFifo list option" where
  "fill_elems nd nr tail data sizes tags mhs i 0 row = Some row"
| "fill_elems nd nr tail data sizes tags mhs i (Suc n) row = do {
     a \<leftarrow> arr_get data i;
     mh \<leftarrow> arr_get mhs i;
     e \<leftarrow> arr_get row i;
     ks \<leftarrow> put_rkeys mh 0 nd (f_rkeys e);
     sz \<leftarrow> arr_get sizes i;
     t \<leftarrow> arr_get tags i;
     fill_elems nd nr tail data sizes tags mhs (Suc i) n
       (row[i := \<lparr>f_addr = a, f_rkeys = ks, f_size = ucast sz, f_nreqs = word_of_nat nr, f_tag = word_of_int t, f_idx = ucast (tail + 1)\<rparr>]) }"

definition cts_slot :: "xcfg \<Rightarrow> ncclIbRecvComm \<Rightarrow> nat" where
  "cts_slot C comm = unat (fifoTail comm mod word_of_nat (MAX_REQUESTS C))"

text \<open>\<open>slot == ctsQp->ctsQpSlot\<close>: the \<open>int8_t\<close> is promoted to \<open>int\<close>.\<close>

definition cts_signalled :: "xcfg \<Rightarrow> ncclIbRecvComm \<Rightarrow> ncclIbQp \<Rightarrow> bool" where
  "cts_signalled C comm e \<longleftrightarrow> int (cts_slot C comm) = sint (ctsQpSlot e)"

definition cts_telemetry :: "xcfg \<Rightarrow> u32 \<Rightarrow> bool \<Rightarrow> 'w xw \<Rightarrow> 'w xw" where
  "cts_telemetry C qpn sig x =
     tele C [T_update_cts_send qpn, if sig then T_increment_cts_signalled qpn else T_increment_cts_unsignalled qpn]
       (count C (\<lambda>d. let d = d\<lparr>num_cts_sent := num_cts_sent d + 1\<rparr>
                     in if sig then d\<lparr>num_signalled_cts_sent := num_signalled_cts_sent d + 1\<rparr> else d) x)"

text \<open>Lines 2283-2356: the element, the scatter entry, the request's bookkeeping and the work request.\<close>

definition prepare_cts :: "xcfg \<Rightarrow> nat \<Rightarrow> u64 list \<Rightarrow> u64 list \<Rightarrow> int list \<Rightarrow> ncclIbMrHandle list \<Rightarrow> nat \<Rightarrow>
    ncclIbRecvComm \<Rightarrow> (ncclIbQp \<times> ibv_send_wr \<times> ncclIbRecvComm) option" where
  "prepare_cts C n data sizes tags mhs q comm = (let slot = cts_slot C comm in do {
     comm \<leftarrow> set_req q (\<lambda>r. Some (r\<lparr>rq_part := RecvPart slot\<rparr>)) comm;
     srow \<leftarrow> arr_get (sizesFifo comm) slot;
     srow \<leftarrow> clear_sizes srow 0 n;
     e \<leftarrow> arr_get (qps comm) (qpIndex comm);
     row \<leftarrow> arr_get (remFifo_elems comm) slot;
     row \<leftarrow> fill_elems (ndevs comm) n (fifoTail comm) data sizes tags mhs 0 n row;
     rd \<leftarrow> arr_get (remDevs comm) (remDevIdx e);
     g \<leftarrow> arr_get (fifoSge comm) (devIndex e);
     let off = word_of_nat (slot * NCCL_NET_IB_MAX_RECVS * sizeof_SendFifo);
     let g = g\<lparr>sge_addr := elems_addr comm + off, sge_length := word_of_nat MAX_INLINE_DATA_SIZE\<rparr>;
     let sig = cts_signalled C comm e;
     let wr = zero_wr\<lparr>remote_addr := remFifo_addr comm + off, wr_rkey := fifoRkey rd, sg_list := Some g, opcode := IBV_WR_RDMA_WRITE,
                      send_flags := (if remFifo_inline comm then [IBV_SEND_INLINE] else []) @ (if sig then [IBV_SEND_SIGNALED] else []),
                      wr_id := (if sig then word_of_nat q else 0)\<rparr>;
     comm \<leftarrow> (if sig then set_req q (ncclIbAddEvent (devIndex e)) comm else Some comm);
     Some (e, wr, comm\<lparr>sizesFifo := (sizesFifo comm)[slot := srow], remFifo_elems := (remFifo_elems comm)[slot := row],
                       fifoSge := (fifoSge comm)[devIndex e := g]\<rparr>) })"

definition ncclIbPostFifo :: "xcfg \<Rightarrow> 'w data_verbs \<Rightarrow> nat \<Rightarrow> u64 list \<Rightarrow> u64 list \<Rightarrow> int list \<Rightarrow> ncclIbMrHandle list \<Rightarrow> nat \<Rightarrow>
    ncclIbRecvComm \<Rightarrow> 'w xw \<Rightarrow> (ncclResult \<times> ncclIbRecvComm \<times> 'w xw) option" where
  "ncclIbPostFifo C V n data sizes tags mhs q comm x = do {
     (e, wr, comm') \<leftarrow> prepare_cts C n data sizes tags mhs q comm;
     p \<leftarrow> qp e;
     case v_post_send V p [wr] (xw_w x) of (res, w) \<Rightarrow>
     let x = x\<lparr>xw_w := w\<rparr> in
     if res \<noteq> ncclSuccess then Some (res, comm', x)
     else Some (ncclSuccess, comm'\<lparr>fifoTail := fifoTail comm + 1, qpIndex := (qpIndex comm + 1) mod nqps comm\<rparr>,
                cts_telemetry C (qp_num p) (cts_signalled C comm e) x) }"

subsection \<open>Receiving\<close>

definition new_recv :: "nat \<Rightarrow> nat \<Rightarrow> ncclIbRequest \<Rightarrow> ncclIbRequest option" where
  "new_recv n nd r = (if nd \<le> length (devBases r)
     then Some (r\<lparr>rq_type := REQ_RECV, nreqs := int n, devBases := map Some [0..<nd] @ drop nd (devBases r)\<rparr>) else None)"

text \<open>
  The loop that posts the receives.  It counts a local \<open>qpIndex\<close> that nothing reads: every receive goes to
  \<open>comm->base.qps + comm->base.qpIndex\<close>.
\<close>

fun post_recvs :: "xcfg \<Rightarrow> 'w data_verbs \<Rightarrow> nat \<Rightarrow> nat \<Rightarrow> ncclIbRecvComm \<Rightarrow> 'w xw \<Rightarrow> (bool \<times> ncclIbRecvComm \<times> 'w xw) option" where
  "post_recvs C V q 0 comm x = Some (True, comm, x)"
| "post_recvs C V q (Suc n) comm x = do {
     e \<leftarrow> arr_get (qps comm) (qpIndex comm);
     comm \<leftarrow> set_req q (ncclIbAddEvent (devIndex e)) comm;
     p \<leftarrow> qp e;
     case v_post_recv V p (word_of_nat q) (xw_w x) of (res, w) \<Rightarrow>
     let x = x\<lparr>xw_w := w\<rparr> in
     if res \<noteq> ncclSuccess then Some (False, comm, x)
     else post_recvs C V q n comm
       (tele C [T_increment_num_recv_wqe (qp_num p)] (count C (\<lambda>d. d\<lparr>num_recv_wqe := num_recv_wqe d + 1\<rparr>) x)) }"

definition anpNetIrecvDefault :: "xcfg \<Rightarrow> 'w data_verbs \<Rightarrow> nat \<Rightarrow> u64 list \<Rightarrow> u64 list \<Rightarrow> int list \<Rightarrow> ncclIbMrHandle list \<Rightarrow>
    ncclIbRecvComm \<Rightarrow> 'w xw \<Rightarrow> (ncclResult \<times> nat option \<times> ncclIbRecvComm \<times> 'w xw) option" where
  "anpNetIrecvDefault C V n data sizes tags mhs comm x =
     (if \<not> ready comm then Some (ncclInternalError, None, comm, x)
      else if NCCL_NET_IB_MAX_RECVS < n then Some (ncclInternalError, None, comm, x)
      else case ncclIbGetRequest comm of (res, qo, comm) \<Rightarrow>
        if res \<noteq> ncclSuccess then Some (res, None, comm, x)
        else do {
          q \<leftarrow> qo;
          comm \<leftarrow> set_req q (new_recv n (ndevs comm)) comm;
          (posted, comm, x) \<leftarrow> post_recvs C V q (send_width C comm) comm x;
          if \<not> posted then do { comm \<leftarrow> ncclIbFreeRequest q comm; Some (ncclSuccess, None, comm, x) }
          else do {
            (res, comm, x) \<leftarrow> ncclIbPostFifo C V n data sizes tags mhs q comm x;
            if res \<noteq> ncclSuccess then do { comm \<leftarrow> ncclIbFreeRequest q comm; Some (res, None, comm, x) }
            else Some (ncclSuccess, Some q, comm, x) } })"

definition anpNetIrecvPostCTS :: "xcfg \<Rightarrow> 'w data_verbs \<Rightarrow> nat \<Rightarrow> u64 list \<Rightarrow> u64 list \<Rightarrow> int list \<Rightarrow> ncclIbMrHandle list \<Rightarrow>
    ncclIbRecvComm \<Rightarrow> 'w xw \<Rightarrow> (ncclResult \<times> nat option \<times> ncclIbRecvComm \<times> 'w xw) option" where
  "anpNetIrecvPostCTS C V n data sizes tags mhs comm x =
     (if \<not> ready comm then Some (ncclInternalError, None, comm, x)
      else if NCCL_NET_IB_MAX_RECVS < n then Some (ncclInternalError, None, comm, x)
      else case ncclIbGetRequest comm of (res, qo, comm) \<Rightarrow>
        if res \<noteq> ncclSuccess then Some (res, None, comm, x)
        else do {
          q \<leftarrow> qo;
          comm \<leftarrow> set_req q (new_recv n (ndevs comm)) comm;
          (res, comm, x) \<leftarrow> ncclIbPostFifo C V n data sizes tags mhs q comm x;
          if res \<noteq> ncclSuccess then Some (res, None, comm, x) else Some (ncclSuccess, Some q, comm, x) })"

text \<open>\<open>opt\<close>: the caller set \<open>*request\<close> to \<open>NCCL_NET_OPTIONAL_RECV_COMPLETION\<close>.\<close>

definition anpNetIrecv :: "xcfg \<Rightarrow> 'w data_verbs \<Rightarrow> bool \<Rightarrow> nat \<Rightarrow> u64 list \<Rightarrow> u64 list \<Rightarrow> int list \<Rightarrow> ncclIbMrHandle list \<Rightarrow>
    ncclIbRecvComm \<Rightarrow> 'w xw \<Rightarrow> (ncclResult \<times> nat option \<times> ncclIbRecvComm \<times> 'w xw) option" where
  "anpNetIrecv C V opt n data sizes tags mhs comm x =
     (if opt then anpNetIrecvPostCTS C V n data sizes tags mhs comm x else anpNetIrecvDefault C V n data sizes tags mhs comm x)"

subsection \<open>Flushing\<close>

fun last_nonzero :: "int list \<Rightarrow> nat \<Rightarrow> nat option \<Rightarrow> nat option" where
  "last_nonzero [] i acc = acc"
| "last_nonzero (s # ss) i acc = last_nonzero ss (Suc i) (if s \<noteq> 0 then Some i else acc)"

definition flush_wr :: "nat \<Rightarrow> ncclIbGpuFlush \<Rightarrow> u64 \<Rightarrow> u32 \<Rightarrow> ibv_send_wr" where
  "flush_wr q g a k = zero_wr\<lparr>wr_id := word_of_nat q, remote_addr := a, wr_rkey := k, sg_list := Some (fl_sge g)\<rparr>"

fun flush_devs :: "xcfg \<Rightarrow> 'w data_verbs \<Rightarrow> nat \<Rightarrow> u64 \<Rightarrow> ncclIbMrHandle \<Rightarrow> nat \<Rightarrow> nat \<Rightarrow> ncclIbRecvComm \<Rightarrow> 'w xw \<Rightarrow> (ncclResult \<times> ncclIbRecvComm \<times> 'w xw) option" where
  "flush_devs C V q addr mh i 0 comm x = Some (ncclSuccess, comm, x)"
| "flush_devs C V q addr mh i (Suc n) comm x = do {
     g \<leftarrow> arr_get (gpuFlush comm) i;
     p \<leftarrow> qp (fl_qp g);
     (a, k) \<leftarrow> (if flushNoRelaxed C then do { m \<leftarrow> gpuMr g; Some (gpuFlushGpuMem g, rkey m) }
               else do { m \<leftarrow> arr_get (mrs mh) i; Some (addr, rkey m) });
     case (if flushNoRelaxed C then v_post_send V p [flush_wr q g a k] (xw_w x) else (ncclSuccess, xw_w x)) of (res, w) \<Rightarrow>
     let x = x\<lparr>xw_w := w\<rparr> in
     if res \<noteq> ncclSuccess then Some (res, comm, x)
     else case v_post_send V p [(flush_wr q g a k)\<lparr>opcode := IBV_WR_RDMA_READ, send_flags := [IBV_SEND_SIGNALED]\<rparr>] (xw_w x) of (res, w) \<Rightarrow>
     let x = x\<lparr>xw_w := w\<rparr> in
     if res \<noteq> ncclSuccess then Some (res, comm, x)
     else do {
       comm \<leftarrow> set_req q (ncclIbAddEvent i) comm;
       flush_devs C V q addr mh (Suc i) n comm x } }"

definition anpNetFlush :: "xcfg \<Rightarrow> 'w data_verbs \<Rightarrow> u64 list \<Rightarrow> int list \<Rightarrow> ncclIbMrHandle list \<Rightarrow> ncclIbRecvComm \<Rightarrow> 'w xw \<Rightarrow>
    (ncclResult \<times> nat option \<times> ncclIbRecvComm \<times> 'w xw) option" where
  "anpNetFlush C V data sizes mhs comm x = (case last_nonzero sizes 0 None of
     None \<Rightarrow> Some (ncclSuccess, None, comm, x)
   | Some l \<Rightarrow> if \<not> flushEnabled comm then Some (ncclSuccess, None, comm, x)
     else case ncclIbGetRequest comm of (res, qo, comm) \<Rightarrow>
       if res \<noteq> ncclSuccess then Some (res, None, comm, x)
       else do {
         q \<leftarrow> qo;
         comm \<leftarrow> set_req q (\<lambda>r. Some (r\<lparr>rq_type := REQ_FLUSH\<rparr>)) comm;
         mh \<leftarrow> arr_get mhs l;
         a \<leftarrow> arr_get data l;
         (res, comm, x) \<leftarrow> flush_devs C V q a mh 0 (ndevs comm) comm x;
         if res \<noteq> ncclSuccess then Some (res, None, comm, x) else Some (ncclSuccess, Some q, comm, x) })"

subsection \<open>The bytes of a fifo element\<close>

text \<open>
  \<open>struct ncclIbSendFifo\<close> is packed: address, key, size, number of requests, tag and index are the first 23 of its 32 bytes.
\<close>

definition mem_bytes :: "nat \<Rightarrow> 'a::len word \<Rightarrow> byte list" where
  "mem_bytes k w = map (\<lambda>i. ucast (drop_bit (8 * i) w)) [0..<k]"

definition elem_bytes :: "ncclIbSendFifo \<Rightarrow> byte list" where
  "elem_bytes e = mem_bytes 8 (f_addr e) @ mem_bytes 4 (hd (f_rkeys e)) @ mem_bytes 4 (f_size e) @ mem_bytes 1 (f_nreqs e) @
     mem_bytes 2 (f_tag e) @ mem_bytes 4 (f_idx e) @ replicate 9 0"

definition load_bytes :: "byte list \<Rightarrow> 'a::len word" where
  "load_bytes bs = foldr (\<lambda>b acc. ucast b OR push_bit 8 acc) bs 0"

definition load_elem :: "byte list \<Rightarrow> ncclIbSendFifo" where
  "load_elem bs = \<lparr>f_addr = load_bytes (take 8 bs), f_rkeys = [load_bytes (take 4 (drop 8 bs))], f_size = load_bytes (take 4 (drop 12 bs)),
     f_nreqs = load_bytes (take 1 (drop 16 bs)), f_tag = load_bytes (take 2 (drop 17 bs)), f_idx = load_bytes (take 4 (drop 19 bs))\<rparr>"

lemma length_mem_bytes [simp]: "length (mem_bytes k w) = k"
  by (simp add: mem_bytes_def)

lemma mem_bytes_Suc: "mem_bytes (Suc k) w = ucast w # mem_bytes k (drop_bit 8 w)"
proof -
  have "[0..<Suc k] = 0 # map Suc [0..<k]" by (simp add: upt_conv_Cons map_Suc_upt del: upt_Suc)
  then show ?thesis by (simp add: mem_bytes_def comp_def add.commute del: upt_Suc)
qed

lemma load_mem_bytes: "load_bytes (mem_bytes k w) = (take_bit (8 * k) w :: 'a::len word)"
proof (induction k arbitrary: w)
  case 0
  then show ?case by (simp add: load_bytes_def mem_bytes_def)
next
  case (Suc k)
  have "load_bytes (mem_bytes (Suc k) w) = ucast (ucast w :: byte) OR push_bit 8 (take_bit (8 * k) (drop_bit 8 w))"
    using Suc [of "drop_bit 8 w"] by (simp add: mem_bytes_Suc load_bytes_def)
  also have "\<dots> = take_bit (8 * Suc k) w"
    by (rule bit_word_eqI) (auto simp: bit_simps)
  finally show ?case .
qed

lemma load_mem_bytes_full: "8 * k = LENGTH('a) \<Longrightarrow> load_bytes (mem_bytes k w) = (w :: 'a::len word)"
  by (simp add: load_mem_bytes)

subsection \<open>The effect of posting to the fifo\<close>

text \<open>The invariant of a receive communicator.\<close>

definition recv_comm_ok :: "xcfg \<Rightarrow> ncclIbRecvComm \<Rightarrow> bool" where
  "recv_comm_ok C comm \<longleftrightarrow> 0 < MAX_REQUESTS C \<and> MAX_REQUESTS C \<le> 256 \<and> qps_ok comm \<and>
     length (reqs comm) = MAX_REQUESTS C \<and> list_all req_ok (reqs comm) \<and>
     length (sizesFifo comm) = MAX_REQUESTS C \<and> list_all (\<lambda>row. length row = NCCL_NET_IB_MAX_RECVS) (sizesFifo comm) \<and>
     length (remFifo_elems comm) = MAX_REQUESTS C \<and>
     list_all (\<lambda>row. length row = NCCL_NET_IB_MAX_RECVS \<and> list_all (\<lambda>e. length (f_rkeys e) = 1) row) (remFifo_elems comm) \<and>
     length (remDevs comm) = 2 \<and> length (fifoSge comm) = 2 \<and> (\<forall>i<nqps comm. remDevIdx (qps comm ! i) < 2)"

lemma cts_slot_less: "0 < MAX_REQUESTS C \<Longrightarrow> MAX_REQUESTS C \<le> 256 \<Longrightarrow> cts_slot C comm < MAX_REQUESTS C"
proof -
  assume m: "0 < MAX_REQUESTS C" "MAX_REQUESTS C \<le> 256"
  then have u: "unat (word_of_nat (MAX_REQUESTS C) :: u64) = MAX_REQUESTS C" by (simp add: unsigned_of_nat take_bit_nat_eq_self)
  show ?thesis unfolding cts_slot_def unat_mod_distrib u using m(1) by simp
qed

lemma clear_sizes_ok: "i + n \<le> length row \<Longrightarrow> \<exists>row'. clear_sizes row i n = Some row' \<and> length row' = length row \<and> (\<forall>j. i \<le> j \<and> j < i + n \<longrightarrow> row' ! j = 0) \<and> (\<forall>j<i. row' ! j = row ! j)"
proof (induction n arbitrary: i row)
  case 0
  then show ?case by auto
next
  case (Suc n)
  then obtain row' where row': "clear_sizes (row[i := 0]) (Suc i) n = Some row'" "length row' = length row"
      "\<forall>j. Suc i \<le> j \<and> j < Suc i + n \<longrightarrow> row' ! j = 0" "\<forall>j<Suc i. row' ! j = row[i := 0] ! j"
    by (metis Suc_leI add_Suc_shift length_list_update)
  have "row' ! j = 0" if "i \<le> j \<and> j < i + Suc n" for j
    using that row'(3,4) Suc.prems by (cases "j = i") auto
  then show ?case using row' Suc.prems by (auto simp: ub_simps)
qed

lemma fill_elems_ok:
  assumes "i + n \<le> length data" "i + n \<le> length sizes" "i + n \<le> length tags" "i + n \<le> length mhs" "i + n \<le> length row"
    and "\<forall>j<length mhs. mrs (mhs ! j) \<noteq> []" "list_all (\<lambda>e. length (f_rkeys e) = 1) row"
  shows "\<exists>row'. fill_elems 1 nr tail data sizes tags mhs i n row = Some row' \<and> length row' = length row \<and> list_all (\<lambda>e. length (f_rkeys e) = 1) row' \<and>
    (\<forall>j<i. row' ! j = row ! j) \<and> (\<forall>j. i \<le> j \<and> j < i + n \<longrightarrow> row' ! j = \<lparr>f_addr = data ! j, f_rkeys = [rkey (hd (mrs (mhs ! j)))], f_size = ucast (sizes ! j),
       f_nreqs = word_of_nat nr, f_tag = word_of_int (tags ! j), f_idx = ucast (tail + 1)\<rparr>)"
  using assms
proof (induction n arbitrary: i row)
  case 0
  then show ?case by auto
next
  case (Suc n)
  let ?e = "\<lparr>f_addr = data ! i, f_rkeys = [rkey (hd (mrs (mhs ! i)))], f_size = ucast (sizes ! i),
       f_nreqs = word_of_nat nr, f_tag = word_of_int (tags ! i), f_idx = ucast (tail + 1)\<rparr> :: ncclIbSendFifo"
  have i: "i < length data" "i < length sizes" "i < length tags" "i < length mhs" "i < length row" using Suc.prems by auto
  have m: "mrs (mhs ! i) \<noteq> []" using Suc.prems(6) i by simp
  have l1: "length (f_rkeys (row ! i)) = 1" using Suc.prems(7) i by (simp add: list_all_length)
  have "put_rkeys (mhs ! i) 0 1 (f_rkeys (row ! i)) = Some [rkey (hd (mrs (mhs ! i)))]"
    using m l1 by (cases "f_rkeys (row ! i)") (auto simp: arr_get_def arr_set_def hd_conv_nth)
  then have step: "fill_elems 1 nr tail data sizes tags mhs i (Suc n) row = fill_elems 1 nr tail data sizes tags mhs (Suc i) n (row[i := ?e])"
    using i by (simp add: ub_simps del: put_rkeys.simps One_nat_def)
  have "list_all (\<lambda>e. length (f_rkeys e) = 1) (row[i := ?e])" using Suc.prems(7) by (auto simp: list_all_iff dest!: set_update_subset_insert [THEN subsetD])
  then obtain row' where row': "fill_elems 1 nr tail data sizes tags mhs (Suc i) n (row[i := ?e]) = Some row'" "length row' = length row"
      "list_all (\<lambda>e. length (f_rkeys e) = 1) row'" "\<forall>j<Suc i. row' ! j = row[i := ?e] ! j"
      "\<forall>j. Suc i \<le> j \<and> j < Suc i + n \<longrightarrow> row' ! j = \<lparr>f_addr = data ! j, f_rkeys = [rkey (hd (mrs (mhs ! j)))], f_size = ucast (sizes ! j),
       f_nreqs = word_of_nat nr, f_tag = word_of_int (tags ! j), f_idx = ucast (tail + 1)\<rparr>"
    using Suc.IH [of "Suc i" "row[i := ?e]"] Suc.prems(1-6) by auto
  have "row' ! j = \<lparr>f_addr = data ! j, f_rkeys = [rkey (hd (mrs (mhs ! j)))], f_size = ucast (sizes ! j),
       f_nreqs = word_of_nat nr, f_tag = word_of_int (tags ! j), f_idx = ucast (tail + 1)\<rparr>" if "i \<le> j \<and> j < i + Suc n" for j
    using that row'(4,5) i(5) by (cases "j = i") auto
  moreover have "\<forall>j<i. row' ! j = row ! j" using row'(4) by auto
  moreover have "fill_elems 1 nr tail data sizes tags mhs i (Suc n) row = Some row'" using step row'(1) by (rule trans)
  ultimately show ?case using row'(2,3) by (intro exI [of _ row'] conjI allI impI) (simp_all del: fill_elems.simps One_nat_def)
qed

text \<open>Two devices: the second key is written outside \<open>rkeys[1]\<close>.\<close>

lemma put_rkeys_overrun: "length ks < j + n \<Longrightarrow> j \<le> length ks \<Longrightarrow> put_rkeys mh j n ks = None"
proof (induction n arbitrary: j ks)
  case 0
  then show ?case by simp
next
  case (Suc n)
  then show ?case by (cases "j = length ks") (auto simp: arr_get_def arr_set_def bind_eq_None_conv)
qed

text \<open>The request after posting its clear-to-send.\<close>

definition cts_req :: "xcfg \<Rightarrow> ncclIbRecvComm \<Rightarrow> ncclIbQp \<Rightarrow> ncclIbRequest \<Rightarrow> ncclIbRequest" where
  "cts_req C comm e r = (let r = r\<lparr>rq_part := RecvPart (cts_slot C comm)\<rparr> in
     if cts_signalled C comm e then r\<lparr>events := (events r)[devIndex e := events r ! devIndex e + 1], devBases := (devBases r)[devIndex e := Some (devIndex e)]\<rparr> else r)"

text \<open>The work request that carries the fifo element.\<close>

definition cts_wr :: "xcfg \<Rightarrow> ncclIbRecvComm \<Rightarrow> ncclIbQp \<Rightarrow> nat \<Rightarrow> ibv_send_wr" where
  "cts_wr C comm e q = (let off = word_of_nat (cts_slot C comm * NCCL_NET_IB_MAX_RECVS * sizeof_SendFifo) in
     zero_wr\<lparr>remote_addr := remFifo_addr comm + off, wr_rkey := fifoRkey (remDevs comm ! remDevIdx e),
       sg_list := Some ((fifoSge comm ! devIndex e)\<lparr>sge_addr := elems_addr comm + off, sge_length := word_of_nat MAX_INLINE_DATA_SIZE\<rparr>),
       send_flags := (if remFifo_inline comm then [IBV_SEND_INLINE] else []) @ (if cts_signalled C comm e then [IBV_SEND_SIGNALED] else []),
       wr_id := (if cts_signalled C comm e then word_of_nat q else 0)\<rparr>)"

definition recv_args_ok :: "nat \<Rightarrow> u64 list \<Rightarrow> u64 list \<Rightarrow> int list \<Rightarrow> ncclIbMrHandle list \<Rightarrow> bool" where
  "recv_args_ok n data sizes tags mhs \<longleftrightarrow> n \<le> NCCL_NET_IB_MAX_RECVS \<and> n \<le> length data \<and> n \<le> length sizes \<and> n \<le> length tags \<and>
     n \<le> length mhs \<and> (\<forall>j<length mhs. mrs (mhs ! j) \<noteq> [])"

lemma cts_req_ok: "req_ok r \<Longrightarrow> devIndex e < 2 \<Longrightarrow> req_ok (cts_req C comm e r)"
  using add_event_ok(2) [of "r\<lparr>rq_part := RecvPart (cts_slot C comm)\<rparr>" "devIndex e"] by (simp add: cts_req_def Let_def)

lemma cts_req_events: "req_ok r \<Longrightarrow> devIndex e < 2 \<Longrightarrow>
    sum_list (events (cts_req C comm e r)) = sum_list (events r) + (if cts_signalled C comm e then 1 else 0)"
  by (simp add: cts_req_def Let_def req_ok_def sum_list_bump)

lemma cts_req_simps [simp]: "rq_type (cts_req C comm e r) = rq_type r" "nreqs (cts_req C comm e r) = nreqs r"
  "rq_part (cts_req C comm e r) = RecvPart (cts_slot C comm)"
  by (simp_all add: cts_req_def Let_def)

lemma post_fifo_runs:
  fixes comm :: ncclIbRecvComm and C :: xcfg
  defines "e \<equiv> qps comm ! qpIndex comm" and "slot \<equiv> cts_slot C comm"
  assumes ok: "recv_comm_ok C comm" and nd: "ndevs comm = 1" and args: "recv_args_ok n data sizes tags mhs" and q: "q < MAX_REQUESTS C"
    and w: "v_post_send V (the (qp e)) [cts_wr C comm e q] (xw_w x) = (res, w)"
  shows "\<exists>comm' x' row srow sge. ncclIbPostFifo C V n data sizes tags mhs q comm x = Some (res, comm', x') \<and> xw_w x' = w \<and>
    comm' = comm\<lparr>reqs := (reqs comm)[q := cts_req C comm e (reqs comm ! q)], sizesFifo := (sizesFifo comm)[slot := srow],
      remFifo_elems := (remFifo_elems comm)[slot := row], fifoSge := (fifoSge comm)[devIndex e := sge],
      fifoTail := (if res = ncclSuccess then fifoTail comm + 1 else fifoTail comm),
      qpIndex := (if res = ncclSuccess then (qpIndex comm + 1) mod nqps comm else qpIndex comm)\<rparr> \<and>
    length srow = NCCL_NET_IB_MAX_RECVS \<and> (\<forall>j<n. srow ! j = 0) \<and> length row = NCCL_NET_IB_MAX_RECVS \<and> list_all (\<lambda>e. length (f_rkeys e) = 1) row \<and>
    (\<forall>j<n. row ! j = \<lparr>f_addr = data ! j, f_rkeys = [rkey (hd (mrs (mhs ! j)))], f_size = ucast (sizes ! j), f_nreqs = word_of_nat n,
       f_tag = word_of_int (tags ! j), f_idx = ucast (fifoTail comm + 1)\<rparr>)"
proof -
  have M: "0 < MAX_REQUESTS C" "MAX_REQUESTS C \<le> 256" and qok: "qps_ok comm" and len: "length (reqs comm) = MAX_REQUESTS C"
    "length (sizesFifo comm) = MAX_REQUESTS C" "length (remFifo_elems comm) = MAX_REQUESTS C" "length (remDevs comm) = 2" "length (fifoSge comm) = 2"
    using ok by (auto simp: recv_comm_ok_def)
  have slot: "slot < MAX_REQUESTS C" unfolding slot_def using M by (rule cts_slot_less)
  have rows: "length (sizesFifo comm ! slot) = 8" "length (remFifo_elems comm ! slot) = 8" "list_all (\<lambda>e. length (f_rkeys e) = 1) (remFifo_elems comm ! slot)"
    using ok slot by (auto simp: recv_comm_ok_def list_all_length NCCL_NET_IB_MAX_RECVS_def)
  have qi: "qpIndex comm < nqps comm" "qpIndex comm < length (qps comm)" using qok by (auto simp: qps_ok_def)
  have e: "qp e = Some (the (qp e))" "devIndex e = 0" "remDevIdx e < 2" using qok qi nd ok by (auto simp: qps_ok_def e_def recv_comm_ok_def)
  have rok: "req_ok (reqs comm ! q)" using ok q by (auto simp: recv_comm_ok_def list_all_length)
  obtain srow where srow: "clear_sizes (sizesFifo comm ! slot) 0 n = Some srow" "length srow = 8" "\<forall>j<n. srow ! j = 0"
    using clear_sizes_ok [of 0 n "sizesFifo comm ! slot"] args rows(1) by (auto simp: recv_args_ok_def NCCL_NET_IB_MAX_RECVS_def)
  obtain row where row: "fill_elems 1 n (fifoTail comm) data sizes tags mhs 0 n (remFifo_elems comm ! slot) = Some row" "length row = 8"
      "list_all (\<lambda>e. length (f_rkeys e) = 1) row"
      "\<forall>j<n. row ! j = \<lparr>f_addr = data ! j, f_rkeys = [rkey (hd (mrs (mhs ! j)))], f_size = ucast (sizes ! j), f_nreqs = word_of_nat n,
       f_tag = word_of_int (tags ! j), f_idx = ucast (fifoTail comm + 1)\<rparr>"
    using fill_elems_ok [of 0 n data sizes tags mhs "remFifo_elems comm ! slot" n "fifoTail comm"] args rows by (auto simp: recv_args_ok_def NCCL_NET_IB_MAX_RECVS_def)
  let ?off = "word_of_nat (slot * NCCL_NET_IB_MAX_RECVS * sizeof_SendFifo) :: u64"
  let ?g = "(fifoSge comm ! devIndex e)\<lparr>sge_addr := elems_addr comm + ?off, sge_length := word_of_nat MAX_INLINE_DATA_SIZE\<rparr>"
  let ?comm2 = "comm\<lparr>reqs := (reqs comm)[q := cts_req C comm e (reqs comm ! q)], sizesFifo := (sizesFifo comm)[slot := srow],
      remFifo_elems := (remFifo_elems comm)[slot := row], fifoSge := (fifoSge comm)[devIndex e := ?g]\<rparr>"
  have wr: "cts_wr C comm e q = zero_wr\<lparr>remote_addr := remFifo_addr comm + ?off, wr_rkey := fifoRkey (remDevs comm ! remDevIdx e), sg_list := Some ?g, opcode := IBV_WR_RDMA_WRITE,
       send_flags := (if remFifo_inline comm then [IBV_SEND_INLINE] else []) @ (if cts_signalled C comm e then [IBV_SEND_SIGNALED] else []),
       wr_id := (if cts_signalled C comm e then word_of_nat q else 0)\<rparr>"
    by (simp add: cts_wr_def Let_def slot_def zero_wr_def)
  have ae: "ncclIbAddEvent (devIndex e) ((reqs comm ! q)\<lparr>rq_part := RecvPart slot\<rparr>) = Some (cts_req C comm e (reqs comm ! q))" if "cts_signalled C comm e"
    using add_event_ok(1) [of "(reqs comm ! q)\<lparr>rq_part := RecvPart slot\<rparr>" "devIndex e"] rok e(2) that by (simp add: cts_req_def Let_def slot_def)
  have sig: "cts_signalled C (comm\<lparr>reqs := rr\<rparr>) e = cts_signalled C comm e" for rr by (simp add: cts_signalled_def cts_slot_def)
  have prep: "prepare_cts C n data sizes tags mhs q comm = Some (e, cts_wr C comm e q, ?comm2)"
  proof (cases "cts_signalled C comm e")
    case True
    then show ?thesis unfolding prepare_cts_def Let_def slot_def [symmetric] wr
      using q len slot qi nd srow(1) row(1) e ae [OF True] sig by (simp add: set_req_def ub_simps e_def [symmetric])
  next
    case False
    then have "cts_req C comm e (reqs comm ! q) = (reqs comm ! q)\<lparr>rq_part := RecvPart slot\<rparr>" by (simp add: cts_req_def slot_def)
    then show ?thesis unfolding prepare_cts_def Let_def slot_def [symmetric] wr
      using False q len slot qi nd srow(1) row(1) e sig by (simp add: set_req_def ub_simps e_def [symmetric])
  qed
  have "ncclIbPostFifo C V n data sizes tags mhs q comm x = (case v_post_send V (the (qp e)) [cts_wr C comm e q] (xw_w x) of (res, w) \<Rightarrow>
      let x = x\<lparr>xw_w := w\<rparr> in if res \<noteq> ncclSuccess then Some (res, ?comm2, x)
      else Some (ncclSuccess, ?comm2\<lparr>fifoTail := fifoTail comm + 1, qpIndex := (qpIndex comm + 1) mod nqps comm\<rparr>, cts_telemetry C (qp_num (the (qp e))) (cts_signalled C comm e) x))"
  proof -
    obtain p where "qp e = Some p" using e(1) by (cases "qp e") auto
    then show ?thesis unfolding ncclIbPostFifo_def prep by (simp add: Let_def split: prod.split)
  qed
  then show ?thesis
    using w srow row by (intro exI [of _ "if res = ncclSuccess then ?comm2\<lparr>fifoTail := fifoTail comm + 1, qpIndex := (qpIndex comm + 1) mod nqps comm\<rparr> else ?comm2"]
        exI [of _ "if res = ncclSuccess then cts_telemetry C (qp_num (the (qp e))) (cts_signalled C comm e) (x\<lparr>xw_w := w\<rparr>) else x\<lparr>xw_w := w\<rparr>"]
        exI [of _ row] exI [of _ srow] exI [of _ ?g])
      (auto simp: Let_def cts_telemetry_def NCCL_NET_IB_MAX_RECVS_def)
qed

subsection \<open>The effect of a receive\<close>

text \<open>The request with \<open>k\<close> more events expected on device \<open>d\<close>.\<close>

definition expect :: "nat \<Rightarrow> nat \<Rightarrow> ncclIbRequest \<Rightarrow> ncclIbRequest" where
  "expect d k r = (if k = 0 then r else r\<lparr>events := (events r)[d := events r ! d + int k], devBases := (devBases r)[d := Some d]\<rparr>)"

lemma expect_ok: "req_ok r \<Longrightarrow> d < 2 \<Longrightarrow> 0 \<le> events r ! d \<Longrightarrow> req_ok (expect d k r)"
  by (auto simp: expect_def req_ok_def nth_list_update)

lemma expect_sum: "req_ok r \<Longrightarrow> d < 2 \<Longrightarrow> sum_list (events (expect d k r)) = sum_list (events r) + int k"
  by (simp add: expect_def req_ok_def sum_list_bump)

lemma expect_simps [simp]: "rq_type (expect d k r) = rq_type r" "nreqs (expect d k r) = nreqs r" "rq_part (expect d k r) = rq_part r"
  "length (events (expect d k r)) = length (events r)"
  by (simp_all add: expect_def)

lemma expect_event: "length (events r) = 2 \<Longrightarrow> d < 2 \<Longrightarrow> events (expect d k r) ! d = events r ! d + int k"
  by (simp add: expect_def)

lemma expect_Suc: "length (events r) = 2 \<Longrightarrow> length (devBases r) = 2 \<Longrightarrow> d < 2 \<Longrightarrow>
    ncclIbAddEvent d r = Some (expect d 1 r) \<and> expect d k (expect d 1 r) = expect d (Suc k) r"
  by (auto simp: ncclIbAddEvent_def expect_def ub_simps add.assoc)

lemma expect_lengths: "length (devBases (expect d k r)) = length (devBases r)"
  by (simp add: expect_def)

lemma post_recvs_runs:
  assumes "qpIndex comm < length (qps comm)" "qps comm ! qpIndex comm = e" "qp e = Some p" "devIndex e < 2"
    and "q < length (reqs comm)" "length (events (reqs comm ! q)) = 2" "length (devBases (reqs comm ! q)) = 2"
  shows "\<exists>posted k x'. post_recvs C V q n comm x = Some (posted, comm\<lparr>reqs := (reqs comm)[q := expect (devIndex e) k (reqs comm ! q)]\<rparr>, x') \<and>
    (posted \<longrightarrow> k = n)"
  using assms
proof (induction n arbitrary: comm x)
  case 0
  then show ?case by (auto simp: expect_def intro!: exI [of _ True] exI [of _ 0])
next
  case (Suc n)
  let ?r = "reqs comm ! q"
  let ?comm1 = "comm\<lparr>reqs := (reqs comm)[q := expect (devIndex e) 1 ?r]\<rparr>"
  have s: "set_req q (ncclIbAddEvent (devIndex e)) comm = Some ?comm1"
    using expect_Suc [OF Suc.prems(6,7,4), of 0] Suc.prems(5) by (simp add: set_req_def ub_simps)
  obtain res w where w: "v_post_recv V p (word_of_nat q) (xw_w x) = (res, w)" by fastforce
  show ?case
  proof (cases "res = ncclSuccess")
    case False
    then have "post_recvs C V q (Suc n) comm x = Some (False, ?comm1, x\<lparr>xw_w := w\<rparr>)"
      using Suc.prems s w by (simp add: ub_simps)
    then show ?thesis by blast
  next
    case True
    let ?x = "tele C [T_increment_num_recv_wqe (qp_num p)] (count C (\<lambda>d. d\<lparr>num_recv_wqe := num_recv_wqe d + 1\<rparr>) (x\<lparr>xw_w := w\<rparr>))"
    have step: "post_recvs C V q (Suc n) comm x = post_recvs C V q n ?comm1 ?x"
      using Suc.prems s w True by (simp add: ub_simps)
    obtain posted k x' where ih: "post_recvs C V q n ?comm1 ?x = Some (posted, ?comm1\<lparr>reqs := (reqs ?comm1)[q := expect (devIndex e) k (reqs ?comm1 ! q)]\<rparr>, x')"
        "posted \<longrightarrow> k = n"
      using Suc.IH [of ?comm1 ?x] Suc.prems by (auto simp: expect_lengths)
    have "?comm1\<lparr>reqs := (reqs ?comm1)[q := expect (devIndex e) k (reqs ?comm1 ! q)]\<rparr> = comm\<lparr>reqs := (reqs comm)[q := expect (devIndex e) (Suc k) ?r]\<rparr>"
      using expect_Suc [OF Suc.prems(6,7,4), of k] Suc.prems(5) by simp
    then have "post_recvs C V q (Suc n) comm x = Some (posted, comm\<lparr>reqs := (reqs comm)[q := expect (devIndex e) (Suc k) ?r]\<rparr>, x')"
      using step ih(1) by simp
    then show ?thesis using ih(2) by blast
  qed
qed

lemma recv_comm_ok_reqs: "recv_comm_ok C comm \<Longrightarrow> req_ok r \<Longrightarrow> recv_comm_ok C (comm\<lparr>reqs := (reqs comm)[q := r]\<rparr>)"
  by (auto simp: recv_comm_ok_def qps_ok_def list_all_iff dest!: set_update_subset_insert [THEN subsetD])

definition fresh_recv :: "nat \<Rightarrow> nat \<Rightarrow> ncclIbRequest \<Rightarrow> ncclIbRequest" where
  "fresh_recv n nd r = r\<lparr>events := [0, 0], rq_type := REQ_RECV, nreqs := int n, devBases := map Some [0..<nd] @ drop nd [None, None]\<rparr>"

lemma fresh_recv_ok: "nd \<le> 2 \<Longrightarrow> req_ok (fresh_recv n nd r)"
  by (auto simp: fresh_recv_def req_ok_def less_2_cases_iff)

lemma start_recv:
  assumes "get_request_loop (reqs comm) 0 = Some q" "ndevs comm \<le> 2"
  shows "\<exists>comm1. ncclIbGetRequest comm = (ncclSuccess, Some q, comm1) \<and>
    set_req q (new_recv n (ndevs comm1)) comm1 = Some (comm\<lparr>reqs := (reqs comm)[q := fresh_recv n (ndevs comm) (reqs comm ! q)]\<rparr>)"
proof -
  have "q < length (reqs comm)" using get_request_loop_SomeD [OF assms(1)] by auto
  then show ?thesis using assms by (simp add: ncclIbGetRequest_def set_req_def ub_simps new_recv_def fresh_recv_def)
qed

lemma free_request_runs: "q < length (reqs comm) \<Longrightarrow>
    ncclIbFreeRequest q comm = Some (comm\<lparr>reqs := (reqs comm)[q := (reqs comm ! q)\<lparr>rq_type := REQ_UNUSED\<rparr>]\<rparr>)"
  by (simp add: ncclIbFreeRequest_def ub_simps)

lemma recv_comm_ok_posted:
  assumes "recv_comm_ok C comm" "req_ok r" "length srow = 8" "length row = 8" "list_all (\<lambda>e. length (f_rkeys e) = 1) row"
  shows "recv_comm_ok C (comm\<lparr>reqs := (reqs comm)[q := r], sizesFifo := (sizesFifo comm)[slot := srow], remFifo_elems := (remFifo_elems comm)[slot := row],
    fifoSge := (fifoSge comm)[d := g], fifoTail := t, qpIndex := (if b then (qpIndex comm + 1) mod nqps comm else qpIndex comm)\<rparr>)"
  using assms by (auto simp: recv_comm_ok_def qps_ok_def list_all_iff NCCL_NET_IB_MAX_RECVS_def dest!: set_update_subset_insert [THEN subsetD])

lemma in_use_claim:
  assumes "get_request_loop rs 0 = Some q" "rq_type r \<noteq> REQ_UNUSED"
  shows "in_use (rs[q := r]) = in_use rs + 1"
  using get_request_loop_SomeD [OF assms(1)] in_use_update [of q rs r] assms(2) by auto

lemma in_use_release:
  assumes "get_request_loop rs 0 = Some q" "rq_type r = REQ_UNUSED"
  shows "in_use (rs[q := r]) = in_use rs"
  using get_request_loop_SomeD [OF assms(1)] in_use_update [of q rs r] assms(2) by auto

text \<open>The entry of the queue pair a communicator is about to use.\<close>

definition cur_qp :: "('a) ncclIbNetCommBase_scheme \<Rightarrow> ncclIbQp" where
  "cur_qp comm = qps comm ! qpIndex comm"

lemma irecv_runs:
  assumes ok: "recv_comm_ok C comm" and rdy: "ready comm" and nd: "ndevs comm = 1" and args: "recv_args_ok n data sizes tags mhs"
    and q: "get_request_loop (reqs comm) 0 = Some q"
  shows "\<exists>res qo comm' x'. anpNetIrecvDefault C V n data sizes tags mhs comm x = Some (res, qo, comm', x') \<and> recv_comm_ok C comm' \<and>
    (case qo of
       Some q' \<Rightarrow> q' = q \<and> res = ncclSuccess \<and> fifoTail comm' = fifoTail comm + 1 \<and> in_use (reqs comm') = in_use (reqs comm) + 1 \<and>
         rq_type (reqs comm' ! q) = REQ_RECV \<and> nreqs (reqs comm' ! q) = int n \<and> rq_part (reqs comm' ! q) = RecvPart (cts_slot C comm) \<and>
         sum_list (events (reqs comm' ! q)) = int (send_width C comm) + (if cts_signalled C comm (cur_qp comm) then 1 else 0) \<and>
         (\<forall>j<n. sizesFifo comm' ! cts_slot C comm ! j = 0) \<and>
         (\<forall>j<n. remFifo_elems comm' ! cts_slot C comm ! j = \<lparr>f_addr = data ! j, f_rkeys = [rkey (hd (mrs (mhs ! j)))], f_size = ucast (sizes ! j),
            f_nreqs = word_of_nat n, f_tag = word_of_int (tags ! j), f_idx = ucast (fifoTail comm + 1)\<rparr>)
     | None \<Rightarrow> in_use (reqs comm') = in_use (reqs comm) \<and> fifoTail comm' = fifoTail comm)"
proof -
  let ?r = "fresh_recv n 1 (reqs comm ! q)" and ?e = "cur_qp comm"
  let ?comm1 = "comm\<lparr>reqs := (reqs comm)[q := ?r]\<rparr>"
  have n8: "\<not> NCCL_NET_IB_MAX_RECVS < n" using args by (simp add: recv_args_ok_def)
  have qM: "q < MAX_REQUESTS C" "q < length (reqs comm)" using get_request_loop_SomeD [OF q] ok by (auto simp: recv_comm_ok_def)
  have qok: "qpIndex comm < length (qps comm)" "devIndex ?e = 0" "qp ?e \<noteq> None"
    using ok nd by (auto simp: recv_comm_ok_def qps_ok_def cur_qp_def)
  then obtain p where p: "qp ?e = Some p" by blast
  have rok: "req_ok ?r" by (rule fresh_recv_ok) simp
  have ev0: "events ?r = [0, 0]" "rq_type ?r = REQ_RECV" "nreqs ?r = int n" "length (devBases ?r) = 2" by (simp_all add: fresh_recv_def)
  obtain comm0 where st: "ncclIbGetRequest comm = (ncclSuccess, Some q, comm0)" "set_req q (new_recv n (ndevs comm0)) comm0 = Some ?comm1"
    using start_recv [OF q, of n] nd by auto
  have sw: "send_width C ?comm1 = send_width C comm" by (simp add: send_width_def)
  obtain posted k x1 where pr: "post_recvs C V q (send_width C comm) ?comm1 x = Some (posted, ?comm1\<lparr>reqs := (reqs ?comm1)[q := expect 0 k (reqs ?comm1 ! q)]\<rparr>, x1)"
      "posted \<longrightarrow> k = send_width C comm"
    using post_recvs_runs [of ?comm1 ?e p q C V "send_width C comm" x] qok p qM ev0 by (auto simp: cur_qp_def)
  let ?comm2 = "comm\<lparr>reqs := (reqs comm)[q := expect 0 k ?r]\<rparr>"
  have c2: "?comm1\<lparr>reqs := (reqs ?comm1)[q := expect 0 k (reqs ?comm1 ! q)]\<rparr> = ?comm2" using qM by simp
  have r2: "req_ok (expect 0 k ?r)" using rok ev0 by (intro expect_ok) auto
  then have ok2: "recv_comm_ok C ?comm2" using ok by (intro recv_comm_ok_reqs)
  have e2: "cur_qp ?comm2 = ?e" "cts_slot C ?comm2 = cts_slot C comm" "cts_signalled C ?comm2 = cts_signalled C comm"
    by (simp_all add: cur_qp_def cts_slot_def cts_signalled_def fun_eq_iff)
  show ?thesis
  proof (cases posted)
    case False
    let ?comm3 = "comm\<lparr>reqs := (reqs comm)[q := (expect 0 k ?r)\<lparr>rq_type := REQ_UNUSED\<rparr>]\<rparr>"
    have "anpNetIrecvDefault C V n data sizes tags mhs comm x = Some (ncclSuccess, None, ?comm3, x1)"
      using rdy n8 st pr(1) False qM c2 sw by (simp add: anpNetIrecvDefault_def free_request_runs)
    moreover have "recv_comm_ok C ?comm3" using ok r2 by (intro recv_comm_ok_reqs) (auto simp: req_ok_def)
    moreover have "in_use (reqs ?comm3) = in_use (reqs comm)" using q by (simp add: in_use_release)
    ultimately show ?thesis by fastforce
  next
    case True
    obtain res w where w: "v_post_send V (the (qp (qps ?comm2 ! qpIndex ?comm2))) [cts_wr C ?comm2 (qps ?comm2 ! qpIndex ?comm2) q] (xw_w x1) = (res, w)" by fastforce
    let ?rq = "cts_req C ?comm2 ?e (expect 0 k ?r)"
    define comm2 where "comm2 = ?comm2"
    have nd2: "ndevs comm2 = 1" using nd by (simp add: comm2_def)
    obtain comm3 x2 row srow g where pf: "ncclIbPostFifo C V n data sizes tags mhs q comm2 x1 = Some (res, comm3, x2)"
       "comm3 = comm2\<lparr>reqs := (reqs comm2)[q := cts_req C comm2 (qps comm2 ! qpIndex comm2) (reqs comm2 ! q)], sizesFifo := (sizesFifo comm2)[cts_slot C comm2 := srow],
          remFifo_elems := (remFifo_elems comm2)[cts_slot C comm2 := row], fifoSge := (fifoSge comm2)[devIndex (qps comm2 ! qpIndex comm2) := g],
          fifoTail := (if res = ncclSuccess then fifoTail comm2 + 1 else fifoTail comm2),
          qpIndex := (if res = ncclSuccess then (qpIndex comm2 + 1) mod nqps comm2 else qpIndex comm2)\<rparr>"
       "length srow = NCCL_NET_IB_MAX_RECVS" "\<forall>j<n. srow ! j = 0" "length row = NCCL_NET_IB_MAX_RECVS" "list_all (\<lambda>e. length (f_rkeys e) = 1) row"
       "\<forall>j<n. row ! j = \<lparr>f_addr = data ! j, f_rkeys = [rkey (hd (mrs (mhs ! j)))], f_size = ucast (sizes ! j), f_nreqs = word_of_nat n,
         f_tag = word_of_int (tags ! j), f_idx = ucast (fifoTail comm2 + 1)\<rparr>"
      using post_fifo_runs [OF ok2 [folded comm2_def] nd2 args qM(1) w [folded comm2_def]] by blast
    let ?c = "\<lambda>rq b. comm\<lparr>reqs := (reqs comm)[q := rq], sizesFifo := (sizesFifo comm)[cts_slot C comm := srow],
          remFifo_elems := (remFifo_elems comm)[cts_slot C comm := row], fifoSge := (fifoSge comm)[0 := g],
          fifoTail := (if b then fifoTail comm + 1 else fifoTail comm), qpIndex := (if b then (qpIndex comm + 1) mod nqps comm else qpIndex comm)\<rparr>"
    have pf': "ncclIbPostFifo C V n data sizes tags mhs q ?comm2 x1 = Some (res, ?c ?rq (res = ncclSuccess), x2)"
      using pf(1,2) qok(2) qM e2(2) by (simp add: comm2_def cur_qp_def)
    have rq: "req_ok ?rq" using r2 qok(2) by (intro cts_req_ok) auto
    have cok: "req_ok rq \<Longrightarrow> recv_comm_ok C (?c rq b)" for rq b using ok pf by (intro recv_comm_ok_posted) (auto simp: NCCL_NET_IB_MAX_RECVS_def)
    show ?thesis
    proof (cases "res = ncclSuccess")
      case False
      let ?ru = "?rq\<lparr>rq_type := REQ_UNUSED\<rparr>"
      have "ncclIbFreeRequest q (?c ?rq False) = Some (?c ?ru False)" using free_request_runs [of q "?c ?rq False"] qM by simp
      then have "anpNetIrecvDefault C V n data sizes tags mhs comm x = Some (res, None, ?c ?ru False, x2)"
        using rdy n8 st pr(1) True c2 sw pf' False by (simp add: anpNetIrecvDefault_def)
      moreover have "recv_comm_ok C (?c ?ru False)" using rq by (intro cok) (simp add: req_ok_def)
      moreover have "in_use (reqs (?c ?ru False)) = in_use (reqs comm)" using q by (simp add: in_use_release)
      ultimately show ?thesis by fastforce
    next
      case success: True
      have "anpNetIrecvDefault C V n data sizes tags mhs comm x = Some (ncclSuccess, Some q, ?c ?rq True, x2)"
        using rdy n8 st pr(1) True c2 sw pf' success by (simp add: anpNetIrecvDefault_def)
      moreover have "recv_comm_ok C (?c ?rq True)" using rq by (rule cok)
      moreover have "in_use (reqs (?c ?rq True)) = in_use (reqs comm) + 1" using q ev0 by (simp add: in_use_claim)
      moreover have "sum_list (events ?rq) = int (send_width C comm) + (if cts_signalled C comm ?e then 1 else 0)"
        using cts_req_events [OF r2, of ?e C ?comm2] expect_sum [OF rok, of 0 k] qok(2) ev0 pr(2) True e2(3) by simp
      moreover have "cts_slot C comm < MAX_REQUESTS C" using ok cts_slot_less by (simp add: recv_comm_ok_def)
      ultimately show ?thesis using qM ev0 pf(3-7) ok e2(2)
        by (intro exI [of _ ncclSuccess] exI [of _ "Some q"] exI [of _ "?c ?rq True"] exI [of _ x2]) (auto simp: recv_comm_ok_def comm2_def)
    qed
  qed
qed

subsection \<open>Runs of the clear-to-send fifo\<close>

text \<open>
  A run of a receive communicator, as the sequence of its successful posts to the fifo: for each, the index of the
  queue pair and whether it was signalled.  Between two posts anything may happen that
  leaves the queue pairs, the tail and the current index alone.
\<close>

inductive cts_run :: "xcfg \<Rightarrow> 'w data_verbs \<Rightarrow> ncclIbRecvComm \<Rightarrow> (nat \<times> bool) list \<Rightarrow> ncclIbRecvComm \<Rightarrow> bool" for C V where
  cts_done: "cts_run C V comm [] comm"
| cts_other: "qps comm1 = qps comm \<Longrightarrow> nqps comm1 = nqps comm \<Longrightarrow> qpIndex comm1 = qpIndex comm \<Longrightarrow> fifoTail comm1 = fifoTail comm \<Longrightarrow>
    cts_run C V comm1 log comm2 \<Longrightarrow> cts_run C V comm log comm2"
| cts_post: "ncclIbPostFifo C V n data sizes tags mhs q comm x = Some (ncclSuccess, comm1, x1) \<Longrightarrow> cts_run C V comm1 log comm2 \<Longrightarrow>
    cts_run C V comm ((qpIndex comm, cts_signalled C comm (cur_qp comm)) # log) comm2"

lemma set_req_frame: "set_req q f comm = Some comm' \<Longrightarrow> \<exists>rr. comm' = comm\<lparr>reqs := rr\<rparr>"
  by (auto simp: set_req_def bind_eq_Some_conv)

lemma bind_SomeE: "Option.bind m f = Some y \<Longrightarrow> (\<And>x. m = Some x \<Longrightarrow> f x = Some y \<Longrightarrow> P) \<Longrightarrow> P"
  by (cases m) auto

lemma set_req_if_frame:
  assumes "(if b then set_req q f comm else Some comm) = Some comm'"
  shows "qps comm' = qps (comm :: ncclIbRecvComm) \<and> nqps comm' = nqps comm"
  using assms by (cases b) (auto dest: set_req_frame)

lemma prepare_cts_frame:
  assumes "prepare_cts C n data sizes tags mhs q comm = Some (e, wr, comm')"
  shows "qps comm' = qps comm \<and> nqps comm' = nqps comm"
  using assms unfolding prepare_cts_def Let_def
  by (elim bind_SomeE) (clarsimp dest!: set_req_frame set_req_if_frame)

lemma post_fifo_frame:
  assumes "ncclIbPostFifo C V n data sizes tags mhs q comm x = Some (ncclSuccess, comm1, x1)"
  shows "qps comm1 = qps comm \<and> nqps comm1 = nqps comm \<and> fifoTail comm1 = fifoTail comm + 1 \<and> qpIndex comm1 = (qpIndex comm + 1) mod nqps comm"
proof -
  obtain e wr c1 p where pc: "prepare_cts C n data sizes tags mhs q comm = Some (e, wr, c1)" "qp e = Some p"
    using assms by (auto simp: ncclIbPostFifo_def bind_eq_Some_conv)
  obtain res w where w: "v_post_send V p [wr] (xw_w x) = (res, w)" by fastforce
  show ?thesis using assms pc w prepare_cts_frame [OF pc(1)] by (auto simp: ncclIbPostFifo_def Let_def split: if_splits)
qed

lemma cts_run_log:
  assumes "cts_run C V comm log comm'" "0 < MAX_REQUESTS C" "MAX_REQUESTS C \<le> 256" "0 < nqps comm"
    and "\<forall>i<nqps comm. sint (ctsQpSlot (qps comm ! i)) = int i"
    and "fifoTail comm = word_of_nat t" "qpIndex comm = t mod nqps comm" "t + length log < 2 ^ 64" "k < length log"
  shows "log ! k = ((t + k) mod nqps comm, (t + k) mod MAX_REQUESTS C = (t + k) mod nqps comm)"
  using assms
proof (induction arbitrary: t k rule: cts_run.induct)
  case (cts_done comm)
  then show ?case by simp
next
  case (cts_other comm1 comm log comm2)
  then show ?case by simp
next
  case (cts_post n data sizes tags mhs q comm x comm1 x1 log comm2)
  note fr = post_fifo_frame [OF cts_post.hyps(1)]
  show ?case
  proof (cases k)
    case 0
    have lt: "t mod nqps comm < nqps comm" using cts_post.prems by simp
    have "t < 2 ^ 64" using cts_post.prems by linarith
    then have ut: "unat (word_of_nat t :: u64) = t" by (simp add: unsigned_of_nat take_bit_nat_eq_self)
    have um: "unat (word_of_nat (MAX_REQUESTS C) :: u64) = MAX_REQUESTS C"
      using cts_post.prems(2) by (simp add: unsigned_of_nat take_bit_nat_eq_self)
    have "cts_slot C comm = t mod MAX_REQUESTS C"
      unfolding cts_slot_def unat_mod_distrib cts_post.prems(5) ut um by (rule refl)
    then have "cts_signalled C comm (cur_qp comm) = (t mod MAX_REQUESTS C = t mod nqps comm)"
      using cts_post.prems(4,6) lt by (simp add: cts_signalled_def cur_qp_def)
    then show ?thesis using 0 cts_post.prems(6) by simp
  next
    case (Suc j)
    have "qpIndex comm1 = Suc t mod nqps comm1" using fr cts_post.prems(6) by (simp add: mod_Suc_eq)
    moreover have "fifoTail comm1 = word_of_nat (Suc t)" using fr cts_post.prems(5) by (simp add: add.commute)
    ultimately show ?thesis using cts_post.IH [of "Suc t" j] fr cts_post.prems Suc by simp
  qed
qed

lemma signalled_in_window:
  fixes t m n :: nat
  assumes "0 < m" "t mod n < m"
  shows "\<exists>k<m. (t + k * n) mod m = t mod n"
proof -
  define a where "a = t div n"
  define k where "k = (m - a mod m) mod m"
  have "m dvd a + k"
  proof -
    have "(a + k) mod m = (a mod m + (m - a mod m)) mod m" unfolding k_def by (simp add: mod_simps)
    also have "\<dots> = 0" using assms(1) by simp
    finally show ?thesis by (simp add: mod_eq_0_iff_dvd)
  qed
  then have "m dvd (a + k) * n" by (rule dvd_mult2)
  moreover have "t + k * n = t mod n + (a + k) * n" by (simp add: a_def distrib_right)
  ultimately have "(t + k * n) mod m = t mod n mod m" by (metis add.commute mod_add_self2 mod_mult_self2 dvd_def mult.commute)
  moreover have "k < m" using assms(1) by (simp add: k_def)
  ultimately show ?thesis using assms(2) by auto
qed

subsection \<open>Properties of a receive\<close>

definition demo_recv :: ncclIbRecvComm where
  "demo_recv = \<lparr>ndevs = 1, isSend = False, reqs = replicate 16 demo_req, qps = [demo_qp 0 0, demo_qp 1 0], nqps = 2, qpIndex = 0, ready = True,
     nRemDevs = 1, remDevs = replicate 2 \<lparr>lid = 0, ib_port = 1, mtu = 4, link_layer = 2, gid = (0, 0), fifoRkey = 77, remoteGid = (0, 0), ibv_dev_index = 0\<rparr>,
     devBase = [demo_base 0], gpuFlush = [], rfifoMr = [], fifoSge = replicate 2 \<lparr>sge_addr = 0, sge_length = 0, sge_lkey = 5\<rparr>, sizesFifoMr = [],
     remFifo_elems = replicate 16 (replicate 8 \<lparr>f_addr = 0, f_rkeys = [0], f_size = 0, f_nreqs = 0, f_tag = 0, f_idx = 0\<rparr>),
     remFifo_addr = 0x1000, remFifo_inline = True, fifoTail = 0, elems_addr = 0x2000, sizesFifo = replicate 16 (replicate 8 1), flushEnabled = False\<rparr>"

lemma demo_recv_ok: "recv_comm_ok demo_cfg demo_recv"
  by code_simp




definition demo_small :: "xcfg \<times> ncclIbRecvComm" where
  "demo_small = (demo_cfg\<lparr>MAX_REQUESTS := 2\<rparr>, demo_recv\<lparr>nqps := 1, reqs := replicate 2 demo_req,
     remFifo_elems := replicate 2 (replicate 8 \<lparr>f_addr = 0, f_rkeys = [0], f_size = 0, f_nreqs = 0, f_tag = 0, f_idx = 0\<rparr>),
     sizesFifo := replicate 2 (replicate 8 1)\<rparr>)"

definition demo_post :: "ncclIbRecvComm \<Rightarrow> ((ibv_qp \<times> ibv_send_wr list) list \<times> ibv_wc list) xw \<Rightarrow>
    (ncclResult \<times> ncclIbRecvComm \<times> ((ibv_qp \<times> ibv_send_wr list) list \<times> ibv_wc list) xw) option" where
  "demo_post = ncclIbPostFifo (fst demo_small) demo_verbs 1 [0x9000] [64] [3] [demo_mrh] 0"


text \<open>
  The inline clear-to-send carries everything the sender needs: the 24 bytes that are written determine every field of
  the first fifo element.
\<close>

theorem inline_bytes_determine_element:
  assumes "length (f_rkeys e) = 1"
  shows "load_elem (take MAX_INLINE_DATA_SIZE (elem_bytes e)) = e"
proof -
  obtain k where "f_rkeys e = [k]" using assms by (cases "f_rkeys e") auto
  then show ?thesis
    by (cases e) (simp add: load_elem_def elem_bytes_def MAX_INLINE_DATA_SIZE_def load_mem_bytes_full)
qed

theorem inline_bytes_determine_element_witness:
  "load_elem (take MAX_INLINE_DATA_SIZE (elem_bytes \<lparr>f_addr = 0x123456789, f_rkeys = [77], f_size = 64, f_nreqs = 1, f_tag = 3, f_idx = 9\<rparr>)) =
    \<lparr>f_addr = 0x123456789, f_rkeys = [77], f_size = 64, f_nreqs = 1, f_tag = 3, f_idx = 9\<rparr>"
  by (rule inline_bytes_determine_element) simp

text \<open>
  C38: A receive work request that cannot be posted is reported as success: the error path of \<open>anpNetIrecvDefault\<close> returns
  a result that is still \<open>ncclSuccess\<close>, the request is freed and none is handed out.
\<close>

theorem failed_receive_reported_as_success:
  assumes "recv_comm_ok C comm" "ready comm" "ndevs comm = 1" "recv_args_ok n data sizes tags mhs" "get_request_loop (reqs comm) 0 = Some q"
    and "\<And>p i w. fst (v_post_recv V p i w) \<noteq> ncclSuccess"
  shows "\<exists>comm' x'. anpNetIrecv C V False n data sizes tags mhs comm x = Some (ncclSuccess, None, comm', x')"
proof -
  let ?r = "fresh_recv n 1 (reqs comm ! q)"
  let ?comm1 = "comm\<lparr>reqs := (reqs comm)[q := ?r]\<rparr>"
  have q: "q < length (reqs comm)" using get_request_loop_SomeD [OF assms(5)] by auto
  have n8: "\<not> NCCL_NET_IB_MAX_RECVS < n" using assms(4) by (simp add: recv_args_ok_def)
  obtain comm0 where st: "ncclIbGetRequest comm = (ncclSuccess, Some q, comm0)" "set_req q (new_recv n (ndevs comm0)) comm0 = Some ?comm1"
    using start_recv [OF assms(5), of n] assms(3) by auto
  have e: "qpIndex comm < length (qps comm)" "devIndex (cur_qp comm) < 2" "qp (cur_qp comm) \<noteq> None" "0 < send_width C comm"
    using assms(1,3) by (auto simp: recv_comm_ok_def qps_ok_def cur_qp_def send_width_def)
  obtain p where p: "qp (cur_qp comm) = Some p" using e(3) by blast
  obtain w where w: "send_width C comm = Suc w" using e(4) by (cases "send_width C comm") auto
  have sw: "send_width C ?comm1 = Suc w" using w by (simp add: send_width_def split: if_splits)
  have ae: "ncclIbAddEvent (devIndex (cur_qp comm)) ?r = Some (expect (devIndex (cur_qp comm)) 1 ?r)"
    using expect_Suc [of ?r "devIndex (cur_qp comm)" 0] e(2) by (simp add: fresh_recv_def)
  obtain res v where v: "v_post_recv V p (word_of_nat q) (xw_w x) = (res, v)" by fastforce
  have "res \<noteq> ncclSuccess" using assms(6) [of p "word_of_nat q" "xw_w x"] v by simp
  then have "\<exists>x'. post_recvs C V q (send_width C ?comm1) ?comm1 x = Some (False, comm\<lparr>reqs := (reqs comm)[q := expect (devIndex (cur_qp comm)) 1 ?r]\<rparr>, x')"
    unfolding sw using e p q ae v by (simp add: set_req_def ub_simps cur_qp_def [symmetric])
  then show ?thesis using assms(2) n8 st q by (auto simp: anpNetIrecv_def anpNetIrecvDefault_def free_request_runs)
qed

theorem failed_receive_reported_as_success_witness:
  "\<exists>comm' x'. anpNetIrecv demo_cfg (demo_verbs\<lparr>v_post_recv := (\<lambda>p i w. (ncclSystemError, w))\<rparr>) False 1 [0x9000] [64] [3] [demo_mrh] demo_recv demo_xw
    = Some (ncclSuccess, None, comm', x')"
proof -
  have f: "ready demo_recv" "ndevs demo_recv = 1" "recv_args_ok 1 [0x9000] [64] [3] [demo_mrh]" "get_request_loop (reqs demo_recv) 0 = Some 0"
    by code_simp+
  show ?thesis by (rule failed_receive_reported_as_success [OF demo_recv_ok f(1-4)]) simp
qed

text \<open>
  A fifo element has room for one remote key: on a communicator over two merged devices every non-empty receive writes the
  second key outside \<open>rkeys\<close>, over the size field.
\<close>

theorem second_rkey_out_of_bounds:
  assumes "recv_comm_ok C comm" "ndevs comm = 2" "0 < n"
  shows "ncclIbPostFifo C V n data sizes tags mhs q comm x = None"
proof -
  have "fill_elems 2 n tl data sizes tags mhs 0 n row = None" if "list_all (\<lambda>e. length (f_rkeys e) = 1) row" for row tl
  proof -
    obtain m where n: "n = Suc m" using assms(3) by (cases n) auto
    have "put_rkeys mh 0 2 (f_rkeys (row ! 0)) = None" if "0 < length row" for mh
      using put_rkeys_overrun [of "f_rkeys (row ! 0)" 0 2 mh] \<open>list_all _ row\<close> that by (auto simp: list_all_length)
    then show ?thesis by (auto simp: n arr_get_def bind_eq_None_conv simp del: put_rkeys.simps)
  qed
  moreover have "list_all (\<lambda>e. length (f_rkeys e) = 1) row" if "arr_get (remFifo_elems comm) i = Some row" for i row
    using that assms(1) by (auto simp: recv_comm_ok_def list_all_length dest: arr_get_SomeD)
  ultimately have "prepare_cts C n data sizes tags mhs q comm = None"
    using assms(2) by (auto simp: prepare_cts_def Let_def bind_eq_None_conv set_req_def)
  then show ?thesis by (simp add: ncclIbPostFifo_def)
qed

theorem second_rkey_out_of_bounds_witness:
  "ncclIbPostFifo demo_cfg demo_verbs 1 [0x9000] [64] [3] [demo_mrh] 0 (demo_recv\<lparr>ndevs := 2\<rparr>) demo_xw = None"
proof (rule second_rkey_out_of_bounds)
  show "recv_comm_ok demo_cfg (demo_recv\<lparr>ndevs := 2\<rparr>)" by code_simp
qed simp_all

end
