(* ===== verification/Params.thy ===== *)
theory Params
  imports Text
begin

text \<open>
  The integer parameters of the plugin: the macro \<open>NCCL_PARAM\<close> of \<open>anp_param.h\<close> and the
  \<open>strtoll\<close>/\<open>strtol\<close> of the C library it relies on.

  Each use of the macro defines one function with a static \<open>value\<close>, \<open>-1\<close> until it was read.
  The model of a call takes the default, the contents of the environment variable at the time of
  the call and \<open>value\<close>; it gives the new \<open>value\<close>, which is also the result.  The mutex makes a call
  one step.  The binary prefix \<open>0b\<close> of C23 is not part of \<open>strtoll\<close> here.
\<close>

subsection \<open>Numbers in text\<close>

definition c_isspace :: "char \<Rightarrow> bool" where
  "c_isspace c = (let n = of_char c :: nat in n = 32 \<or> 9 \<le> n \<and> n \<le> 13)"

definition digit_value :: "char \<Rightarrow> nat option" where
  "digit_value c = (let n = of_char c :: nat in
     if 48 \<le> n \<and> n < 58 then Some (n - 48)
     else if 65 \<le> n \<and> n < 91 then Some (n - 55)
     else if 97 \<le> n \<and> n < 123 then Some (n - 87) else None)"

fun read_digits :: "nat \<Rightarrow> string \<Rightarrow> nat \<Rightarrow> nat" where
  "read_digits b [] acc = acc"
| "read_digits b (c # s) acc = (case digit_value c of
     Some d \<Rightarrow> if d < b then read_digits b s (acc * b + d) else acc | None \<Rightarrow> acc)"

definition strip_sign :: "string \<Rightarrow> bool \<times> string" where
  "strip_sign s = (case s of
     c # t \<Rightarrow> if c = CHR ''-'' then (True, t) else if c = CHR ''+'' then (False, t) else (False, s)
   | [] \<Rightarrow> (False, s))"

definition strip_base :: "nat \<Rightarrow> string \<Rightarrow> nat \<times> string" where
  "strip_base b s = (if b \<noteq> 0 then (b, s) else case s of
     c # t \<Rightarrow> if c = CHR ''0'' then (case t of
         d # u \<Rightarrow> if d = CHR ''x'' \<or> d = CHR ''X'' then (16, u) else (8, s)
       | [] \<Rightarrow> (8, s)) else (10, s)
   | [] \<Rightarrow> (10, s))"

text \<open>The value and whether \<open>errno\<close> is set to \<open>ERANGE\<close>.\<close>

definition c_strtoll :: "nat \<Rightarrow> string \<Rightarrow> int \<times> bool" where
  "c_strtoll base s =
     (let (neg, s) = strip_sign (dropWhile c_isspace s);
          (b, s) = strip_base base s;
          n = int (read_digits b s 0);
          v = (if neg then - n else n)
      in if v < - (2 ^ 63) then (- (2 ^ 63), True) else if 2 ^ 63 \<le> v then (2 ^ 63 - 1, True) else (v, False))"

subsection \<open>The macro\<close>

definition ncclParam :: "int \<Rightarrow> string option \<Rightarrow> int \<Rightarrow> int" where
  "ncclParam default_value str value =
     (if value = -1 then case str of
          None \<Rightarrow> default_value
        | Some s \<Rightarrow> if length s > 0 then let (v, err) = c_strtoll 0 s in if err then default_value else v else default_value
      else value)"

text \<open>The results of a sequence of calls, each with the environment variable as it is then.\<close>

fun param_calls :: "int \<Rightarrow> string option list \<Rightarrow> int \<Rightarrow> int list" where
  "param_calls d [] v = []"
| "param_calls d (e # es) v = (let v = ncclParam d e v in v # param_calls d es v)"

subsection \<open>Decimal text\<close>

definition dec_of_int :: "int \<Rightarrow> string" where
  "dec_of_int i = (if i < 0 then CHR ''-'' # dec_of_nat (nat (- i)) else dec_of_nat (nat i))"

lemma of_char_digit: "d < 10 \<Longrightarrow> of_char (digit_char d) = 48 + d"
  by (simp add: digit_char_def of_char_of)

lemma digit_value_digit_char [simp]: "d < 10 \<Longrightarrow> digit_value (digit_char d) = Some d"
  by (simp add: digit_value_def Let_def of_char_digit)

lemma read_digits_append:
  "(\<forall>c\<in>set s. \<exists>d<b. digit_value c = Some d) \<Longrightarrow> read_digits b (s @ t) acc = read_digits b t (read_digits b s acc)"
  by (induction b s acc rule: read_digits.induct) auto

lemma dec_digits: "\<forall>c\<in>set (dec_of_nat n). \<exists>d<10. c = digit_char d"
proof (induction n rule: dec_of_nat.induct)
  case (1 n)
  have "\<exists>d<10. digit_char (n mod 10) = digit_char d" by (intro exI [of _ "n mod 10"]) simp
  then show ?case using 1 by (cases "n < 10") (auto simp: dec_of_nat.simps [of n])
qed

lemma read_dec: "read_digits 10 (dec_of_nat n) 0 = n"
proof (induction n rule: dec_of_nat.induct)
  case (1 n)
  show ?case
  proof (cases "n < 10")
    case True
    then show ?thesis by (simp add: dec_of_nat.simps [of n])
  next
    case False
    have "\<forall>c\<in>set (dec_of_nat (n div 10)). \<exists>d<10. digit_value c = Some d"
      using dec_digits [of "n div 10"] by fastforce
    then show ?thesis using False 1 by (simp add: dec_of_nat.simps [of n] read_digits_append)
  qed
qed

lemma dec_head: "0 < n \<Longrightarrow> \<exists>d s. dec_of_nat n = digit_char d # s \<and> 0 < d \<and> d < 10"
proof (induction n rule: dec_of_nat.induct)
  case (1 n)
  show ?case
  proof (cases "n < 10")
    case True
    then show ?thesis using 1 by (auto simp: dec_of_nat.simps [of n] intro!: exI [of _ n])
  next
    case False
    then have "0 < n div 10" by (simp add: div_greater_zero_iff)
    then obtain d s where "dec_of_nat (n div 10) = digit_char d # s" "0 < d" "d < 10" using 1 False by blast
    then show ?thesis using False by (auto intro!: exI [of _ d] simp add: dec_of_nat.simps [of n])
  qed
qed

lemma digit_char_plain:
  assumes "d < 10"
  shows "\<not> c_isspace (digit_char d)" "digit_char d \<noteq> CHR ''-''" "digit_char d \<noteq> CHR ''+''" "0 < d \<Longrightarrow> digit_char d \<noteq> CHR ''0''"
proof -
  have o: "of_char (digit_char d) = 48 + d" using assms by (rule of_char_digit)
  then show "\<not> c_isspace (digit_char d)" by (simp add: c_isspace_def)
  have "digit_char d = CHR ''-'' \<Longrightarrow> 48 + d = (of_char CHR ''-'' :: nat)" using o by simp
  then show "digit_char d \<noteq> CHR ''-''" by auto
  have "digit_char d = CHR ''+'' \<Longrightarrow> 48 + d = (of_char CHR ''+'' :: nat)" using o by simp
  then show "digit_char d \<noteq> CHR ''+''" by auto
  have "digit_char d = CHR ''0'' \<Longrightarrow> 48 + d = (of_char CHR ''0'' :: nat)" using o by simp
  then show "0 < d \<Longrightarrow> digit_char d \<noteq> CHR ''0''" by auto
qed

lemma strip_base_dec: "let (b, t) = strip_base 0 (dec_of_nat n) in read_digits b t 0 = n"
proof (cases "n = 0")
  case True
  then show ?thesis by (simp add: dec_of_nat.simps [of 0] strip_base_def digit_char_def) (simp add: digit_value_def)
next
  case False
  then obtain d s where h: "dec_of_nat n = digit_char d # s" "0 < d" "d < 10" using dec_head by blast
  then have "strip_base 0 (dec_of_nat n) = (10, dec_of_nat n)" by (simp add: strip_base_def digit_char_plain)
  then show ?thesis by (simp add: read_dec)
qed

lemma dec_nonempty [simp]: "dec_of_nat n \<noteq> []"
  by (simp add: dec_of_nat.simps [of n])

lemma strtoll_dec:
  assumes "- (2 ^ 63) \<le> i" "i < 2 ^ 63"
  shows "c_strtoll 0 (dec_of_int i) = (i, False)"
proof -
  have hd_dec: "\<exists>d s. dec_of_nat m = digit_char d # s \<and> d < 10" for m
    using dec_digits [of m] by (cases "dec_of_nat m") auto
  have "strip_sign (dropWhile c_isspace (dec_of_int i)) = (i < 0, dec_of_nat (nat \<bar>i\<bar>))"
  proof (cases "i < 0")
    case True
    then show ?thesis by (simp add: dec_of_int_def strip_sign_def c_isspace_def)
  next
    case False
    then obtain d s where "dec_of_nat (nat i) = digit_char d # s" "d < 10" using hd_dec by blast
    then show ?thesis using False by (simp add: dec_of_int_def strip_sign_def digit_char_plain)
  qed
  then show ?thesis using strip_base_dec [of "nat \<bar>i\<bar>"] assms by (auto simp: c_strtoll_def Let_def split: prod.splits)
qed

subsection \<open>Properties\<close>

lemma param_calls_latched: "v \<noteq> -1 \<Longrightarrow> param_calls d es v = replicate (length es) v"
  by (induction es) (auto simp: ncclParam_def)

text \<open>
  A parameter is read once: when the variable first holds the decimal text of a 64-bit number other
  than \<open>-1\<close>, that call and all later ones return this number, whatever becomes of the environment.
\<close>

theorem parameter_latched:
  assumes "- (2 ^ 63) \<le> i" "i < 2 ^ 63" "i \<noteq> -1"
  shows "param_calls d (Some (dec_of_int i) # es) (-1) = replicate (Suc (length es)) i"
proof -
  have "ncclParam d (Some (dec_of_int i)) (-1) = i"
    using strtoll_dec [OF assms(1,2)] by (simp add: ncclParam_def) (auto simp: dec_of_int_def)
  then show ?thesis by (simp add: param_calls_latched [OF assms(3)])
qed

theorem parameter_latched_witness:
  "param_calls 7 [Some (dec_of_int 18), Some ''3'', None] (-1) = [18, 18, 18]"
  using parameter_latched [of 18 7 "[Some ''3'', None]"] by (simp add: numeral_eq_Suc)

end
