(* ===== verification/Gid.thy ===== *)
theory Gid
  imports Params Comm
begin

text \<open>
  The choice of the GID a port is addressed by (\<open>net_ib.cc\<close>, from \<open>envIbAddrFamily\<close> to
  \<open>ncclIbGetGidIndex\<close>).

  A GID is the pair of the two 64-bit words \<open>subnet_prefix\<close> and \<open>interface_id\<close> as a little-endian
  host loads them; their bytes in memory are in network order.  The 32-bit words
  \<open>s6_addr32\<close> of the same union are the halves of these words.  \<open>getenv\<close> and the files
  of \<open>/sys\<close> are parameters: \<open>None\<close> is an absent variable; a file that cannot be
  opened or read is \<open>None\<close>.
\<close>

type_synonym ibv_gid = "u64 \<times> u64"

datatype addr_family = AF_INET | AF_INET6

subsection \<open>Words of a GID\<close>

definition s6_addr32 :: "ibv_gid \<Rightarrow> nat \<Rightarrow> u32" where
  "s6_addr32 g i = (case g of (p, e) \<Rightarrow>
     if i = 0 then ucast p else if i = 1 then ucast (drop_bit 32 p) else if i = 2 then ucast e else ucast (drop_bit 32 e))"

definition ntohs :: "u16 \<Rightarrow> u16" where
  "ntohs w = push_bit 8 w OR drop_bit 8 w"

definition be64toh :: "u64 \<Rightarrow> u64" where
  "be64toh w = push_bit 32 (ucast (htonl (ucast w))) OR ucast (htonl (ucast (drop_bit 32 w)))"

definition ncclIbExtractLocalSubnetPrefix :: "u64 \<Rightarrow> u16" where
  "ncclIbExtractLocalSubnetPrefix subnet_prefix = ucast (be64toh subnet_prefix AND 0xffff)"

definition ncclIbExtractFlid :: "ibv_gid \<Rightarrow> u16" where
  "ncclIbExtractFlid g = ntohs (ucast (drop_bit 32 (fst g)))"

subsection \<open>The address family and range the user asks for\<close>

definition envIbAddrFamily :: "(string \<Rightarrow> string option) \<Rightarrow> addr_family" where
  "envIbAddrFamily getenv = (case getenv ''NCCL_IB_ADDR_FAMILY'' of
     None \<Rightarrow> AF_INET
   | Some env \<Rightarrow> if env = [] then AF_INET
       else if env = ''AF_INET'' then AF_INET else if env = ''AF_INET6'' then AF_INET6 else AF_INET)"

text \<open>
  \<open>inet_pton\<close> for IPv6, a scan over the text: \<open>tok\<close> is the text from the last colon on, \<open>out\<close> the bytes
  written so far, \<open>col\<close> the place of a double colon, \<open>seen\<close> and \<open>val\<close> the digits of the current group.
\<close>

definition hex_value :: "char \<Rightarrow> nat option" where
  "hex_value c = (case digit_value c of Some d \<Rightarrow> if d < 16 then Some d else None | None \<Rightarrow> None)"

definition group_bytes :: "nat \<Rightarrow> byte list" where
  "group_bytes v = [word_of_nat (v div 256), word_of_nat (v mod 256)]"

definition pton6_finish :: "byte list \<Rightarrow> nat option \<Rightarrow> nat \<Rightarrow> nat \<Rightarrow> byte list option" where
  "pton6_finish out col seen val = do {
     out \<leftarrow> (if 0 < seen then (if 16 < length out + 2 then None else Some (out @ group_bytes val)) else Some out);
     out \<leftarrow> (case col of
        Some k \<Rightarrow> if length out = 16 then None else Some (take k out @ replicate (16 - length out) 0 @ drop k out)
      | None \<Rightarrow> Some out);
     if length out = 16 then Some out else None }"

fun pton6_go :: "string \<Rightarrow> string \<Rightarrow> byte list \<Rightarrow> nat option \<Rightarrow> nat \<Rightarrow> nat \<Rightarrow> byte list option" where
  "pton6_go [] tok out col seen val = pton6_finish out col seen val"
| "pton6_go (c # s) tok out col seen val = (case hex_value c of
     Some d \<Rightarrow> if seen = 4 then None else pton6_go s tok out col (Suc seen) (val * 16 + d)
   | None \<Rightarrow>
       if c = CHR '':'' then
         (if seen = 0 then (if col \<noteq> None then None else pton6_go s s out (Some (length out)) 0 0)
          else if s = [] \<or> 16 < length out + 2 then None
          else pton6_go s s (out @ group_bytes val) col 0 0)
       else if c = CHR ''.'' \<and> length out + 4 \<le> 16 then
         (case pton4_go tok [] None of Some b \<Rightarrow> pton6_finish (out @ b) col 0 0 | None \<Rightarrow> None)
       else None)"

definition inet_pton6 :: "string \<Rightarrow> byte list option" where
  "inet_pton6 s = (case s of
     c # t \<Rightarrow> if c = CHR '':'' then (if take 1 t = '':'' then pton6_go t t [] None 0 0 else None) else pton6_go s s [] None 0 0
   | [] \<Rightarrow> None)"

definition words_of :: "byte list \<Rightarrow> u32 list" where
  "words_of bs = map (\<lambda>i. load32 (take 4 (drop (4 * i) bs))) [0..<length bs div 4]"

definition inet_pton :: "addr_family \<Rightarrow> string \<Rightarrow> u32 list option" where
  "inet_pton af s = (case af of
     AF_INET \<Rightarrow> map_option (\<lambda>a. [a]) (inet_pton4 s)
   | AF_INET6 \<Rightarrow> map_option words_of (inet_pton6 s))"

text \<open>
  The range: the words of its address (\<open>None\<close> is a null pointer) and the prefix length.  Without a
  slash \<open>strstr\<close> returns a null pointer; the test comes after 1 was added to it, and the byte before it is
  overwritten.
\<close>

definition to_cint :: "int \<Rightarrow> int" where
  "to_cint v = sint (word_of_int v :: u32)"

definition envIbAddrRange :: "(string \<Rightarrow> string option) \<Rightarrow> addr_family \<Rightarrow> (u32 list option \<times> int) option" where
  "envIbAddrRange getenv af = (case getenv ''NCCL_IB_ADDR_RANGE'' of
     None \<Rightarrow> Some (None, 0)
   | Some env \<Rightarrow> if env = [] then Some (None, 0) else
       let addrString = take 127 env in
       (case str_find ''/'' addrString of
          None \<Rightarrow> None
        | Some k \<Rightarrow> (case inet_pton af (take k addrString) of
            None \<Rightarrow> Some (None, 0)
          | Some ret \<Rightarrow> let mask = to_cint (fst (c_strtoll 10 (drop (k + 1) addrString))) in
              if af = AF_INET \<and> mask > 32 then Some (None, 0)
              else if af = AF_INET6 \<and> mask > 128 then Some (None, 0)
              else Some (Some ret, mask))))"

subsection \<open>Classification of GIDs\<close>

definition getGidAddrFamily :: "ibv_gid \<Rightarrow> addr_family" where
  "getGidAddrFamily g =
     (let a = s6_addr32 g;
          isIpV4Mapped = ((a 0 OR a 1) OR (a 2 XOR htonl 0x0000ffff) = 0);
          isIpV4MappedMulticast = (a 0 = htonl 0xff0e0000 \<and> (a 1 OR (a 2 XOR htonl 0x0000ffff)) = 0)
      in if isIpV4Mapped \<or> isIpV4MappedMulticast then AF_INET else AF_INET6)"

definition configuredGid :: "ibv_gid \<Rightarrow> bool" where
  "configuredGid g =
     (let a = s6_addr32 g; trailer = (a 1 OR a 2 OR a 3)
      in \<not> (((a 0 OR trailer) = 0) \<or> (a 0 = htonl 0xfe800000 \<and> trailer = 0)))"

definition linkLocalGid :: "ibv_gid \<Rightarrow> bool" where
  "linkLocalGid g = (s6_addr32 g 0 = htonl 0xfe800000 \<and> s6_addr32 g 1 = 0)"

definition validGid :: "ibv_gid \<Rightarrow> bool" where
  "validGid g = (configuredGid g \<and> \<not> linkLocalGid g)"

text \<open>
  The macro \<open>NETMASK\<close> for 1 to 32 bits.  For one bit the \<open>int\<close> expression is \<open>(1 << 31) - 1\<close>, which
  overflows: \<open>None\<close>.
\<close>

definition NETMASK :: "int \<Rightarrow> u32 option" where
  "NETMASK bits = (if bits = 1 then None else Some (htonl (0xffffffff XOR (push_bit (nat (32 - bits)) 1 - 1))))"

fun match_words :: "u32 list \<Rightarrow> ibv_gid \<Rightarrow> nat \<Rightarrow> nat \<Rightarrow> int \<Rightarrow> int option" where
  "match_words base g i 0 prefixlen = Some prefixlen"
| "match_words base g i (Suc n) prefixlen = (if \<not> prefixlen > 0 then Some prefixlen
     else if prefixlen \<ge> 32 then do {
       b \<leftarrow> arr_get base i;
       if b XOR s6_addr32 g i \<noteq> 0 then Some prefixlen else match_words base g (Suc i) n (prefixlen - 32) }
     else do {
       mask \<leftarrow> NETMASK prefixlen;
       b \<leftarrow> arr_get base i;
       if (b AND mask) XOR (s6_addr32 g i AND mask) \<noteq> 0 then Some prefixlen else Some 0 })"

definition matchGidAddrPrefix :: "addr_family \<Rightarrow> u32 list option \<Rightarrow> int \<Rightarrow> ibv_gid \<Rightarrow> bool option" where
  "matchGidAddrPrefix af prefix prefixlen g = do {
     left \<leftarrow> (if \<not> prefixlen > 0 then Some prefixlen
       else if af = AF_INET then do {
         mask \<leftarrow> NETMASK prefixlen;
         base \<leftarrow> prefix;
         b \<leftarrow> arr_get base 0;
         Some (if (b AND mask) XOR (s6_addr32 g 3 AND mask) \<noteq> 0 then prefixlen else 0) }
       else do { base \<leftarrow> prefix; match_words base g 0 4 prefixlen });
     Some (left = 0) }"

subsection \<open>The choice\<close>

text \<open>
  The RoCE version of a GID index, from its file under \<open>/sys\<close>; a text that is not recognised leaves the
  caller's variable as it was, \<open>v0\<close>.
\<close>

definition c_text :: "string \<Rightarrow> string" where
  "c_text s = takeWhile (\<lambda>c. c \<noteq> CHR 0x00) (take 15 s)"

definition starts_with :: "string \<Rightarrow> string \<Rightarrow> bool" where
  "starts_with s p = (take (length p) s = p)"

definition roce_type_path :: "string \<Rightarrow> u8 \<Rightarrow> int \<Rightarrow> string" where
  "roce_type_path deviceName portNum gidIndex =
     ''/sys/class/infiniband/'' @ deviceName @ ''/ports/'' @ dec_of_nat (unat portNum) @ ''/gid_attrs/types/'' @ dec_of_int gidIndex"

definition ncclIbRoceGetVersionNum :: "(string \<Rightarrow> string option) \<Rightarrow> string \<Rightarrow> u8 \<Rightarrow> int \<Rightarrow> int \<Rightarrow> ncclResult \<times> int" where
  "ncclIbRoceGetVersionNum sysfs deviceName portNum gidIndex v0 =
     (case sysfs (roce_type_path deviceName portNum gidIndex) of
        None \<Rightarrow> (ncclSystemError, v0)
      | Some f \<Rightarrow> let s = c_text f in
          (ncclSuccess, if s = [] then v0
             else if starts_with s ''IB/RoCE v1'' \<or> starts_with s ''RoCE v1'' then 1
             else if starts_with s ''RoCE v2'' then 2 else v0))"

text \<open>
  The environment of the choice: \<open>wrap_ibv_query_gid\<close> of the port, the name of the device, the files,
  the variables and parameters.  \<open>ge_ind\<close> gives the indeterminate contents of the two version variables.
\<close>

record 'w gid_env =
  ge_query_gid :: "int \<Rightarrow> 'w \<Rightarrow> (ncclResult \<times> ibv_gid) \<times> 'w"
  ge_deviceName :: string
  ge_portNum :: u8
  ge_sysfs :: "string \<Rightarrow> string option"
  ge_getenv :: "string \<Rightarrow> string option"
  ge_ind :: "int \<Rightarrow> int \<times> int"
  ge_IbRoutableFlidIbGidIndex :: int
  ge_IbGidIndex :: int
  ge_IbRoceVersionNum :: int

definition ncclUpdateGidIndex :: "'w gid_env \<Rightarrow> addr_family \<Rightarrow> u32 list option \<Rightarrow> int \<Rightarrow> int \<Rightarrow> int \<Rightarrow> int \<Rightarrow> 'w \<Rightarrow> ((ncclResult \<times> int) \<times> 'w) option" where
  "ncclUpdateGidIndex E usrFam prefix prefixlen roceVer cand gidIndex w =
     (case ge_query_gid E gidIndex w of ((res, g), w) \<Rightarrow>
      if res \<noteq> ncclSuccess then Some ((res, gidIndex), w)
      else case ge_query_gid E cand w of ((res, gc), w) \<Rightarrow>
      if res \<noteq> ncclSuccess then Some ((res, gidIndex), w)
      else do {
        let gidFam = getGidAddrFamily g;
        let gidCandidateFam = getGidAddrFamily gc;
        m \<leftarrow> matchGidAddrPrefix usrFam prefix prefixlen gc;
        if gidCandidateFam \<noteq> gidFam \<and> gidCandidateFam = usrFam \<and> m then Some ((ncclSuccess, cand), w)
        else if gidCandidateFam \<noteq> usrFam \<or> \<not> validGid gc \<or> \<not> m then Some ((ncclSuccess, gidIndex), w)
        else case ncclIbRoceGetVersionNum (ge_sysfs E) (ge_deviceName E) (ge_portNum E) gidIndex (fst (ge_ind E cand)) of (res, v) \<Rightarrow>
          if res \<noteq> ncclSuccess then Some ((res, gidIndex), w)
          else case ncclIbRoceGetVersionNum (ge_sysfs E) (ge_deviceName E) (ge_portNum E) cand (snd (ge_ind E cand)) of (res, vc) \<Rightarrow>
          if res \<noteq> ncclSuccess then Some ((res, gidIndex), w)
          else Some ((ncclSuccess, if (v \<noteq> vc \<or> \<not> validGid g) \<and> vc = roceVer then cand else gidIndex), w) })"

fun gid_loop :: "'w gid_env \<Rightarrow> addr_family \<Rightarrow> u32 list option \<Rightarrow> int \<Rightarrow> int \<Rightarrow> nat \<Rightarrow> int \<Rightarrow> int \<Rightarrow> 'w \<Rightarrow> ((ncclResult \<times> int) \<times> 'w) option" where
  "gid_loop E af prefix prefixlen roceVer 0 nxt gidIndex w = Some ((ncclSuccess, gidIndex), w)"
| "gid_loop E af prefix prefixlen roceVer (Suc n) nxt gidIndex w = do {
     ((res, gidIndex), w) \<leftarrow> ncclUpdateGidIndex E af prefix prefixlen roceVer nxt gidIndex w;
     if res \<noteq> ncclSuccess then Some ((res, gidIndex), w) else gid_loop E af prefix prefixlen roceVer n (nxt + 1) gidIndex w }"

text \<open>\<open>infiniband\<close>: the link layer of the port is InfiniBand.\<close>

definition ncclIbGetGidIndex :: "'w gid_env \<Rightarrow> bool \<Rightarrow> int \<Rightarrow> int \<Rightarrow> 'w \<Rightarrow> ((ncclResult \<times> int) \<times> 'w) option" where
  "ncclIbGetGidIndex E infiniband gidTblLen gidIndex w =
     (if infiniband then
        (let routableGidIndex = to_cint (ge_IbRoutableFlidIbGidIndex E) in
         if routableGidIndex < gidTblLen then
           (case ge_query_gid E routableGidIndex w of ((res, g), w) \<Rightarrow>
              if res \<noteq> ncclSuccess then Some ((res, gidIndex), w)
              else if ncclIbExtractFlid g \<noteq> 0 then Some ((ncclSuccess, routableGidIndex), w)
              else Some ((ncclSuccess, 0), w))
         else Some ((ncclSuccess, 0), w))
      else let gidIndex = to_cint (ge_IbGidIndex E) in
        if gidIndex \<ge> 0 then Some ((ncclSuccess, gidIndex), w)
        else do {
          let userAddrFamily = envIbAddrFamily (ge_getenv E);
          let userRoceVersion = to_cint (ge_IbRoceVersionNum E);
          (prefix, prefixlen) \<leftarrow> envIbAddrRange (ge_getenv E) userAddrFamily;
          gid_loop E userAddrFamily prefix prefixlen userRoceVersion (nat (gidTblLen - 1)) 1 0 w })"

subsection \<open>Prefixes as sequences of bits\<close>

text \<open>The bits of an address in network order, most significant first, and the part of a GID that holds the address.\<close>

definition word_bits :: "u32 \<Rightarrow> bool list" where
  "word_bits w = map (bit (htonl w)) (rev [0..<32])"

definition net_bits :: "u32 list \<Rightarrow> bool list" where
  "net_bits ws = concat (map word_bits ws)"

definition gid_words :: "addr_family \<Rightarrow> ibv_gid \<Rightarrow> u32 list" where
  "gid_words af g = (case af of AF_INET \<Rightarrow> [s6_addr32 g 3] | AF_INET6 \<Rightarrow> map (s6_addr32 g) [0..<4])"

lemma length_word_bits [simp]: "length (word_bits w) = 32"
  by (simp add: word_bits_def)

lemma net_bits_simps [simp]: "net_bits [] = []" "net_bits (w # ws) = word_bits w @ net_bits ws"
  by (simp_all add: net_bits_def)

lemma bit_htonl: "n < 32 \<Longrightarrow> bit (htonl w) n = bit w (8 * (3 - n div 8) + n mod 8)"
proof -
  assume n: "n < 32"
  define q m where "q = n div 8" and "m = n mod 8"
  have "n = 8 * q + m" "m < 8" by (simp_all add: q_def m_def)
  moreover have "q = 0 \<or> q = 1 \<or> q = 2 \<or> q = 3" using n by (auto simp: q_def)
  ultimately have "bit (htonl w) n = bit w (8 * (3 - q) + m)"
    by (elim disjE) (simp_all add: htonl_def load32_def mem32_def bit_simps)
  then show ?thesis by (simp add: q_def m_def)
qed

lemma htonl_and: "htonl (a AND b) = htonl a AND htonl b"
  by (rule bit_word_eqI) (simp add: bit_htonl bit_and_iff)

lemma htonl_eq_iff: "htonl a = htonl b \<longleftrightarrow> a = b"
  by (metis htonl_htonl)

lemma word_bits_inj: "word_bits a = word_bits b \<longleftrightarrow> a = b"
proof -
  have "(\<forall>i<32. bit (htonl a) i = bit (htonl b) i) \<longleftrightarrow> htonl a = htonl b"
    by (auto intro: bit_word_eqI)
  then show ?thesis by (auto simp: word_bits_def htonl_eq_iff)
qed

lemma take_word_bits: "take k (word_bits w) = map (bit (htonl w)) (rev [32 - k..<32])"
  by (simp add: word_bits_def take_map take_rev)

lemma xor_zero_iff: "a XOR b = 0 \<longleftrightarrow> a = (b :: 'a::len word)"
  by (simp add: bit_eq_iff bit_xor_iff)

lemma netmask_compare:
  assumes "0 < k" "k \<le> 32" "k \<noteq> 1"
  shows "\<exists>mask. NETMASK k = Some mask \<and> ((b AND mask) XOR (a AND mask) = 0 \<longleftrightarrow> take (nat k) (word_bits b) = take (nat k) (word_bits a))"
proof -
  define j where "j = nat (32 - k)"
  have ff: "(0xffffffff :: u32) = - 1" by simp
  have m: "0xffffffff XOR (push_bit j 1 - 1) = (NOT (Bit_Operations.mask j) :: u32)"
    unfolding ff by (rule bit_word_eqI) (simp add: bit_simps push_bit_eq_mult flip: mask_eq_decr_exp)
  have "(b AND htonl (NOT (Bit_Operations.mask j))) XOR (a AND htonl (NOT (Bit_Operations.mask j))) = 0 \<longleftrightarrow> htonl (b AND htonl (NOT (Bit_Operations.mask j))) = htonl (a AND htonl (NOT (Bit_Operations.mask j)))"
    by (simp only: htonl_eq_iff xor_zero_iff)
  also have "\<dots> \<longleftrightarrow> htonl b AND NOT (Bit_Operations.mask j) = htonl a AND NOT (Bit_Operations.mask j)" by (simp add: htonl_and)
  also have "\<dots> \<longleftrightarrow> (\<forall>i\<in>{j..<32}. bit (htonl b) i = bit (htonl a) i)"
    by (auto simp: bit_eq_iff bit_simps)
  also have "\<dots> \<longleftrightarrow> take (nat k) (word_bits b) = take (nat k) (word_bits a)"
    using assms by (auto simp: take_word_bits j_def)
  finally show ?thesis using assms m by (simp add: NETMASK_def j_def)
qed

lemma gid_words6: "length (gid_words AF_INET6 g) = 4" "i < 4 \<Longrightarrow> gid_words AF_INET6 g ! i = s6_addr32 g i"
  by (simp_all add: gid_words_def del: upt_Suc upt_conv_Cons)

lemma match_words_bits:
  assumes "length base = 4" "i + n = 4" "0 \<le> p" "p \<le> 32 * int n" "p mod 32 \<noteq> 1"
  shows "\<exists>r. match_words base g i n p = Some r \<and>
    (r = 0 \<longleftrightarrow> take (nat p) (net_bits (drop i base)) = take (nat p) (net_bits (drop i (gid_words AF_INET6 g))))"
  using assms
proof (induction n arbitrary: i p)
  case 0
  then show ?case by simp
next
  case (Suc n)
  have d: "drop i base = base ! i # drop (Suc i) base" "drop i (gid_words AF_INET6 g) = s6_addr32 g i # drop (Suc i) (gid_words AF_INET6 g)"
    using Suc.prems Cons_nth_drop_Suc [of i base] Cons_nth_drop_Suc [of i "gid_words AF_INET6 g"] by (simp_all add: gid_words6)
  have b: "arr_get base i = Some (base ! i)" using Suc.prems by (simp add: ub_simps)
  consider "p = 0" | "32 \<le> p" | "0 < p" "p < 32" using Suc.prems(3) by linarith
  then show ?case
  proof cases
    case 1
    then show ?thesis by simp
  next
    case 2
    then have np: "nat p = 32 + nat (p - 32)" by simp
    have "(p - 32) mod 32 \<noteq> 1" using Suc.prems(5) by (simp add: mod_diff_right_eq)
    then obtain r where r: "match_words base g (Suc i) n (p - 32) = Some r"
      "r = 0 \<longleftrightarrow> take (nat (p - 32)) (net_bits (drop (Suc i) base)) = take (nat (p - 32)) (net_bits (drop (Suc i) (gid_words AF_INET6 g)))"
      using Suc.IH [of "Suc i" "p - 32"] Suc.prems 2 by auto
    show ?thesis using 2 b r by (auto simp: d np xor_zero_iff word_bits_inj)
  next
    case 3
    then have "p \<noteq> 1" using Suc.prems(5) by auto
    then obtain mask where "NETMASK p = Some mask"
      "(base ! i AND mask) XOR (s6_addr32 g i AND mask) = 0 \<longleftrightarrow> take (nat p) (word_bits (base ! i)) = take (nat p) (word_bits (s6_addr32 g i))"
      using netmask_compare [of p "base ! i" "s6_addr32 g i"] 3 by auto
    then show ?thesis using 3 b by (auto simp: d)
  qed
qed

lemma match_bits:
  assumes "length base = (case af of AF_INET \<Rightarrow> 1 | AF_INET6 \<Rightarrow> 4)"
    and "0 \<le> prefixlen" "prefixlen \<le> 32 * int (length base)" "prefixlen mod 32 \<noteq> 1"
  shows "matchGidAddrPrefix af (Some base) prefixlen g =
    Some (take (nat prefixlen) (net_bits base) = take (nat prefixlen) (net_bits (gid_words af g)))"
proof (cases af)
  case AF_INET
  then obtain b where b: "base = [b]" using assms(1) by (auto simp: length_Suc_conv)
  show ?thesis
  proof (cases "prefixlen = 0")
    case True
    then show ?thesis by (simp add: matchGidAddrPrefix_def)
  next
    case False
    then have k: "0 < prefixlen" "prefixlen \<le> 32" "prefixlen \<noteq> 1" using assms b by auto
    obtain mask where "NETMASK prefixlen = Some mask"
      "(b AND mask) XOR (s6_addr32 g 3 AND mask) = 0 \<longleftrightarrow> take (nat prefixlen) (word_bits b) = take (nat prefixlen) (word_bits (s6_addr32 g 3))"
      using netmask_compare [OF k] by blast
    then show ?thesis using k AF_INET b by (auto simp: matchGidAddrPrefix_def gid_words_def arr_get_def)
  qed
next
  case AF_INET6
  then obtain r where "match_words base g 0 4 prefixlen = Some r"
    "r = 0 \<longleftrightarrow> take (nat prefixlen) (net_bits base) = take (nat prefixlen) (net_bits (gid_words AF_INET6 g))"
    using match_words_bits [of base 0 4 prefixlen g] assms by auto
  then show ?thesis using AF_INET6 assms(2) by (cases "prefixlen = 0") (auto simp: matchGidAddrPrefix_def)
qed

lemmas match_defined = match_bits [THEN arg_cong [where f = "\<lambda>x. x \<noteq> None"], simplified]

text \<open>
  C30: With a prefix of a length the family allows (other than one more than a multiple of 32, where the mask
  overflows), \<open>matchGidAddrPrefix\<close> says whether the GID's address and the range agree in that many leading bits.
\<close>

theorem prefix_match_is_bitwise:
  assumes "length base = (case af of AF_INET \<Rightarrow> 1 | AF_INET6 \<Rightarrow> 4)"
    and "0 \<le> prefixlen" "prefixlen \<le> 32 * int (length base)" "prefixlen mod 32 \<noteq> 1"
  shows "matchGidAddrPrefix af (Some base) prefixlen g =
    Some (take (nat prefixlen) (net_bits base) = take (nat prefixlen) (net_bits (gid_words af g)))"
  using assms by (rule match_bits)

theorem prefix_match_is_bitwise_witness:
  "matchGidAddrPrefix AF_INET (Some [0x010a]) 16 (0, 0x04030a01ffff0000) =
    Some (take 16 (net_bits [0x010a]) = take 16 (net_bits (gid_words AF_INET (0, 0x04030a01ffff0000))))"
  using prefix_match_is_bitwise [of "[0x010a]" AF_INET 16 "(0, 0x04030a01ffff0000)"] by simp

subsection \<open>What the choice finds\<close>

lemma pton4_length: "length octs \<le> 3 \<Longrightarrow> pton4_go s octs cur = Some b \<Longrightarrow> length b = 4"
  by (induction s octs cur rule: pton4_go.induct) (auto split: option.splits if_splits)

lemma pton6_length: "inet_pton6 s = Some b \<Longrightarrow> length b = 16"
proof -
  have f: "pton6_finish out col seen val = Some b \<Longrightarrow> length b = 16" for out col seen val
    by (auto simp: pton6_finish_def split: if_splits Option.bind_splits option.splits)
  have "pton6_go t tok out col seen val = Some b \<Longrightarrow> length b = 16" for t tok out col seen val
    by (induction t tok out col seen val rule: pton6_go.induct) (auto dest: f split: option.splits if_splits)
  then show "inet_pton6 s = Some b \<Longrightarrow> length b = 16" by (auto simp: inet_pton6_def simp del: pton6_go.simps split: list.splits if_splits)
qed

lemma inet_pton_length: "inet_pton af s = Some ws \<Longrightarrow> length ws = (case af of AF_INET \<Rightarrow> 1 | AF_INET6 \<Rightarrow> 4)"
  by (auto simp: inet_pton_def words_of_def dest: pton6_length split: addr_family.splits)

lemma range_shape:
  assumes "envIbAddrRange getenv af = Some (prefix, plen)"
  shows "prefix = None \<and> plen = 0 \<or>
    (\<exists>base. prefix = Some base \<and> length base = (case af of AF_INET \<Rightarrow> 1 | AF_INET6 \<Rightarrow> 4) \<and> plen \<le> 32 * int (length base))"
proof -
  have d: "Some ws = inet_pton f t \<Longrightarrow> \<exists>base. inet_pton f t = Some base \<and> length base = (case f of AF_INET \<Rightarrow> 1 | AF_INET6 \<Rightarrow> 4)" for f t ws
    using inet_pton_length [of f t ws] by (intro exI [of _ ws]) simp
  show ?thesis
    using assms by (cases af) (auto simp: envIbAddrRange_def Let_def dest!: d split: option.splits if_splits)
qed

text \<open>
  A GID the user's settings ask for: of the family, within the range (not asked of index 0), valid and of the
  RoCE version.  \<open>tbl\<close> is the GID table of the port, \<open>ver\<close> the version of each entry.
\<close>

definition suitable :: "(int \<Rightarrow> ibv_gid) \<Rightarrow> (int \<Rightarrow> int) \<Rightarrow> addr_family \<Rightarrow> u32 list option \<Rightarrow> int \<Rightarrow> int \<Rightarrow> int \<Rightarrow> bool" where
  "suitable tbl ver af prefix plen roceVer i \<longleftrightarrow>
     getGidAddrFamily (tbl i) = af \<and> validGid (tbl i) \<and> ver i = roceVer \<and> (i = 0 \<or> matchGidAddrPrefix af prefix plen (tbl i) = Some True)"

lemma update_gid_step:
  assumes q: "\<And>i w. ge_query_gid E i w = ((ncclSuccess, tbl i), w)"
    and v: "\<And>i v0. 0 \<le> i \<Longrightarrow> i < N \<Longrightarrow> ncclIbRoceGetVersionNum (ge_sysfs E) (ge_deviceName E) (ge_portNum E) i v0 = (ncclSuccess, ver i)"
    and m: "\<And>i. matchGidAddrPrefix af prefix plen (tbl i) \<noteq> None"
    and g: "0 \<le> g" "g < c" "c < N" "g = 0 \<or> matchGidAddrPrefix af prefix plen (tbl g) = Some True"
  shows "\<exists>g'. ncclUpdateGidIndex E af prefix plen rv c g w = Some ((ncclSuccess, g'), w) \<and>
    (g' = g \<or> g' = c \<and> matchGidAddrPrefix af prefix plen (tbl c) = Some True) \<and>
    (suitable tbl ver af prefix plen rv g \<longrightarrow> g' = g) \<and>
    (suitable tbl ver af prefix plen rv c \<and> \<not> suitable tbl ver af prefix plen rv g \<longrightarrow> g' = c)"
proof -
  obtain mc where mc: "matchGidAddrPrefix af prefix plen (tbl c) = Some mc" using m by blast
  show ?thesis
    using g mc by (auto simp: ncclUpdateGidIndex_def q v Let_def suitable_def)
qed

lemma gid_loop_first:
  assumes q: "\<And>i w. ge_query_gid E i w = ((ncclSuccess, tbl i), w)"
    and v: "\<And>i v0. 0 \<le> i \<Longrightarrow> i < N \<Longrightarrow> ncclIbRoceGetVersionNum (ge_sysfs E) (ge_deviceName E) (ge_portNum E) i v0 = (ncclSuccess, ver i)"
    and m: "\<And>i. matchGidAddrPrefix af prefix plen (tbl i) \<noteq> None"
  shows "0 \<le> g \<Longrightarrow> g < c \<Longrightarrow> c + int n \<le> N \<Longrightarrow> g = 0 \<or> matchGidAddrPrefix af prefix plen (tbl g) = Some True \<Longrightarrow>
    \<forall>k. 0 \<le> k \<and> k < c \<and> k \<noteq> g \<longrightarrow> \<not> (suitable tbl ver af prefix plen rv k \<and> (k < g \<or> \<not> suitable tbl ver af prefix plen rv g)) \<Longrightarrow>
    \<exists>j. 0 \<le> j \<and> j < c + int n \<and> suitable tbl ver af prefix plen rv j \<Longrightarrow>
    \<exists>i. gid_loop E af prefix plen rv n c g w = Some ((ncclSuccess, i), w) \<and> 0 \<le> i \<and> i < c + int n \<and> suitable tbl ver af prefix plen rv i \<and>
      (\<forall>k. 0 \<le> k \<and> k < i \<longrightarrow> \<not> suitable tbl ver af prefix plen rv k)"
proof (induction n arbitrary: c g)
  case 0
  then have "suitable tbl ver af prefix plen rv g" by auto
  then show ?case using 0 by (intro exI [of _ g]) auto
next
  case (Suc n)
  obtain g' where g': "ncclUpdateGidIndex E af prefix plen rv c g w = Some ((ncclSuccess, g'), w)"
    "g' = g \<or> g' = c \<and> matchGidAddrPrefix af prefix plen (tbl c) = Some True"
    "suitable tbl ver af prefix plen rv g \<Longrightarrow> g' = g"
    "suitable tbl ver af prefix plen rv c \<Longrightarrow> \<not> suitable tbl ver af prefix plen rv g \<Longrightarrow> g' = c"
    using update_gid_step [of E tbl N ver af prefix plen g c rv w] q v m Suc.prems(1-4) by auto
  have "\<exists>i. gid_loop E af prefix plen rv n (c + 1) g' w = Some ((ncclSuccess, i), w) \<and> 0 \<le> i \<and> i < (c + 1) + int n \<and>
      suitable tbl ver af prefix plen rv i \<and> (\<forall>k. 0 \<le> k \<and> k < i \<longrightarrow> \<not> suitable tbl ver af prefix plen rv k)"
  proof (rule Suc.IH)
    show "0 \<le> g'" "g' < c + 1" "c + 1 + int n \<le> N" "g' = 0 \<or> matchGidAddrPrefix af prefix plen (tbl g') = Some True"
      using Suc.prems(1-4) g'(2) by auto
    show "\<forall>k. 0 \<le> k \<and> k < c + 1 \<and> k \<noteq> g' \<longrightarrow> \<not> (suitable tbl ver af prefix plen rv k \<and> (k < g' \<or> \<not> suitable tbl ver af prefix plen rv g'))"
    proof (intro allI impI notI, elim conjE)
      fix k assume k: "0 \<le> k" "k < c + 1" "k \<noteq> g'" and s: "suitable tbl ver af prefix plen rv k" "k < g' \<or> \<not> suitable tbl ver af prefix plen rv g'"
      have "k < c \<or> k = c" using k(2) by linarith
      then show False using Suc.prems(2,5) k s g'(2-4) by (metis not_less_iff_gr_or_eq)
    qed
    show "\<exists>j. 0 \<le> j \<and> j < c + 1 + int n \<and> suitable tbl ver af prefix plen rv j" using Suc.prems(6) by (simp add: ac_simps)
  qed
  then show ?case using g'(1) by (simp add: ac_simps)
qed

text \<open>
  C29: On a RoCE port, when no index is configured, the GID table is stable and readable and some entry is suitable,
  \<open>ncclIbGetGidIndex\<close> succeeds with the first suitable entry.  The range is not asked of entry 0.
\<close>

theorem gid_index_first_suitable:
  assumes query: "\<And>i w. ge_query_gid E i w = ((ncclSuccess, tbl i), w)"
    and files: "\<And>i v0. 0 \<le> i \<Longrightarrow> i < gidTblLen \<Longrightarrow> ncclIbRoceGetVersionNum (ge_sysfs E) (ge_deviceName E) (ge_portNum E) i v0 = (ncclSuccess, ver i)"
    and unset: "to_cint (ge_IbGidIndex E) < 0"
    and range: "envIbAddrRange (ge_getenv E) (envIbAddrFamily (ge_getenv E)) = Some (prefix, plen)" "plen mod 32 \<noteq> 1"
    and some: "0 \<le> j" "j < gidTblLen" "suitable tbl ver (envIbAddrFamily (ge_getenv E)) prefix plen (to_cint (ge_IbRoceVersionNum E)) j"
  shows "\<exists>i. ncclIbGetGidIndex E False gidTblLen g0 w = Some ((ncclSuccess, i), w) \<and> 0 \<le> i \<and> i < gidTblLen \<and>
    suitable tbl ver (envIbAddrFamily (ge_getenv E)) prefix plen (to_cint (ge_IbRoceVersionNum E)) i \<and>
    (\<forall>k. 0 \<le> k \<and> k < i \<longrightarrow> \<not> suitable tbl ver (envIbAddrFamily (ge_getenv E)) prefix plen (to_cint (ge_IbRoceVersionNum E)) k)"
proof -
  let ?af = "envIbAddrFamily (ge_getenv E)" let ?rv = "to_cint (ge_IbRoceVersionNum E)"
  have m: "matchGidAddrPrefix ?af prefix plen (tbl i) \<noteq> None" for i
  proof (cases "plen > 0")
    case True
    then show ?thesis using range_shape [OF range(1)] match_defined [of _ ?af plen "tbl i"] range(2) by (elim disjE) auto
  next
    case False
    then show ?thesis by (simp add: matchGidAddrPrefix_def)
  qed
  have "\<exists>i. gid_loop E ?af prefix plen ?rv (nat (gidTblLen - 1)) 1 0 w = Some ((ncclSuccess, i), w) \<and> 0 \<le> i \<and> i < 1 + int (nat (gidTblLen - 1)) \<and>
    suitable tbl ver ?af prefix plen ?rv i \<and> (\<forall>k. 0 \<le> k \<and> k < i \<longrightarrow> \<not> suitable tbl ver ?af prefix plen ?rv k)"
    by (rule gid_loop_first [OF query files m]) (use some in auto)
  then show ?thesis using unset range(1) some by (simp add: ncclIbGetGidIndex_def Let_def)
qed

definition gid_env_sample :: "unit gid_env" where
  "gid_env_sample = \<lparr>ge_query_gid = (\<lambda>i w. ((ncclSuccess, if i = 2 then (0, 0x0302010affff0000) else (0x80fe, 1)), w)),
     ge_deviceName = ''rdma0'', ge_portNum = 1, ge_sysfs = (\<lambda>p. Some ''RoCE v2''), ge_getenv = (\<lambda>v. None), ge_ind = (\<lambda>i. (0, 0)),
     ge_IbRoutableFlidIbGidIndex = 1, ge_IbGidIndex = -1, ge_IbRoceVersionNum = 2\<rparr>"

theorem gid_index_first_suitable_witness:
  "\<exists>i. ncclIbGetGidIndex gid_env_sample False 4 7 () = Some ((ncclSuccess, i), ()) \<and> 0 \<le> i \<and> i < 4 \<and>
    suitable (\<lambda>i. if i = 2 then (0, 0x0302010affff0000) else (0x80fe, 1)) (\<lambda>i. 2) AF_INET None 0 2 i \<and>
    (\<forall>k. 0 \<le> k \<and> k < i \<longrightarrow> \<not> suitable (\<lambda>i. if i = 2 then (0, 0x0302010affff0000) else (0x80fe, 1)) (\<lambda>i. 2) AF_INET None 0 2 k)"
proof -
  let ?E = gid_env_sample
  have fam: "envIbAddrFamily (ge_getenv ?E) = AF_INET" "to_cint (ge_IbRoceVersionNum ?E) = 2" "to_cint (ge_IbGidIndex ?E) < 0"
    "envIbAddrRange (ge_getenv ?E) AF_INET = Some (None, 0)" by code_simp+
  have ver: "ncclIbRoceGetVersionNum (ge_sysfs ?E) (ge_deviceName ?E) (ge_portNum ?E) i v0 = (ncclSuccess, 2)" for i v0
    by (simp add: ncclIbRoceGetVersionNum_def gid_env_sample_def c_text_def starts_with_def)
  have ok: "suitable (\<lambda>i. if i = 2 then (0, 0x0302010affff0000) else (0x80fe, 1)) (\<lambda>i. 2) AF_INET None 0 2 2" by code_simp
  show ?thesis
    using gid_index_first_suitable [of ?E "\<lambda>i. if i = 2 then (0, 0x0302010affff0000) else (0x80fe, 1)" 4 "\<lambda>i. 2" None 0 2 7 "()"] fam ver ok
    by (simp add: gid_env_sample_def)
qed

end
