(* ===== verification/Setup.thy ===== *)
theory Setup
  imports Calls MrCache Receive Gid
begin

text \<open>
  Devices, protection domains, queue pairs and memory registration of a communicator
  (\<open>net_ib.cc\<close>): \<open>ncclIbInitCommDevBase\<close>, \<open>ncclIbDestroyBase\<close>, \<open>ncclIbCreateQp\<close>,
  \<open>ncclIbRtrQp\<close>, \<open>ncclIbRtsQp\<close>, \<open>ncclIbRegMrDmaBuf\<close>, \<open>anpNetRegMr\<close>, \<open>anpNetDeregMr\<close> and the
  close operations.

  The static variables of the file are the record \<open>net\<close>; a function of the source that also works on
  an object of its caller has a pair of that object and \<open>net\<close> as its state.  The verbs calls
  are the record \<open>setup_verbs\<close> over the state of the outside world; a null \<open>ibv_pd\<close> or \<open>ibv_cq\<close> is 0.
  A device is locked around the lines that use its count or cache; calls are atomic here.
\<close>

subsection \<open>Devices\<close>

definition MAX_IB_DEVS :: nat where "MAX_IB_DEVS = 32"

record port_attr =
  pa_state :: int
  pa_lid :: u16
  active_mtu :: nat
  gid_tbl_len :: int
  pa_link_layer :: u8
  active_speed :: int
  active_width :: int

record ncclIbDev =
  device :: int
  guid :: u64
  portNum :: u8
  dv_link :: u8
  speed :: int
  dv_context :: ctx_ptr
  pdRefs :: int
  dv_pd :: pd_ptr
  devName :: string
  pciPath :: "string option"
  realPort :: int
  maxQp :: int
  mrCache :: ncclIbMrCache
  dv_ar :: int
  portAttr :: port_attr

record ncclIbMergedDev =
  md_ndevs :: nat
  md_devs :: "nat list"
  md_speed :: int
  md_devName :: string

record channel_ud_s =
  ud_id :: bool
  ud_allocated :: bool

record 'w net =
  ibDevs :: "ncclIbDev list"
  mergedDevs :: "ncclIbMergedDev list"
  data_channel_ud :: "channel_ud_s list"
  data_last_ud :: "bool list"
  channel_ud :: "channel_ud_s list"
  last_ud :: "bool list"
  nx :: "'w xw"

text \<open>What the plugin says of GPU memory; the parameter is \<open>DMABUF_ENABLE\<close>.\<close>

definition ncclIbGdrSupport :: ncclResult where "ncclIbGdrSupport = ncclSuccess"

definition ncclIbDmaBufSupport :: "int \<Rightarrow> ncclResult" where
  "ncclIbDmaBufSupport DmaBufEnable = (if DmaBufEnable = 1 then ncclSuccess else ncclSystemError)"

subsection \<open>Attributes of queue pairs and the verbs that use them\<close>

definition IBV_LINK_LAYER_INFINIBAND :: u8 where "IBV_LINK_LAYER_INFINIBAND = 1"
definition IBV_LINK_LAYER_ETHERNET :: u8 where "IBV_LINK_LAYER_ETHERNET = 2"
definition ANP_CTS_QP_SLOT_INVALID :: "8 word" where "ANP_CTS_QP_SLOT_INVALID = 0xFF"

datatype udma_mask = IONIC_UDMA_MASK_LOW | IONIC_UDMA_MASK_HIGH
datatype qp_state = IBV_QPS_RESET | IBV_QPS_INIT | IBV_QPS_RTR | IBV_QPS_RTS

record qp_init_attr =
  ia_cq :: cq_ptr
  sq_sig_all :: u32
  max_send_wr :: nat
  max_recv_wr :: nat
  max_send_sge :: nat
  max_recv_sge :: nat
  max_inline_data :: nat

record ah_attr =
  is_global :: bool
  dgid :: ibv_gid
  flow_label :: u32
  sgid_index :: u8
  hop_limit :: u8
  traffic_class :: u8
  dlid :: u16
  sl :: u8
  src_path_bits :: u8
  ah_port_num :: u8

record ibv_qp_attr =
  qp_state :: qp_state
  pkey_index :: u16
  port_num :: u8
  qp_access_flags :: "ibv_access list"
  path_mtu :: nat
  dest_qp_num :: u32
  rq_psn :: u32
  max_dest_rd_atomic :: u8
  min_rnr_timer :: u8
  ah :: ah_attr
  timeout :: u8
  retry_cnt :: u8
  rnr_retry :: u8
  sq_psn :: u32
  max_rd_atomic :: u8

definition zero_ah :: ah_attr where
  "zero_ah = \<lparr>is_global = False, dgid = (0, 0), flow_label = 0, sgid_index = 0, hop_limit = 0, traffic_class = 0, dlid = 0, sl = 0,
     src_path_bits = 0, ah_port_num = 0\<rparr>"

definition zero_qp_attr :: ibv_qp_attr where
  "zero_qp_attr = \<lparr>qp_state = IBV_QPS_RESET, pkey_index = 0, port_num = 0, qp_access_flags = [], path_mtu = 0, dest_qp_num = 0, rq_psn = 0,
     max_dest_rd_atomic = 0, min_rnr_timer = 0, ah = zero_ah, timeout = 0, retry_cnt = 0, rnr_retry = 0, sq_psn = 0, max_rd_atomic = 0\<rparr>"

record ibv_ece =
  vendor_id :: u32
  ece_options :: u32
  comp_mask :: u32

record 'w setup_verbs =
  s_mem :: "'w mem_verbs"
  s_alloc_pd :: "ctx_ptr \<Rightarrow> 'w \<Rightarrow> (ncclResult \<times> pd_ptr) \<times> 'w"
  s_dealloc_pd :: "pd_ptr \<Rightarrow> 'w \<Rightarrow> (ncclResult \<times> unit) \<times> 'w"
  s_create_cq :: "ctx_ptr \<Rightarrow> int \<Rightarrow> 'w \<Rightarrow> (ncclResult \<times> cq_ptr) \<times> 'w"
  s_destroy_cq :: "cq_ptr \<Rightarrow> 'w \<Rightarrow> (ncclResult \<times> unit) \<times> 'w"
  s_create_qp :: "pd_ptr \<Rightarrow> qp_init_attr \<Rightarrow> 'w \<Rightarrow> (ncclResult \<times> ibv_qp) \<times> 'w"
  s_modify_qp :: "ibv_qp \<Rightarrow> ibv_qp_attr \<Rightarrow> 'w \<Rightarrow> (ncclResult \<times> unit) \<times> 'w"
  s_destroy_qp :: "ibv_qp \<Rightarrow> 'w \<Rightarrow> (ncclResult \<times> unit) \<times> 'w"
  ionic_dv_pd_set_udma_mask :: "pd_ptr \<Rightarrow> udma_mask \<Rightarrow> 'w \<Rightarrow> int \<times> 'w"
  ionic_dv_qp_set_gda :: "ibv_qp \<Rightarrow> bool \<Rightarrow> bool \<Rightarrow> 'w \<Rightarrow> int \<times> 'w"
  s_query_ece :: "ibv_qp \<Rightarrow> 'w \<Rightarrow> (ncclResult \<times> ibv_ece \<times> int) \<times> 'w"
  s_set_ece :: "ibv_qp \<Rightarrow> ibv_ece \<Rightarrow> 'w \<Rightarrow> (ncclResult \<times> int) \<times> 'w"
  s_socket_close :: "nat \<Rightarrow> 'w \<Rightarrow> (ncclResult \<times> unit) \<times> 'w"
  s_query_gid :: "ctx_ptr \<Rightarrow> u8 \<Rightarrow> int \<Rightarrow> 'w \<Rightarrow> (ncclResult \<times> ibv_gid) \<times> 'w"

record scfg =
  s_x :: xcfg
  IbQpsPerConn :: int
  IbPkey :: int
  IbTc :: int
  IbFifoTc :: int
  IbSl :: int
  IbTimeout :: int
  IbRetryCnt :: int
  pageSize :: u64
  ncclIbRelaxedOrderingEnabled :: bool

text \<open>A verbs call within a state that holds the world, and its result code.\<close>

definition on_world :: "('w \<Rightarrow> 'a \<times> 'w) \<Rightarrow> 'x \<times> 'w net \<Rightarrow> 'a \<times> 'x \<times> 'w net" where
  "on_world f s = (case s of (x, n) \<Rightarrow> case f (xw_w (nx n)) of (a, w) \<Rightarrow> (a, x, n\<lparr>nx := (nx n)\<lparr>xw_w := w\<rparr>\<rparr>))"

definition nexec :: "('s \<Rightarrow> 'a \<times> 's) \<Rightarrow> ('s, 'a) nc" where
  "nexec f s = (case f s of (a, t) \<Rightarrow> Some (Inr a, t))"

definition nguard :: "ncclResult \<Rightarrow> ('s, unit) nc" where
  "nguard r = (if r = ncclSuccess then nret () else nfail r)"

definition upd_dev :: "nat \<Rightarrow> (ncclIbDev \<Rightarrow> ncclIbDev) \<Rightarrow> 'w net \<Rightarrow> 'w net" where
  "upd_dev d f n = n\<lparr>ibDevs := (ibDevs n)[d := f (ibDevs n ! d)]\<rparr>"

definition with_tele :: "scfg \<Rightarrow> tele_call list \<Rightarrow> 'x \<times> 'w net \<Rightarrow> 'x \<times> 'w net" where
  "with_tele C ts s = (case s of (x, n) \<Rightarrow> (x, n\<lparr>nx := tele (s_x C) ts (nx n)\<rparr>))"

lemma keeps_exec [keeps_rules]:
  assumes "\<And>s. I s \<Longrightarrow> I (snd (f s))"
  shows "keeps I (nexec f)"
  unfolding keeps_def
proof (intro allI impI)
  fix s r t assume "I s" "nexec f s = Some (r, t)"
  then show "I t" using assms [of s] by (simp add: nexec_def split: prod.splits)
qed

lemma keeps_guard [keeps_rules]: "keeps I (nguard r)"
  by (simp add: nguard_def keeps_basic)

lemma keeps_if [keeps_rules]: "keeps I a \<Longrightarrow> keeps I b \<Longrightarrow> keeps I (if P then a else b)"
  by simp

lemma keeps_pair [keeps_rules]: "(\<And>x y. keeps I (g x y)) \<Longrightarrow> keeps I (case p of (x, y) \<Rightarrow> g x y)"
  by (cases p) simp

subsection \<open>The protection domain of a device\<close>

definition ncclIbInitCommDevBase :: "scfg \<Rightarrow> 'w setup_verbs \<Rightarrow> nat \<Rightarrow> (ncclIbNetCommDevBase \<times> 'w net, unit) nc" where
  "ncclIbInitCommDevBase C V d =
     nbind (nset (\<lambda>(b, n). (b\<lparr>ibDevN := d\<rparr>, n))) (\<lambda>_.
     nbind (nread (\<lambda>(b, n). arr_get (ibDevs n) d)) (\<lambda>dev.
     nbind (nset (\<lambda>(b, n). (b, upd_dev d (\<lambda>v. v\<lparr>pdRefs := pdRefs v + 1\<rparr>) n))) (\<lambda>_.
     nbind (nwhen (0 = pdRefs dev)
       (nbind (nexec (on_world (s_alloc_pd V (dv_context dev)))) (\<lambda>(res, p).
        nbind (nset (\<lambda>(b, n). (b, upd_dev d (\<lambda>v. v\<lparr>dv_pd := p\<rparr>) n))) (\<lambda>_.
        nguard res)))) (\<lambda>_.
     nbind (nset (\<lambda>(b, n). (b\<lparr>pd := dv_pd (ibDevs n ! d)\<rparr>, n))) (\<lambda>_.
     nbind (nexec (on_world (s_create_cq V (dv_context dev) (3 * int (MAX_REQUESTS (s_x C)) * IbQpsPerConn C)))) (\<lambda>(res, c).
     nbind (nset (\<lambda>(b, n). (b\<lparr>cq := c\<rparr>, n))) (\<lambda>_.
     nguard res)))))))"

definition ncclIbDestroyBase :: "'w setup_verbs \<Rightarrow> (ncclIbNetCommDevBase \<times> 'w net, unit) nc" where
  "ncclIbDestroyBase V =
     nbind (nget fst) (\<lambda>b.
     nbind (ncheck (on_world (s_destroy_cq V (cq b)))) (\<lambda>_.
     nbind (nread (\<lambda>(b, n). arr_get (ibDevs n) (ibDevN b))) (\<lambda>dev.
     nbind (nset (\<lambda>(b, n). (b, upd_dev (ibDevN b) (\<lambda>v. v\<lparr>pdRefs := pdRefs v - 1\<rparr>) n))) (\<lambda>_.
     nwhen (0 = pdRefs dev - 1) (ncheck (on_world (s_dealloc_pd V (dv_pd dev))))))))"

subsection \<open>Queue pairs\<close>

text \<open>
  The UDMA engine of a channel: fixed when the channel is first used, alternating on each device.
  \<open>data\<close> selects the arrays of data queue pairs or those of clear-to-send queue pairs.
\<close>

definition choose_ud :: "bool \<Rightarrow> int \<Rightarrow> nat \<Rightarrow> 'w net \<Rightarrow> (bool \<times> 'w net) option" where
  "choose_ud data ch d n = (if ch < 0 then None else
     if data then do {
       c \<leftarrow> arr_get (data_channel_ud n) (nat ch);
       if ud_allocated c then Some (ud_id c, n)
       else do {
         lud \<leftarrow> arr_get (data_last_ud n) d;
         Some (lud, n\<lparr>data_channel_ud := (data_channel_ud n)[nat ch := \<lparr>ud_id = lud, ud_allocated = True\<rparr>],
                      data_last_ud := (data_last_ud n)[d := \<not> lud]\<rparr>) } }
     else do {
       c \<leftarrow> arr_get (channel_ud n) (nat ch);
       if ud_allocated c then Some (ud_id c, n)
       else do {
         lud \<leftarrow> arr_get (last_ud n) d;
         Some (lud, n\<lparr>channel_ud := (channel_ud n)[nat ch := \<lparr>ud_id = lud, ud_allocated = True\<rparr>],
                      last_ud := (last_ud n)[d := \<not> lud]\<rparr>) } })"

text \<open>The wrappers of the card's own library (\<open>ibvwrap_extn.cc\<close>); their callers ignore the result.\<close>

definition wrap_ibv_pd_set_udma_mask :: "'w setup_verbs \<Rightarrow> pd_ptr \<Rightarrow> udma_mask \<Rightarrow> 'w \<Rightarrow> int \<times> 'w" where
  "wrap_ibv_pd_set_udma_mask V p m = ionic_dv_pd_set_udma_mask V p m"

definition wrap_ionic_dv_qp_set_gda :: "'w setup_verbs \<Rightarrow> ibv_qp \<Rightarrow> bool \<Rightarrow> bool \<Rightarrow> 'w \<Rightarrow> int \<times> 'w" where
  "wrap_ionic_dv_qp_set_gda V p enable_send enable_recv = ionic_dv_qp_set_gda V p enable_send enable_recv"

definition sig_all_bits :: "bool \<Rightarrow> u32" where
  "sig_all_bits dataQP = (let v = push_bit 16 1; v = (if dataQP then v OR push_bit 17 1 else v AND NOT (push_bit 17 1))
     in (v OR push_bit 18 1) OR push_bit 19 1)"

definition init_attr :: "scfg \<Rightarrow> ncclIbNetCommDevBase \<Rightarrow> bool \<Rightarrow> qp_init_attr" where
  "init_attr C b dataQP = \<lparr>ia_cq = cq b, sq_sig_all = sig_all_bits dataQP, max_send_wr = 2 * MAX_REQUESTS (s_x C),
     max_recv_wr = MAX_REQUESTS (s_x C), max_send_sge = 1, max_recv_sge = 1, max_inline_data = MAX_INLINE_DATA_SIZE\<rparr>"

definition qp_init_mod :: "scfg \<Rightarrow> u8 \<Rightarrow> ibv_access list \<Rightarrow> ibv_qp_attr" where
  "qp_init_mod C port acc = zero_qp_attr\<lparr>qp_state := IBV_QPS_INIT, pkey_index := word_of_int (IbPkey C), port_num := port, qp_access_flags := acc\<rparr>"

text \<open>The state is the queue pair entry the caller passes and \<open>net\<close>.\<close>

definition ncclIbCreateQp :: "scfg \<Rightarrow> 'w setup_verbs \<Rightarrow> u8 \<Rightarrow> ncclIbNetCommDevBase \<Rightarrow> ibv_access list \<Rightarrow> int \<Rightarrow> bool \<Rightarrow> 8 word \<Rightarrow> (ncclIbQp \<times> 'w net, unit) nc" where
  "ncclIbCreateQp C V port base acc channelId dataQP qp_idx =
     nbind (nread (\<lambda>(q, n). map_option fst (choose_ud dataQP channelId (ibDevN base) n))) (\<lambda>ud.
     nbind (nwrite (\<lambda>(q, n). map_option (\<lambda>r. (q, snd r)) (choose_ud dataQP channelId (ibDevN base) n))) (\<lambda>_.
     nbind (nexec (on_world (wrap_ibv_pd_set_udma_mask V (pd base) (if ud then IONIC_UDMA_MASK_HIGH else IONIC_UDMA_MASK_LOW)))) (\<lambda>_.
     nbind (nexec (on_world (s_create_qp V (pd base) (init_attr C base dataQP)))) (\<lambda>(res, p).
     nbind (nset (\<lambda>(q, n). (q\<lparr>qp := (if res = ncclSuccess then Some p else None)\<rparr>, n))) (\<lambda>_.
     nbind (nguard res) (\<lambda>_.
     nbind (nset (with_tele C [T_add_queue_pair (ibDevN base) channelId (qp_num p) dataQP])) (\<lambda>_.
     nbind (nexec (on_world (wrap_ionic_dv_qp_set_gda V p False True))) (\<lambda>_.
     nbind (ncheck (on_world (s_modify_qp V p (qp_init_mod C port acc)))) (\<lambda>_.
     nbind (nset (with_tele C [T_create_json_thread])) (\<lambda>_.
     nset (\<lambda>(q, n). (q\<lparr>ctsQpSlot := (if dataQP then ANP_CTS_QP_SLOT_INVALID else qp_idx)\<rparr>, n))))))))))))"

definition rtr_ah :: "scfg \<Rightarrow> ncclIbGidInfo \<Rightarrow> ncclIbDevInfo \<Rightarrow> bool \<Rightarrow> ah_attr" where
  "rtr_ah C g info override_tc =
     (let a = (if link_layer info = IBV_LINK_LAYER_ETHERNET then
         zero_ah\<lparr>is_global := True, dgid := gid info, flow_label := 0, sgid_index := word_of_int (localGidIndex g), hop_limit := 255,
           traffic_class := word_of_int (if IbFifoTc C \<noteq> 0 \<and> override_tc then IbFifoTc C else IbTc C)\<rparr>
       else if ncclIbExtractLocalSubnetPrefix (fst (localGid g)) = ncclIbExtractLocalSubnetPrefix (fst (gid info))
       then zero_ah\<lparr>is_global := False, dlid := ucast (lid info)\<rparr>
       else zero_ah\<lparr>dlid := (let flid = ncclIbExtractFlid (gid info) in if flid = 0 then ucast (lid info) else flid),
              is_global := True, dgid := gid info, sgid_index := word_of_int (localGidIndex g), hop_limit := 255\<rparr>)
      in a\<lparr>sl := word_of_int (IbSl C), src_path_bits := 0, ah_port_num := ib_port info\<rparr>)"

definition rtr_attr :: "scfg \<Rightarrow> ncclIbGidInfo \<Rightarrow> u32 \<Rightarrow> ncclIbDevInfo \<Rightarrow> bool \<Rightarrow> ibv_qp_attr" where
  "rtr_attr C g dest info override_tc = zero_qp_attr\<lparr>qp_state := IBV_QPS_RTR, path_mtu := mtu info, dest_qp_num := dest, rq_psn := 0,
     max_dest_rd_atomic := 1, min_rnr_timer := 12, ah := rtr_ah C g info override_tc\<rparr>"

definition ncclIbRtrQp :: "scfg \<Rightarrow> 'w setup_verbs \<Rightarrow> ibv_qp \<Rightarrow> ncclIbGidInfo \<Rightarrow> u32 \<Rightarrow> ncclIbDevInfo \<Rightarrow> bool \<Rightarrow> ('x \<times> 'w net, unit) nc" where
  "ncclIbRtrQp C V p g dest info override_tc = ncheck (on_world (s_modify_qp V p (rtr_attr C g dest info override_tc)))"

definition rts_attr :: "scfg \<Rightarrow> ibv_qp_attr" where
  "rts_attr C = zero_qp_attr\<lparr>qp_state := IBV_QPS_RTS, timeout := word_of_int (IbTimeout C), retry_cnt := word_of_int (IbRetryCnt C),
     rnr_retry := 7, sq_psn := 0, max_rd_atomic := 1\<rparr>"

definition ncclIbRtsQp :: "scfg \<Rightarrow> 'w setup_verbs \<Rightarrow> ibv_qp \<Rightarrow> ('x \<times> 'w net, unit) nc" where
  "ncclIbRtsQp C V p = ncheck (on_world (s_modify_qp V p (rts_attr C)))"

subsection \<open>Memory registration of a communicator\<close>

text \<open>
  The state is the handle being filled and \<open>net\<close>; a handle just allocated has indeterminate contents,
  which the caller of the model passes in.
\<close>

definition reg_on_dev :: "'w setup_verbs \<Rightarrow> reg_req \<Rightarrow> nat \<Rightarrow> nat \<Rightarrow> (ncclIbMrHandle \<times> 'w net, unit) nc" where
  "reg_on_dev V q d i s = (case s of (h, n) \<Rightarrow> do {
     dev \<leftarrow> arr_get (ibDevs n) d;
     (res, m, c, w) \<leftarrow> ncclIbRegMrDmaBufInternal (s_mem V) q (mrCache dev) (xw_w (nx n));
     let n = upd_dev d (\<lambda>v. v\<lparr>mrCache := c\<rparr>) (n\<lparr>nx := (nx n)\<lparr>xw_w := w\<rparr>\<rparr>);
     if res \<noteq> ncclSuccess then Some (Inl res, (h, n))
     else do { mr \<leftarrow> m; ms \<leftarrow> arr_set (mrs h) i mr; Some (Inr (), (h\<lparr>mrs := ms\<rparr>, n)) } })"

definition dma_req :: "scfg \<Rightarrow> u64 \<Rightarrow> u64 \<Rightarrow> u64 \<Rightarrow> int \<Rightarrow> ncclIbNetCommDevBase \<Rightarrow> reg_req" where
  "dma_req C data sz offset fd b = \<lparr>rq_pageSize = pageSize C, rq_relaxed = ncclIbRelaxedOrderingEnabled C, rq_pd = pd b, rq_data = data,
     rq_size = sz, rq_offset = offset, rq_fd = fd\<rparr>"

definition ncclIbRegMrDmaBuf :: "scfg \<Rightarrow> 'w setup_verbs \<Rightarrow> ('a) ncclIbNetCommBase_scheme \<Rightarrow> u64 \<Rightarrow> u64 \<Rightarrow> u64 \<Rightarrow> int \<Rightarrow> (ncclIbMrHandle \<times> 'w net, unit) nc" where
  "ncclIbRegMrDmaBuf C V comm data sz offset fd =
     nfor [0..<ndevs comm] (\<lambda>i.
       nbind (nread (\<lambda>s. ncclIbGetNetCommDevBase comm i)) (\<lambda>b.
       reg_on_dev V (dma_req C data sz offset fd b) (ibDevN b) i))"

definition anpNetRegMr :: "scfg \<Rightarrow> 'w setup_verbs \<Rightarrow> ('a) ncclIbNetCommBase_scheme \<Rightarrow> u64 \<Rightarrow> u64 \<Rightarrow> (ncclIbMrHandle \<times> 'w net, unit) nc" where
  "anpNetRegMr C V comm data sz = ncclIbRegMrDmaBuf C V comm data sz 0 (-1)"

definition dereg_on_dev :: "'w setup_verbs \<Rightarrow> ibv_mr \<Rightarrow> nat \<Rightarrow> (ncclIbMrHandle \<times> 'w net, unit) nc" where
  "dereg_on_dev V mr d s = (case s of (h, n) \<Rightarrow> do {
     dev \<leftarrow> arr_get (ibDevs n) d;
     (res, c, w) \<leftarrow> ncclIbDeregMrInternal (s_mem V) mr (mrCache dev) (xw_w (nx n));
     let n = upd_dev d (\<lambda>v. v\<lparr>mrCache := c\<rparr>) (n\<lparr>nx := (nx n)\<lparr>xw_w := w\<rparr>\<rparr>);
     Some (if res \<noteq> ncclSuccess then Inl res else Inr (), (h, n)) })"

definition anpNetDeregMr :: "'w setup_verbs \<Rightarrow> ('a) ncclIbNetCommBase_scheme \<Rightarrow> (ncclIbMrHandle \<times> 'w net, unit) nc" where
  "anpNetDeregMr V comm =
     nfor [0..<ndevs comm] (\<lambda>i.
       nbind (nread (\<lambda>s. ncclIbGetNetCommDevBase comm i)) (\<lambda>b.
       nbind (nread (\<lambda>(h, n). arr_get (mrs h) i)) (\<lambda>mr.
       dereg_on_dev V mr (ibDevN b))))"

subsection \<open>Closing\<close>

definition destroy_qp_if :: "'w setup_verbs \<Rightarrow> ibv_qp option \<Rightarrow> ('x \<times> 'w net, unit) nc" where
  "destroy_qp_if V po = (case po of Some p \<Rightarrow> ncheck (on_world (s_destroy_qp V p)) | None \<Rightarrow> nret ())"

definition dereg_mr_if :: "'w setup_verbs \<Rightarrow> ibv_mr option \<Rightarrow> ('x \<times> 'w net, unit) nc" where
  "dereg_mr_if V mo = (case mo of Some m \<Rightarrow> ncheck (on_world (\<lambda>w. case v_dereg_mr (s_mem V) m w of (r, w) \<Rightarrow> ((r, ()), w))) | None \<Rightarrow> nret ())"

definition destroy_base_of :: "'w setup_verbs \<Rightarrow> ncclIbNetCommDevBase \<Rightarrow> ('x \<times> 'w net, unit) nc" where
  "destroy_base_of V b = zoom (\<lambda>(x, n). Some (b, n)) (\<lambda>(b, n) (x, _). (x, n)) (ncclIbDestroyBase V)"

text \<open>A communicator is given with its socket; \<open>None\<close> is a null pointer.\<close>

definition anpNetCloseSend :: "'w setup_verbs \<Rightarrow> (nat \<times> ncclIbSendComm) option \<Rightarrow> ('x \<times> 'w net, unit) nc" where
  "anpNetCloseSend V sendComm = (case sendComm of None \<Rightarrow> nret () | Some (sock, comm) \<Rightarrow>
     nbind (ncheck (on_world (s_socket_close V sock))) (\<lambda>_.
     nbind (nfor [0..<nqps comm] (\<lambda>q. nbind (nread (\<lambda>s. arr_get (qps comm) q)) (\<lambda>e. destroy_qp_if V (qp e)))) (\<lambda>_.
     nfor [0..<ndevs comm] (\<lambda>i.
       nbind (nread (\<lambda>s. arr_get (fifoMr comm) i)) (\<lambda>m.
       nbind (dereg_mr_if V m) (\<lambda>_.
       nbind (nread (\<lambda>s. arr_get (remSizes_mrs comm) i)) (\<lambda>m.
       nbind (dereg_mr_if V m) (\<lambda>_.
       nbind (nread (\<lambda>s. arr_get (devBase comm) i)) (\<lambda>b.
       destroy_base_of V b)))))))))"

definition anpNetCloseRecv :: "'w setup_verbs \<Rightarrow> (nat \<times> ncclIbRecvComm) option \<Rightarrow> ('x \<times> 'w net, unit) nc" where
  "anpNetCloseRecv V recvComm = (case recvComm of None \<Rightarrow> nret () | Some (sock, comm) \<Rightarrow>
     nbind (ncheck (on_world (s_socket_close V sock))) (\<lambda>_.
     nbind (nfor [0..<nqps comm] (\<lambda>q. nbind (nread (\<lambda>s. arr_get (qps comm) q)) (\<lambda>e. destroy_qp_if V (qp e)))) (\<lambda>_.
     nfor [0..<ndevs comm] (\<lambda>i.
       nbind (nwhen (flushEnabled comm)
         (nbind (nread (\<lambda>s. arr_get (gpuFlush comm) i)) (\<lambda>f.
          nbind (destroy_qp_if V (qp (fl_qp f))) (\<lambda>_.
          dereg_mr_if V (hostMr f))))) (\<lambda>_.
       nbind (nread (\<lambda>s. arr_get (rfifoMr comm) i)) (\<lambda>m.
       nbind (dereg_mr_if V m) (\<lambda>_.
       nbind (nread (\<lambda>s. arr_get (sizesFifoMr comm) i)) (\<lambda>m.
       nbind (dereg_mr_if V m) (\<lambda>_.
       nbind (nread (\<lambda>s. arr_get (devBase comm) i)) (\<lambda>b.
       destroy_base_of V b))))))))))"

definition anpNetCloseListen :: "'w setup_verbs \<Rightarrow> nat option \<Rightarrow> ('x \<times> 'w net, unit) nc" where
  "anpNetCloseListen V listenComm = (case listenComm of None \<Rightarrow> nret () | Some sock \<Rightarrow> ncheck (on_world (s_socket_close V sock)))"

subsection \<open>What the setup calls change\<close>

lemmas setup_defs = nc_defs nexec_def nguard_def on_world_def with_tele_def

lemma setup_inv:
  "nexec f s = Some (Inr a, t) \<longleftrightarrow> f s = (a, t)"
  "nguard r s = Some (Inr u, t) \<longleftrightarrow> r = ncclSuccess \<and> t = s"
  by (auto simp: nexec_def nguard_def nc_defs split: prod.splits)

text \<open>A verbs call changes the world only.\<close>

lemma on_world_inv:
  "on_world f (x, n) = (a, t) \<longleftrightarrow> (\<exists>w. f (xw_w (nx n)) = (a, w) \<and> t = (x, n\<lparr>nx := (nx n)\<lparr>xw_w := w\<rparr>\<rparr>))"
  by (auto simp: on_world_def split: prod.splits)

lemma with_tele_eq: "with_tele C ts (x, n) = (x, n\<lparr>nx := tele (s_x C) ts (nx n)\<rparr>)"
  by (simp add: with_tele_def)

lemmas call_inv = nc_inv zoom_inv setup_inv on_world_inv with_tele_eq

lemma create_qp_effect:
  assumes "ncclIbCreateQp C V port b acc ch data idx (e, n) = Some (Inr u, (e', n'))"
  shows "\<exists>p. e' = e\<lparr>qp := Some p, ctsQpSlot := (if data then ANP_CTS_QP_SLOT_INVALID else idx)\<rparr>" "ibDevs n' = ibDevs n" "mergedDevs n' = mergedDevs n"
proof -
  have ud: "choose_ud data ch d m = Some (v, m') \<Longrightarrow> ibDevs m' = ibDevs m \<and> mergedDevs m' = mergedDevs m" for d m v m'
    by (auto simp: choose_ud_def bind_eq_Some_conv split: if_splits)
  show "\<exists>p. e' = e\<lparr>qp := Some p, ctsQpSlot := (if data then ANP_CTS_QP_SLOT_INVALID else idx)\<rparr>" "ibDevs n' = ibDevs n" "mergedDevs n' = mergedDevs n"
    using assms unfolding ncclIbCreateQp_def by (auto elim!: nbind_SomeE simp: call_inv dest!: ud split: prod.splits)
qed

lemma upd_dev_ibDevs [simp]: "ibDevs (upd_dev d f n) = (ibDevs n)[d := f (ibDevs n ! d)]"
  by (simp add: upd_dev_def)

lemma upd_dev_nx [simp]: "nx (upd_dev d f n) = nx n"
  by (simp add: upd_dev_def)

lemma init_base_effect:
  assumes "ncclIbInitCommDevBase C V d (b, n) = Some (Inr u, (b', n'))"
  shows "d < length (ibDevs n) \<and> ibDevN b' = d \<and> pd b' = dv_pd (ibDevs n' ! d) \<and>
    (\<exists>p. ibDevs n' = (ibDevs n)[d := (ibDevs n ! d)\<lparr>pdRefs := pdRefs (ibDevs n ! d) + 1, dv_pd := p\<rparr>] \<and>
      (pdRefs (ibDevs n ! d) \<noteq> 0 \<longrightarrow> p = dv_pd (ibDevs n ! d)))"
proof -
  obtain dev where d: "arr_get (ibDevs n) d = Some dev"
    using assms by (cases "arr_get (ibDevs n) d") (simp_all add: ncclIbInitCommDevBase_def setup_defs)
  then have lt: "d < length (ibDevs n)" "dev = ibDevs n ! d" by (auto dest: arr_get_SomeD)
  show ?thesis
  proof (cases "pdRefs dev = 0")
    case True
    then show ?thesis using assms d lt
      by (auto simp: ncclIbInitCommDevBase_def setup_defs nth_list_update split: prod.splits if_splits intro!: exI)
  next
    case False
    have "(ibDevs n ! d)\<lparr>pdRefs := pdRefs (ibDevs n ! d) + 1\<rparr> = (ibDevs n ! d)\<lparr>pdRefs := pdRefs (ibDevs n ! d) + 1, dv_pd := dv_pd (ibDevs n ! d)\<rparr>" by simp
    then show ?thesis using assms d lt False
      by (auto simp: ncclIbInitCommDevBase_def setup_defs split: prod.splits if_splits intro!: exI [of _ "dv_pd (ibDevs n ! d)"])
  qed
qed

lemma destroy_base_effect:
  assumes "ncclIbDestroyBase V (b, n) = Some (Inr u, (b', n'))"
  shows "ibDevN b < length (ibDevs n) \<and> b' = b \<and>
    ibDevs n' = (ibDevs n)[ibDevN b := (ibDevs n ! ibDevN b)\<lparr>pdRefs := pdRefs (ibDevs n ! ibDevN b) - 1\<rparr>]"
  using assms by (auto simp: ncclIbDestroyBase_def setup_defs dest!: arr_get_SomeD split: prod.splits if_splits option.splits)

subsection \<open>The protection domain as a counted resource\<close>

text \<open>
  A provider state is the list of live device bases and \<open>net\<close>.  The invariant: the count of a device is the
  number of live bases on it, and each of them has the domain of its device.
\<close>

definition bases_on :: "nat \<Rightarrow> ncclIbNetCommDevBase list \<Rightarrow> nat" where
  "bases_on d bs = length (filter (\<lambda>b. ibDevN b = d) bs)"

definition pd_inv :: "ncclIbNetCommDevBase list \<times> 'w net \<Rightarrow> bool" where
  "pd_inv s = (case s of (bs, n) \<Rightarrow>
     (\<forall>d<length (ibDevs n). pdRefs (ibDevs n ! d) = int (bases_on d bs)) \<and>
     (\<forall>b\<in>set bs. ibDevN b < length (ibDevs n) \<and> pd b = dv_pd (ibDevs n ! ibDevN b)))"

definition pd_acq :: "scfg \<Rightarrow> 'w setup_verbs \<Rightarrow> ncclIbNetCommDevBase list \<times> 'w net \<Rightarrow> nat \<Rightarrow> ncclIbNetCommDevBase list \<times> 'w net \<Rightarrow> bool" where
  "pd_acq C V s d s' \<longleftrightarrow> (\<exists>b0 b u. ncclIbInitCommDevBase C V d (b0, snd s) = Some (Inr u, (b, snd s')) \<and> fst s' = fst s @ [b])"

definition pd_rel :: "'w setup_verbs \<Rightarrow> ncclIbNetCommDevBase list \<times> 'w net \<Rightarrow> nat \<Rightarrow> ncclIbNetCommDevBase list \<times> 'w net \<Rightarrow> bool" where
  "pd_rel V s d s' \<longleftrightarrow> (\<exists>k b u. k < length (fst s) \<and> ibDevN (fst s ! k) = d \<and>
     ncclIbDestroyBase V (fst s ! k, snd s) = Some (Inr u, (b, snd s')) \<and> fst s' = take k (fst s) @ drop (Suc k) (fst s))"

definition pd_cnt :: "ncclIbNetCommDevBase list \<times> 'w net \<Rightarrow> nat \<Rightarrow> int" where
  "pd_cnt s d = (if d < length (ibDevs (snd s)) then pdRefs (ibDevs (snd s) ! d) else 0)"

lemma bases_on_append [simp]: "bases_on d (as @ bs) = bases_on d as + bases_on d bs" "bases_on d (b # bs) = (if ibDevN b = d then 1 else 0) + bases_on d bs" "bases_on d [] = 0"
  by (simp_all add: bases_on_def)

lemma bases_on_remove: "k < length bs \<Longrightarrow> bases_on d bs = bases_on d (take k bs @ drop (Suc k) bs) + (if ibDevN (bs ! k) = d then 1 else 0)"
proof -
  assume "k < length bs"
  then have "bases_on d bs = bases_on d (take k bs @ [bs ! k] @ drop (Suc k) bs)" by (metis append_Cons append_Nil id_take_nth_drop)
  then show ?thesis by simp
qed

lemma bases_on_0: "bases_on d bs = 0 \<longleftrightarrow> (\<forall>b\<in>set bs. ibDevN b \<noteq> d)"
  by (auto simp: bases_on_def filter_empty_conv)

lemma pd_acq_inv:
  assumes "pd_inv s" "pd_acq C V s d s'"
  shows "pd_inv s'" "d < length (ibDevs (snd s))" "length (ibDevs (snd s')) = length (ibDevs (snd s))"
    "g < length (ibDevs (snd s)) \<Longrightarrow> pdRefs (ibDevs (snd s') ! g) = pdRefs (ibDevs (snd s) ! g) + (if g = d then 1 else 0)"
proof -
  obtain bs n bs' n' where s: "s = (bs, n)" "s' = (bs', n')" by (cases s, cases s') simp
  then obtain b0 b u where b: "ncclIbInitCommDevBase C V d (b0, n) = Some (Inr u, (b, n'))" "bs' = bs @ [b]"
    using assms(2) unfolding pd_acq_def by auto
  obtain p where e: "d < length (ibDevs n)" "ibDevN b = d" "pd b = dv_pd (ibDevs n' ! d)"
    "ibDevs n' = (ibDevs n)[d := (ibDevs n ! d)\<lparr>pdRefs := pdRefs (ibDevs n ! d) + 1, dv_pd := p\<rparr>]"
    "pdRefs (ibDevs n ! d) \<noteq> 0 \<Longrightarrow> p = dv_pd (ibDevs n ! d)"
    using init_base_effect [OF b(1)] by blast
  have none: "pdRefs (ibDevs n ! d) = 0 \<Longrightarrow> \<forall>c\<in>set bs. ibDevN c \<noteq> d"
    using assms(1) s e(1) by (simp add: pd_inv_def bases_on_0 [symmetric])
  then have same: "\<forall>c\<in>set bs. ibDevN c = d \<longrightarrow> dv_pd (ibDevs n ! d) = p" using e(5) by metis
  show "pd_inv s'" "d < length (ibDevs (snd s))" "length (ibDevs (snd s')) = length (ibDevs (snd s))"
    "g < length (ibDevs (snd s)) \<Longrightarrow> pdRefs (ibDevs (snd s') ! g) = pdRefs (ibDevs (snd s) ! g) + (if g = d then 1 else 0)"
    using assms(1) s b(2) e(1-4) same by (auto simp: pd_inv_def nth_list_update)
qed

lemma pd_rel_inv:
  assumes "pd_inv s" "pd_rel V s d s'"
  shows "pd_inv s'" "d < length (ibDevs (snd s))" "length (ibDevs (snd s')) = length (ibDevs (snd s))"
    "g < length (ibDevs (snd s)) \<Longrightarrow> pdRefs (ibDevs (snd s') ! g) = pdRefs (ibDevs (snd s) ! g) - (if g = d then 1 else 0)"
proof -
  obtain bs n bs' n' where s: "s = (bs, n)" "s' = (bs', n')" by (cases s, cases s') simp
  then obtain k b u where b: "k < length bs" "ibDevN (bs ! k) = d" "ncclIbDestroyBase V (bs ! k, n) = Some (Inr u, (b, n'))"
      "bs' = take k bs @ drop (Suc k) bs"
    using assms(2) unfolding pd_rel_def by auto
  have e: "d < length (ibDevs n)" "ibDevs n' = (ibDevs n)[d := (ibDevs n ! d)\<lparr>pdRefs := pdRefs (ibDevs n ! d) - 1\<rparr>]"
    using destroy_base_effect [OF b(3)] b(2) by auto
  have sub: "set (take k bs @ drop (Suc k) bs) \<subseteq> set bs" by (auto dest: in_set_takeD in_set_dropD)
  have cnt: "int (bases_on g bs) = int (bases_on g (take k bs @ drop (Suc k) bs)) + (if g = d then 1 else 0)" for g
    using bases_on_remove [OF b(1), of g] b(2) by simp
  show "d < length (ibDevs (snd s))" "length (ibDevs (snd s')) = length (ibDevs (snd s))"
    "g < length (ibDevs (snd s)) \<Longrightarrow> pdRefs (ibDevs (snd s') ! g) = pdRefs (ibDevs (snd s) ! g) - (if g = d then 1 else 0)"
    using s b(4) e by (auto simp: nth_list_update)
  have "\<forall>c\<in>set (take k bs @ drop (Suc k) bs). ibDevN c < length (ibDevs n') \<and> pd c = dv_pd (ibDevs n' ! ibDevN c)"
    using assms(1) s e sub by (auto simp: pd_inv_def nth_list_update)
  moreover have "\<forall>g<length (ibDevs n'). pdRefs (ibDevs n' ! g) = int (bases_on g (take k bs @ drop (Suc k) bs))"
    using assms(1) s e cnt by (auto simp: pd_inv_def nth_list_update simp del: bases_on_append)
  ultimately show "pd_inv s'" using s b(4) by (simp add: pd_inv_def del: bases_on_append)
qed

interpretation pdc: refcounted pd_inv "pd_acq C V" "pd_rel V" pd_cnt
  for C :: scfg and V :: "'w setup_verbs"
proof unfold_locales
  fix s :: "ncclIbNetCommDevBase list \<times> 'w net" and h assume "pd_inv s"
  then show "0 \<le> pd_cnt s h" by (cases s) (simp add: pd_inv_def pd_cnt_def)
next
  fix s s' :: "ncclIbNetCommDevBase list \<times> 'w net" and h g assume i: "pd_inv s" and a: "pd_acq C V s h s'"
  show "pd_inv s'" using i a by (rule pd_acq_inv)
  show "pd_cnt s' g = (if g = h then pd_cnt s g + 1 else pd_cnt s g)"
    using pd_acq_inv(2-4) [OF i a] by (auto simp: pd_cnt_def)
next
  fix s s' :: "ncclIbNetCommDevBase list \<times> 'w net" and h g assume i: "pd_inv s" and a: "pd_rel V s h s'"
  show "pd_inv s'" using i a by (rule pd_rel_inv)
  show "pd_cnt s' g = (if g = h then pd_cnt s g - 1 else pd_cnt s g)"
    using pd_rel_inv(2-4) [OF i a] by (auto simp: pd_cnt_def)
qed

text \<open>A sequence of calls, all of which succeed; \<open>DestroyBase k\<close> destroys the \<open>k\<close>th live base.\<close>

datatype pd_call = InitBase nat | DestroyBase nat

definition zero_base :: ncclIbNetCommDevBase where
  "zero_base = \<lparr>ibDevN = 0, pd = 0, cq = 0, gidInfo = \<lparr>gi_link_layer = 0, localGid = (0, 0), localGidIndex = 0\<rparr>\<rparr>"

fun pd_session :: "scfg \<Rightarrow> 'w setup_verbs \<Rightarrow> pd_call list \<Rightarrow> ncclIbNetCommDevBase list \<Rightarrow> 'w net \<Rightarrow>
    (nat rc_call list \<times> ncclIbNetCommDevBase list \<times> 'w net) option" where
  "pd_session C V [] bs n = Some ([], bs, n)"
| "pd_session C V (InitBase d # cs) bs n = (case ncclIbInitCommDevBase C V d (zero_base, n) of
     Some (Inr _, (b, n)) \<Rightarrow> map_option (\<lambda>(t, r). (Acquire d # t, r)) (pd_session C V cs (bs @ [b]) n)
   | _ \<Rightarrow> None)"
| "pd_session C V (DestroyBase k # cs) bs n = (if k < length bs then case ncclIbDestroyBase V (bs ! k, n) of
     Some (Inr _, (b, n)) \<Rightarrow> map_option (\<lambda>(t, r). (Release (ibDevN (bs ! k)) # t, r)) (pd_session C V cs (take k bs @ drop (Suc k) bs) n)
   | _ \<Rightarrow> None else None)"

lemma pd_session_run: "pd_session C V cs bs n = Some (tr, bs', n') \<Longrightarrow> pdc.run C V (bs, n) tr (bs', n')"
proof (induction C V cs bs n arbitrary: tr rule: pd_session.induct)
  case (1 C V bs n)
  then show ?case by (auto intro: pdc.run_nil)
next
  case (2 C V d cs bs n)
  from "2.prems" obtain u b m t where i: "ncclIbInitCommDevBase C V d (zero_base, n) = Some (Inr u, (b, m))"
    and r: "pd_session C V cs (bs @ [b]) m = Some (t, bs', n')" "tr = Acquire d # t"
    by (auto split: option.splits sum.splits prod.splits)
  have "pd_acq C V (bs, n) d (bs @ [b], m)" using i by (auto simp: pd_acq_def)
  then show ?case using "2.IH" i r by (auto intro: pdc.run_acq)
next
  case (3 C V k cs bs n)
  from "3.prems" obtain u b m t where k: "k < length bs" "ncclIbDestroyBase V (bs ! k, n) = Some (Inr u, (b, m))"
    and r: "pd_session C V cs (take k bs @ drop (Suc k) bs) m = Some (t, bs', n')" "tr = Release (ibDevN (bs ! k)) # t"
    by (auto split: option.splits sum.splits prod.splits if_splits)
  have "pd_rel V (bs, n) (ibDevN (bs ! k)) (take k bs @ drop (Suc k) bs, m)" using k by (auto simp: pd_rel_def)
  then show ?case using "3.IH" k r by (auto intro: pdc.run_rel)
qed


text \<open>
  When the first allocation of a device's domain fails, the count stays raised: the next initialisation on that device skips the
  allocation and, if its completion queue can be created, reports success with the null domain the failed call left.
\<close>

theorem failed_domain_poisons_device:
  assumes "d < length (ibDevs n)" "pdRefs (ibDevs n ! d) = 0"
    and "s_alloc_pd V (dv_context (ibDevs n ! d)) (xw_w (nx n)) = ((res, 0), w)" "res \<noteq> ncclSuccess"
    and "s_create_cq V (dv_context (ibDevs n ! d)) (3 * int (MAX_REQUESTS (s_x C)) * IbQpsPerConn C) w = ((ncclSuccess, c), w')"
  shows "\<exists>b1 n1 b2 n2. ncclIbInitCommDevBase C V d (zero_base, n) = Some (Inl res, (b1, n1)) \<and>
    ncclIbInitCommDevBase C V d (zero_base, n1) = Some (Inr (), (b2, n2)) \<and> pd b2 = 0 \<and> pdRefs (ibDevs n2 ! d) = 2"
  using assms by (simp add: ncclIbInitCommDevBase_def setup_defs ub_simps)

subsection \<open>Registration of a communicator's buffers\<close>

definition dev_refs :: "'w net \<Rightarrow> nat \<Rightarrow> nat \<Rightarrow> int" where
  "dev_refs n d p = refs_of (mset (live (mrCache (ibDevs n ! d)))) p"

definition caches_ok :: "'w net \<Rightarrow> bool" where
  "caches_ok n \<longleftrightarrow> (\<forall>v\<in>set (ibDevs n). cache_inv (mrCache v))"

text \<open>The references the first \<open>k\<close> entries of a handle stand for, on device \<open>d\<close> to the region \<open>p\<close>.\<close>

definition handle_refs :: "('a) ncclIbNetCommBase_scheme \<Rightarrow> ncclIbMrHandle \<Rightarrow> nat \<Rightarrow> nat \<Rightarrow> nat \<Rightarrow> int" where
  "handle_refs comm h k d p = int (length (filter (\<lambda>j. ibDevN (devBase comm ! j) = d \<and> mr_ptr (mrs h ! j) = p) [0..<k]))"

lemma handle_refs_simps [simp]:
  "handle_refs comm h 0 d p = 0"
  "handle_refs comm h (Suc k) d p = handle_refs comm h k d p + (if ibDevN (devBase comm ! k) = d \<and> mr_ptr (mrs h ! k) = p then 1 else 0)"
  by (simp_all add: handle_refs_def)

lemma handle_refs_upd: "k \<le> i \<Longrightarrow> handle_refs comm (h\<lparr>mrs := (mrs h)[i := m]\<rparr>) k d p = handle_refs comm h k d p"
  by (induction k) auto

lemma caches_ok_upd: "caches_ok n \<Longrightarrow> cache_inv c \<Longrightarrow> caches_ok (upd_dev d (\<lambda>v. v\<lparr>mrCache := c\<rparr>) (n\<lparr>nx := x\<rparr>))"
  by (auto simp: caches_ok_def upd_dev_def dest!: set_update_subset_insert [THEN subsetD])

lemma reg_on_dev_effect:
  assumes "caches_ok n" "reg_on_dev V q d i (h, n) = Some (Inr u, (h', n'))"
  shows "caches_ok n' \<and> length (ibDevs n') = length (ibDevs n) \<and> (\<exists>mr. i < length (mrs h) \<and> h' = h\<lparr>mrs := (mrs h)[i := mr]\<rparr> \<and>
    (\<forall>g<length (ibDevs n). \<forall>p. dev_refs n' g p = dev_refs n g p + (if g = d \<and> p = mr_ptr mr then 1 else 0)))"
proof -
  obtain dev res m c w where r: "arr_get (ibDevs n) d = Some dev"
      "ncclIbRegMrDmaBufInternal (s_mem V) q (mrCache dev) (xw_w (nx n)) = Some (res, m, c, w)"
    using assms(2) by (auto simp: reg_on_dev_def bind_eq_Some_conv)
  then have res: "res = ncclSuccess" using assms(2) by (auto simp: reg_on_dev_def Let_def split: if_splits)
  obtain mr where mr: "m = Some mr" "i < length (mrs h)" "h' = h\<lparr>mrs := (mrs h)[i := mr]\<rparr>"
    "n' = upd_dev d (\<lambda>v. v\<lparr>mrCache := c\<rparr>) (n\<lparr>nx := (nx n)\<lparr>xw_w := w\<rparr>\<rparr>)"
    using assms(2) r res by (auto simp: reg_on_dev_def Let_def bind_eq_Some_conv dest!: arr_set_SomeD)
  have d: "d < length (ibDevs n)" "dev = ibDevs n ! d" using r(1) by (auto dest: arr_get_SomeD)
  then have inv: "cache_inv (mrCache dev)" using assms(1) by (simp add: caches_ok_def)
  have acq: "cache_acq (s_mem V) (mrCache dev, xw_w (nx n)) (mr_ptr mr) (c, w)"
    using r(2) res mr(1) unfolding cache_acq_def by auto
  have "cache_inv c" using mrc.acq_inv [OF _ acq] inv by simp
  moreover have "refs_of (mset (live c)) p = refs_of (mset (live (mrCache dev))) p + (if p = mr_ptr mr then 1 else 0)" for p
    using mrc.acq_cnt [OF _ acq, of p] inv by simp
  ultimately show ?thesis using assms(1) mr d
    by (auto intro!: caches_ok_upd exI [of _ mr] simp: dev_refs_def nth_list_update)
qed

lemma dereg_on_dev_effect:
  assumes "caches_ok n" "dereg_on_dev V mr d (h, n) = Some (Inr u, (h', n'))"
  shows "caches_ok n' \<and> length (ibDevs n') = length (ibDevs n) \<and> h' = h \<and>
    (\<forall>g<length (ibDevs n). \<forall>p. dev_refs n' g p = dev_refs n g p - (if g = d \<and> p = mr_ptr mr then 1 else 0))"
proof -
  obtain dev res c w where r: "arr_get (ibDevs n) d = Some dev"
      "ncclIbDeregMrInternal (s_mem V) mr (mrCache dev) (xw_w (nx n)) = Some (res, c, w)"
    using assms(2) by (auto simp: dereg_on_dev_def bind_eq_Some_conv)
  then have res: "res = ncclSuccess" "h' = h" "n' = upd_dev d (\<lambda>v. v\<lparr>mrCache := c\<rparr>) (n\<lparr>nx := (nx n)\<lparr>xw_w := w\<rparr>\<rparr>)"
    using assms(2) by (auto simp: dereg_on_dev_def Let_def split: if_splits)
  have d: "d < length (ibDevs n)" "dev = ibDevs n ! d" using r(1) by (auto dest: arr_get_SomeD)
  then have inv: "cache_inv (mrCache dev)" using assms(1) by (simp add: caches_ok_def)
  have "\<exists>e\<in>set (live (mrCache dev)). mr_ptr (mr_mr e) = mr_ptr mr"
    using dereg_success_present r(2) res(1) inv by (auto simp: cache_inv_def)
  then have rel: "cache_rel (s_mem V) (mrCache dev, xw_w (nx n)) (mr_ptr mr) (c, w)"
    using r(2) res unfolding cache_rel_def by auto
  have "cache_inv c" using mrc.rel_inv [OF _ rel] inv by simp
  moreover have "refs_of (mset (live c)) p = refs_of (mset (live (mrCache dev))) p - (if p = mr_ptr mr then 1 else 0)" for p
    using mrc.rel_cnt [OF _ rel, of p] inv by simp
  ultimately show ?thesis using assms(1) res d
    by (auto intro!: caches_ok_upd simp: dev_refs_def nth_list_update)
qed

text \<open>After \<open>k\<close> devices: the references changed by those of the first \<open>k\<close> entries, counted \<open>e\<close> times.\<close>

definition refs_moved :: "int \<Rightarrow> ('a) ncclIbNetCommBase_scheme \<Rightarrow> 'w net \<Rightarrow> nat \<Rightarrow> ncclIbMrHandle \<times> 'w net \<Rightarrow> bool" where
  "refs_moved e comm n k s \<longleftrightarrow> caches_ok (snd s) \<and> length (ibDevs (snd s)) = length (ibDevs n) \<and>
    (\<forall>g<length (ibDevs n). \<forall>p. dev_refs (snd s) g p = dev_refs n g p + e * handle_refs comm (fst s) k g p)"

lemma reg_step:
  assumes "refs_moved 1 comm n i s" "arr_get (devBase comm) i = Some b" "reg_on_dev V q (ibDevN b) i s = Some (Inr a, t)"
  shows "refs_moved 1 comm n (Suc i) t"
proof -
  have b: "ibDevN b = ibDevN (devBase comm ! i)" using assms(2) by (auto dest: arr_get_SomeD)
  obtain h m h' m' where s: "s = (h, m)" "t = (h', m')" by (cases s, cases t) simp
  have ok: "caches_ok m" using assms(1) s by (simp add: refs_moved_def)
  obtain mr where mr: "caches_ok m'" "length (ibDevs m') = length (ibDevs m)" "i < length (mrs h)" "h' = h\<lparr>mrs := (mrs h)[i := mr]\<rparr>"
    "\<forall>g<length (ibDevs m). \<forall>p. dev_refs m' g p = dev_refs m g p + (if g = ibDevN (devBase comm ! i) \<and> p = mr_ptr mr then 1 else 0)"
    using reg_on_dev_effect [OF ok assms(3) [unfolded s b]] by blast
  show ?thesis using assms(1) s mr by (auto simp: refs_moved_def handle_refs_upd)
qed

lemma dereg_step:
  assumes "refs_moved (-1) comm n i s" "fst s = h" "arr_get (devBase comm) i = Some b" "arr_get (mrs h) i = Some mr"
    "dereg_on_dev V mr (ibDevN b) s = Some (Inr a, t)"
  shows "refs_moved (-1) comm n (Suc i) t \<and> fst t = h"
proof -
  have b: "b = devBase comm ! i" "mr = mrs h ! i" using assms(3,4) by (auto dest: arr_get_SomeD)
  obtain m h' m' where s: "s = (h, m)" "t = (h', m')" using assms(2) by (cases s, cases t) simp
  have ok: "caches_ok m" using assms(1) s by (simp add: refs_moved_def)
  show ?thesis using dereg_on_dev_effect [OF ok assms(5) [unfolded s b]] assms(1) s by (auto simp: refs_moved_def)
qed

lemma reg_refs: "ends_in (refs_moved 1 comm n 0) (ncclIbRegMrDmaBuf C V comm data sz off fd) (\<lambda>_. refs_moved 1 comm n (ndevs comm))"
  unfolding ncclIbRegMrDmaBuf_def
proof (rule ends_for)
  fix i
  show "ends_in (refs_moved 1 comm n i) (nbind (nread (\<lambda>s. ncclIbGetNetCommDevBase comm i))
    (\<lambda>b. reg_on_dev V (dma_req C data sz off fd b) (ibDevN b) i)) (\<lambda>_. refs_moved 1 comm n (Suc i))"
    by (auto simp: ends_in_def nread_def ncclIbGetNetCommDevBase_def elim!: nbind_SomeE split: option.splits dest: reg_step)
qed simp

lemma dereg_refs:
  "ends_in (\<lambda>s. refs_moved (-1) comm n 0 s \<and> fst s = h) (anpNetDeregMr V comm) (\<lambda>_ s. refs_moved (-1) comm n (ndevs comm) s \<and> fst s = h)"
  unfolding anpNetDeregMr_def
proof (rule ends_for)
  fix i
  show "ends_in (\<lambda>s. refs_moved (-1) comm n i s \<and> fst s = h) (nbind (nread (\<lambda>s. ncclIbGetNetCommDevBase comm i))
    (\<lambda>b. nbind (nread (\<lambda>(h, n). arr_get (mrs h) i)) (\<lambda>mr. dereg_on_dev V mr (ibDevN b)))) (\<lambda>_ s. refs_moved (-1) comm n (Suc i) s \<and> fst s = h)"
    by (auto simp: ends_in_def nread_def ncclIbGetNetCommDevBase_def elim!: nbind_SomeE split: option.splits dest: dereg_step)
qed simp

text \<open>
  C20: Deregistering a handle takes back exactly the references its registration took, one per device of the communicator, whatever was
  registered or deregistered in between; both leave the caches well-formed.
\<close>

theorem deregister_undoes_register:
  assumes "caches_ok n" "anpNetRegMr C V comm data sz (h0, n) = Some (Inr u, (h, n1))"
    and "caches_ok m" "length (ibDevs m) = length (ibDevs n)" "anpNetDeregMr V comm (h, m) = Some (Inr u', (h', m1))"
  shows "caches_ok n1 \<and> caches_ok m1 \<and>
    (\<forall>d<length (ibDevs n). \<forall>p. dev_refs n1 d p - dev_refs n d p = dev_refs m d p - dev_refs m1 d p \<and> dev_refs n d p \<le> dev_refs n1 d p)"
proof -
  have r: "refs_moved 1 comm n (ndevs comm) (h, n1)"
    using assms(1,2) by (intro ends_inD [OF reg_refs, where s = "(h0, n)"]) (auto simp: refs_moved_def anpNetRegMr_def)
  have d: "refs_moved (-1) comm m (ndevs comm) (h', m1) \<and> fst (h', m1) = h"
    using assms(3,5) by (intro ends_inD [OF dereg_refs, where s = "(h, m)"]) (auto simp: refs_moved_def)
  show ?thesis using r d assms(4) by (auto simp: refs_moved_def handle_refs_def)
qed

subsection \<open>Concrete runs\<close>

text \<open>A world that counts the objects it has handed out; \<open>demo_setup f\<close> fails the allocation of a domain when \<open>f\<close> holds of the world.\<close>

definition demo_setup :: "(nat \<Rightarrow> bool) \<Rightarrow> nat setup_verbs" where
  "demo_setup f = \<lparr>s_mem = demo_mem,
     s_alloc_pd = (\<lambda>c w. if f w then ((ncclSystemError, 0), Suc w) else ((ncclSuccess, Suc w), Suc w)), s_dealloc_pd = (\<lambda>p w. ((ncclSuccess, ()), w)),
     s_create_cq = (\<lambda>c k w. ((ncclSuccess, Suc w), Suc w)), s_destroy_cq = (\<lambda>c w. ((ncclSuccess, ()), w)),
     s_create_qp = (\<lambda>p a w. ((ncclSuccess, \<lparr>qp_ptr = ia_cq a, qp_num = word_of_nat (Suc w)\<rparr>), Suc w)), s_modify_qp = (\<lambda>q a w. ((ncclSuccess, ()), w)),
     s_destroy_qp = (\<lambda>q w. ((ncclSuccess, ()), w)), ionic_dv_pd_set_udma_mask = (\<lambda>p m w. (0, w)), ionic_dv_qp_set_gda = (\<lambda>q a b w. (0, w)),
     s_query_ece = (\<lambda>q w. ((ncclSuccess, \<lparr>vendor_id = 0, ece_options = 0, comp_mask = 0\<rparr>, 0), w)), s_set_ece = (\<lambda>q e w. ((ncclSuccess, 0), w)),
     s_socket_close = (\<lambda>k w. ((ncclSuccess, ()), w)), s_query_gid = (\<lambda>c p i w. ((ncclSuccess, (0, 0)), w))\<rparr>"

definition demo_scfg :: scfg where
  "demo_scfg = \<lparr>s_x = demo_cfg, IbQpsPerConn = 1, IbPkey = 0, IbTc = 0, IbFifoTc = 0, IbSl = 0, IbTimeout = 18, IbRetryCnt = 7,
     pageSize = 4096, ncclIbRelaxedOrderingEnabled = False\<rparr>"

definition demo_dev :: "nat \<Rightarrow> ncclIbDev" where
  "demo_dev i = \<lparr>device = int i, guid = 0, portNum = 1, dv_link = 2, speed = 100000, dv_context = i, pdRefs = 0, dv_pd = 0, devName = ''rdma0'',
     pciPath = Some ''/sys'', realPort = 0, maxQp = 256, mrCache = empty_cache, dv_ar = 0,
     portAttr = \<lparr>pa_state = 4, pa_lid = 0, active_mtu = 5, gid_tbl_len = 4, pa_link_layer = 2, active_speed = 32, active_width = 2\<rparr>\<rparr>"

definition demo_net :: "nat net" where
  "demo_net = \<lparr>ibDevs = map demo_dev [0..<3], mergedDevs = [\<lparr>md_ndevs = 2, md_devs = [0, 1], md_speed = 200000, md_devName = ''rdma0+rdma1''\<rparr>],
     data_channel_ud = replicate 128 \<lparr>ud_id = False, ud_allocated = False\<rparr>, data_last_ud = replicate 128 False,
     channel_ud = replicate 128 \<lparr>ud_id = False, ud_allocated = False\<rparr>, last_ud = replicate 128 False,
     nx = \<lparr>xw_dbg = xw_dbg demo_xw, xw_tele = [], xw_w = 0\<rparr>\<rparr>"


theorem failed_domain_poisons_device_witness:
  "\<exists>b1 n1 b2 n2. ncclIbInitCommDevBase demo_scfg (demo_setup (\<lambda>w. w = 0)) 1 (zero_base, demo_net) = Some (Inl ncclSystemError, (b1, n1)) \<and>
    ncclIbInitCommDevBase demo_scfg (demo_setup (\<lambda>w. w = 0)) 1 (zero_base, n1) = Some (Inr (), (b2, n2)) \<and> pd b2 = 0 \<and> pdRefs (ibDevs n2 ! 1) = 2"
  by (rule failed_domain_poisons_device [of 1 demo_net "demo_setup (\<lambda>w. w = 0)" ncclSystemError 1 demo_scfg 2 2])
    (simp_all add: demo_net_def demo_dev_def demo_setup_def numeral_eq_Suc)

theorem deregister_undoes_register_witness:
  "\<exists>h n1 h' m1. anpNetRegMr demo_scfg (demo_setup (\<lambda>w. False)) demo_send 0x2010 100 (demo_mrh, demo_net) = Some (Inr (), (h, n1)) \<and>
    anpNetDeregMr (demo_setup (\<lambda>w. False)) demo_send (h, n1) = Some (Inr (), (h', m1)) \<and>
    (\<forall>d<length (ibDevs demo_net). \<forall>p. dev_refs m1 d p = dev_refs demo_net d p)"
proof -
  let ?V = "demo_setup (\<lambda>w. False)"
  have "ended (anpNetRegMr demo_scfg ?V demo_send 0x2010 100 (demo_mrh, demo_net)) (\<lambda>_ t. length (ibDevs (snd t)) = 3 \<and>
     ended (anpNetDeregMr ?V demo_send t) (\<lambda>_ t. True))" by code_simp
  then obtain h n1 h' m1 where r: "anpNetRegMr demo_scfg ?V demo_send 0x2010 100 (demo_mrh, demo_net) = Some (Inr (), (h, n1))"
    "anpNetDeregMr ?V demo_send (h, n1) = Some (Inr (), (h', m1))" "length (ibDevs n1) = 3"
    unfolding ended_iff by auto
  have ok: "caches_ok demo_net" by (auto simp: caches_ok_def demo_net_def demo_dev_def cache_inv_def)
  have len: "length (ibDevs n1) = length (ibDevs demo_net)" using r(3) by (simp add: demo_net_def)
  have ok1: "caches_ok n1"
    using ends_inD [OF reg_refs, where s = "(demo_mrh, demo_net)"] r(1) ok by (fastforce simp: anpNetRegMr_def refs_moved_def)
  show ?thesis using deregister_undoes_register [OF ok r(1) ok1 len r(2)] r by auto
qed

end
