(* ===== verification/Connection.thy ===== *)
theory Connection
  imports Setup
begin

text \<open>
  Connection establishment (\<open>net_ib.cc\<close>): \<open>anpNetListen\<close>, \<open>anpNetConnect\<close> and \<open>anpNetAccept\<close>.

  Connecting and accepting are written as resumable functions: each call jumps to the label the
  stage names and goes on until the socket has nothing more to give.  A label is a definition that
  continues with the next one; the value of a call that is not finished is \<open>None\<close>.  The stage holds the communicator with its socket,
  the offset and the message buffer.  RCCL's sockets, its allocator (which clears the memory it hands out)
  and the GPU allocation are the record \<open>conn_env\<close>.  The metadata variable of the source is not initialised; its
  first contents are a parameter.
\<close>

subsection \<open>Messages, stages and the environment\<close>

record ncclIbQpInfo =
  qpn :: u32
  qi_ece :: ibv_ece
  ece_supported :: int
  qi_devIndex :: int

record ncclIbConnectionMetadata =
  qpInfo :: "ncclIbQpInfo list"
  cm_devs :: "ncclIbDevInfo list"
  cm_devName :: string
  fifoAddr :: u64
  cm_ndevs :: int

datatype ncclIbCommState =
    ncclIbCommStateStart
  | ncclIbCommStateConnect
  | ncclIbCommStateAccept
  | ncclIbCommStateSend
  | ncclIbCommStateRecv
  | ncclIbCommStateConnecting
  | ncclIbCommStateConnected
  | ncclIbCommStatePendingReady

text \<open>A communicator in memory: its socket, its address and its contents.\<close>

record 'c comm_obj =
  ob_sock :: nat
  ob_addr :: u64
  ob_comm :: 'c

record 'c ncclIbCommStage =
  st_state :: ncclIbCommState
  st_offset :: nat
  st_buffer :: "ncclIbConnectionMetadata option"
  st_comm :: "'c comm_obj option"

record ncclIbListenComm =
  l_dev :: nat
  l_sock :: nat
  l_stage :: "ncclIbRecvComm ncclIbCommStage"

record ncclIbHandle =
  connectAddr :: nat
  magic :: u64
  h_stage :: "ncclIbSendComm ncclIbCommStage"

text \<open>The size of the metadata structure on a 64-bit host: 128 queue pairs of 24 bytes, two devices of 64, the name, address and count.\<close>

definition sizeof_meta :: nat where "sizeof_meta = 3352"
definition sizeof_int :: nat where "sizeof_int = 4"

record 'w conn_env =
  k_v :: "'w setup_verbs"
  k_cfg :: scfg
  k_malloc :: "'w \<Rightarrow> (ncclResult \<times> u64) \<times> 'w"
  k_cuda_calloc :: "'w \<Rightarrow> (ncclResult \<times> u64) \<times> 'w"
  k_sock_init :: "nat option \<Rightarrow> 'w \<Rightarrow> (ncclResult \<times> nat) \<times> 'w"
  k_sock_listen :: "nat \<Rightarrow> 'w \<Rightarrow> (ncclResult \<times> unit) \<times> 'w"
  k_sock_addr :: "nat \<Rightarrow> 'w \<Rightarrow> (ncclResult \<times> nat) \<times> 'w"
  k_sock_connect :: "nat \<Rightarrow> 'w \<Rightarrow> (ncclResult \<times> unit) \<times> 'w"
  k_sock_accept :: "nat \<Rightarrow> nat \<Rightarrow> 'w \<Rightarrow> (ncclResult \<times> unit) \<times> 'w"
  k_sock_ready :: "nat \<Rightarrow> 'w \<Rightarrow> (ncclResult \<times> bool) \<times> 'w"
  k_send_meta :: "nat \<Rightarrow> ncclIbConnectionMetadata \<Rightarrow> nat \<Rightarrow> 'w \<Rightarrow> (ncclResult \<times> nat) \<times> 'w"
  k_recv_meta :: "nat \<Rightarrow> ncclIbConnectionMetadata \<Rightarrow> nat \<Rightarrow> 'w \<Rightarrow> (ncclResult \<times> ncclIbConnectionMetadata \<times> nat) \<times> 'w"
  k_send_ready :: "nat \<Rightarrow> bool \<Rightarrow> nat \<Rightarrow> 'w \<Rightarrow> (ncclResult \<times> nat) \<times> 'w"
  k_recv_ready :: "nat \<Rightarrow> bool \<Rightarrow> nat \<Rightarrow> 'w \<Rightarrow> (ncclResult \<times> bool \<times> nat) \<times> 'w"
  k_magic :: u64
  k_off_fifo :: u64
  k_off_elems :: u64
  k_off_remSizes :: u64
  k_off_sizes :: u64
  k_off_flush :: u64
  k_gid :: "unit gid_env"
  k_deviceName :: "ctx_ptr \<Rightarrow> string"
  k_IbGdrFlushDisable :: int
  k_IbGdrFlushGpuMemNoRelaxedOrdering :: int
  k_IbUseInline :: int
  k_DmaBufEnable :: int

text \<open>
  \<open>k_sock_init\<close> takes the address to connect to and gives the socket; \<open>k_magic\<close> is \<open>NCCL_SOCKET_MAGIC\<close>; \<open>k_off_\<dots>\<close> are the offsets of \<open>fifo\<close>,
  \<open>remFifo.elems\<close>, \<open>remSizesFifo.elems\<close>, \<open>sizesFifo\<close> and \<open>gpuFlushHostMem\<close> in their structures.  Of \<open>k_gid\<close> the variables, files and parameters
  are used; the query and the port come from the device.
\<close>

subsection \<open>Zeroed communicators\<close>

definition zero_req :: ncclIbRequest where
  "zero_req = \<lparr>rq_type = REQ_UNUSED, events = [0, 0], devBases = [None, None], nreqs = 0, rq_part = NoPart\<rparr>"

definition zero_qp :: ncclIbQp where
  "zero_qp = \<lparr>qp = None, devIndex = 0, remDevIdx = 0, ctsQpSlot = 0\<rparr>"

definition zero_info :: ncclIbDevInfo where
  "zero_info = \<lparr>lid = 0, ib_port = 0, mtu = 0, link_layer = 0, gid = (0, 0), fifoRkey = 0, remoteGid = (0, 0), ibv_dev_index = 0\<rparr>"

definition zero_sge :: ibv_sge where
  "zero_sge = \<lparr>sge_addr = 0, sge_length = 0, sge_lkey = 0\<rparr>"

definition zero_elem :: ncclIbSendFifo where
  "zero_elem = \<lparr>f_addr = 0, f_rkeys = [0], f_size = 0, f_nreqs = 0, f_tag = 0, f_idx = 0\<rparr>"

definition zero_flush :: ncclIbGpuFlush where
  "zero_flush = \<lparr>hostMr = None, gpuMr = None, gpuFlushGpuMem = 0, fl_sge = zero_sge, fl_qp = zero_qp\<rparr>"

definition zero_send_comm :: "'w conn_env \<Rightarrow> ncclIbSendComm" where
  "zero_send_comm K = (let m = MAX_REQUESTS (s_x (k_cfg K)) in
     \<lparr>ndevs = 0, isSend = False, reqs = replicate m zero_req, qps = replicate NCCL_IB_MAX_QPS zero_qp, nqps = 0, qpIndex = 0, ready = False,
      nRemDevs = 0, remDevs = replicate 2 zero_info, devBase = replicate 2 zero_base,
      fifoMr = [None, None], fifoReqs = replicate m (replicate 8 None), remSizes_elems = replicate m (replicate 8 0),
      remSizes_mrs = [None, None], remSizes_rkeys = [0, 0], remSizes_addr = 0, fifoHead = 0, ar = False\<rparr>)"

definition zero_recv_comm :: "'w conn_env \<Rightarrow> u64 \<Rightarrow> ncclIbRecvComm" where
  "zero_recv_comm K a = (let m = MAX_REQUESTS (s_x (k_cfg K)) in
     \<lparr>ndevs = 0, isSend = False, reqs = replicate m zero_req, qps = replicate NCCL_IB_MAX_QPS zero_qp, nqps = 0, qpIndex = 0, ready = False,
      nRemDevs = 0, remDevs = replicate 2 zero_info, devBase = replicate 2 zero_base,
      gpuFlush = replicate 2 zero_flush, rfifoMr = [None, None], fifoSge = replicate 2 zero_sge, sizesFifoMr = [None, None],
      remFifo_elems = replicate m (replicate 8 zero_elem), remFifo_addr = 0, remFifo_inline = False, fifoTail = 0, elems_addr = a + k_off_elems K,
      sizesFifo = replicate m (replicate 8 0), flushEnabled = False\<rparr>)"

definition zero_meta :: ncclIbConnectionMetadata where
  "zero_meta = \<lparr>qpInfo = replicate NCCL_IB_MAX_QPS \<lparr>qpn = 0, qi_ece = \<lparr>vendor_id = 0, ece_options = 0, comp_mask = 0\<rparr>, ece_supported = 0, qi_devIndex = 0\<rparr>,
     cm_devs = replicate 2 zero_info, cm_devName = [], fifoAddr = 0, cm_ndevs = 0\<rparr>"

subsection \<open>Pieces both sides share\<close>

text \<open>The setup of one side works on the communicator and the metadata it fills.\<close>

type_synonym ('c, 'w) side = "('c \<times> ncclIbConnectionMetadata) \<times> 'w net"

definition in_comm :: "('c \<Rightarrow> 'c) \<Rightarrow> ('c, 'w) side \<Rightarrow> ('c, 'w) side" where
  "in_comm f s = (case s of ((c, m), n) \<Rightarrow> ((f c, m), n))"

definition in_meta :: "(ncclIbConnectionMetadata \<Rightarrow> ncclIbConnectionMetadata) \<Rightarrow> ('c, 'w) side \<Rightarrow> ('c, 'w) side" where
  "in_meta f s = (case s of ((c, m), n) \<Rightarrow> ((c, f m), n))"

definition set_base :: "nat \<Rightarrow> (ncclIbNetCommDevBase \<Rightarrow> ncclIbNetCommDevBase) \<Rightarrow> ('a) ncclIbNetCommBase_scheme \<Rightarrow> ('a) ncclIbNetCommBase_scheme" where
  "set_base i f c = c\<lparr>devBase := (devBase c)[i := f (devBase c ! i)]\<rparr>"

definition set_qp :: "nat \<Rightarrow> (ncclIbQp \<Rightarrow> ncclIbQp) \<Rightarrow> ('a) ncclIbNetCommBase_scheme \<Rightarrow> ('a) ncclIbNetCommBase_scheme" where
  "set_qp q f c = c\<lparr>qps := (qps c)[q := f (qps c ! q)]\<rparr>"

definition set_qpInfo :: "nat \<Rightarrow> (ncclIbQpInfo \<Rightarrow> ncclIbQpInfo) \<Rightarrow> ncclIbConnectionMetadata \<Rightarrow> ncclIbConnectionMetadata" where
  "set_qpInfo q f m = m\<lparr>qpInfo := (qpInfo m)[q := f (qpInfo m ! q)]\<rparr>"

definition set_devInfo :: "nat \<Rightarrow> (ncclIbDevInfo \<Rightarrow> ncclIbDevInfo) \<Rightarrow> ncclIbConnectionMetadata \<Rightarrow> ncclIbConnectionMetadata" where
  "set_devInfo i f m = m\<lparr>cm_devs := (cm_devs m)[i := f (cm_devs m ! i)]\<rparr>"

definition arr_geti :: "'a list \<Rightarrow> int \<Rightarrow> 'a option" where
  "arr_geti xs i = (if i < 0 then None else arr_get xs (nat i))"

definition on_base :: "nat \<Rightarrow> (ncclIbNetCommDevBase \<times> 'w net, 'r) nc \<Rightarrow> (('a) ncclIbNetCommBase_scheme, 'w) side \<Rightarrow> ((ncclResult + 'r) \<times> (('a) ncclIbNetCommBase_scheme, 'w) side) option" where
  "on_base i = zoom (\<lambda>((c, m), n). map_option (\<lambda>b. (b, n)) (arr_get (devBase c) i)) (\<lambda>(b, n) ((c, m), _). ((set_base i (\<lambda>_. b) c, m), n))"

definition on_qp :: "nat \<Rightarrow> (ncclIbQp \<times> 'w net, 'r) nc \<Rightarrow> (('a) ncclIbNetCommBase_scheme, 'w) side \<Rightarrow> ((ncclResult + 'r) \<times> (('a) ncclIbNetCommBase_scheme, 'w) side) option" where
  "on_qp q = zoom (\<lambda>((c, m), n). map_option (\<lambda>e. (e, n)) (arr_get (qps c) q)) (\<lambda>(e, n) ((c, m), _). ((set_qp q (\<lambda>_. e) c, m), n))"

text \<open>\<open>wrap_ibv_reg_mr\<close> into a pointer of the caller, null when it fails.\<close>

definition reg_mr_into :: "'w conn_env \<Rightarrow> pd_ptr \<Rightarrow> u64 \<Rightarrow> u64 \<Rightarrow> ibv_access list \<Rightarrow> (ibv_mr option \<Rightarrow> 'x \<times> 'w net \<Rightarrow> 'x \<times> 'w net) \<Rightarrow> ('x \<times> 'w net, ibv_mr) nc" where
  "reg_mr_into K p a len acc put =
     nbind (nexec (on_world (\<lambda>w. case v_reg_mr (s_mem (k_v K)) p a len acc w of (r, m, w) \<Rightarrow> ((r, m), w)))) (\<lambda>(r, m).
     nbind (nset (put (if r = ncclSuccess then Some m else None))) (\<lambda>_.
     nbind (nguard r) (\<lambda>_. nret m)))"

definition gid_env_of :: "'w conn_env \<Rightarrow> ncclIbDev \<Rightarrow> 'w gid_env" where
  "gid_env_of K dev = \<lparr>ge_query_gid = s_query_gid (k_v K) (dv_context dev) (portNum dev), ge_deviceName = k_deviceName K (dv_context dev), ge_portNum = portNum dev,
     ge_sysfs = ge_sysfs (k_gid K), ge_getenv = ge_getenv (k_gid K), ge_ind = ge_ind (k_gid K),
     ge_IbRoutableFlidIbGidIndex = ge_IbRoutableFlidIbGidIndex (k_gid K), ge_IbGidIndex = ge_IbGidIndex (k_gid K), ge_IbRoceVersionNum = ge_IbRoceVersionNum (k_gid K)\<rparr>"

definition gid_index_call :: "'w conn_env \<Rightarrow> ncclIbDev \<Rightarrow> int \<Rightarrow> ('x \<times> 'w net, ncclResult \<times> int) nc" where
  "gid_index_call K dev g0 s = (case s of (x, n) \<Rightarrow> do {
     ((res, g), w) \<leftarrow> ncclIbGetGidIndex (gid_env_of K dev) (pa_link_layer (portAttr dev) = IBV_LINK_LAYER_INFINIBAND) (gid_tbl_len (portAttr dev)) g0 (xw_w (nx n));
     Some (Inr (res, g), (x, n\<lparr>nx := (nx n)\<lparr>xw_w := w\<rparr>\<rparr>)) })"

text \<open>\<open>ncclIbGetGidIndex\<close> and \<open>wrap_ibv_query_gid\<close> for the base \<open>i\<close>.\<close>

definition query_local_gid :: "'w conn_env \<Rightarrow> nat \<Rightarrow> ncclIbDev \<Rightarrow> (('a) ncclIbNetCommBase_scheme, 'w) side \<Rightarrow> ((ncclResult + unit) \<times> (('a) ncclIbNetCommBase_scheme, 'w) side) option" where
  "query_local_gid K i dev =
     nbind (nread (\<lambda>((c, m), n). arr_get (devBase c) i)) (\<lambda>b.
     nbind (gid_index_call K dev (localGidIndex (gidInfo b))) (\<lambda>(res, g).
     nbind (nset (in_comm (set_base i (\<lambda>b. b\<lparr>gidInfo := (gidInfo b)\<lparr>localGidIndex := g\<rparr>\<rparr>)))) (\<lambda>_.
     nbind (nguard res) (\<lambda>_.
     nbind (ncheck (on_world (s_query_gid (k_v K) (dv_context dev) (portNum dev) g))) (\<lambda>lg.
     nset (in_comm (set_base i (\<lambda>b. b\<lparr>gidInfo := (gidInfo b)\<lparr>localGid := lg\<rparr>\<rparr>))))))))"

text \<open>\<open>remDevs[i]\<close> from the message, with the remote GID.\<close>

definition copy_rem_dev :: "ncclIbConnectionMetadata \<Rightarrow> nat \<Rightarrow> (('a) ncclIbNetCommBase_scheme, 'w) side \<Rightarrow> ((ncclResult + unit) \<times> (('a) ncclIbNetCommBase_scheme, 'w) side) option" where
  "copy_rem_dev rem i =
     nbind (nread (\<lambda>s. arr_get (cm_devs rem) i)) (\<lambda>d.
     nwrite (\<lambda>((c, m), n). do { rs \<leftarrow> arr_set (remDevs c) i (d\<lparr>remoteGid := gid d\<rparr>); Some ((c\<lparr>remDevs := rs\<rparr>, m), n) }))"

definition fifo_access :: "ibv_access list" where
  "fifo_access = [IBV_ACCESS_LOCAL_WRITE, IBV_ACCESS_REMOTE_WRITE, IBV_ACCESS_REMOTE_READ]"

definition fifo_bytes :: "'w conn_env \<Rightarrow> u64" where
  "fifo_bytes K = word_of_nat (32 * MAX_REQUESTS (s_x (k_cfg K)) * NCCL_NET_IB_MAX_RECVS)"

definition sizes_bytes :: "'w conn_env \<Rightarrow> u64" where
  "sizes_bytes K = word_of_nat (sizeof_int * MAX_REQUESTS (s_x (k_cfg K)) * NCCL_NET_IB_MAX_RECVS)"

subsection \<open>Listening\<close>

definition zero_stage :: "'c ncclIbCommStage" where
  "zero_stage = \<lparr>st_state = ncclIbCommStateStart, st_offset = 0, st_buffer = None, st_comm = None\<rparr>"

definition anpNetListen :: "'w conn_env \<Rightarrow> nat \<Rightarrow> (ncclIbHandle \<times> 'w net, ncclIbListenComm) nc" where
  "anpNetListen K dev =
     nbind (ncheck (on_world (k_malloc K))) (\<lambda>_.
     nbind (nset (\<lambda>(h, n). (\<lparr>connectAddr = 0, magic = k_magic K, h_stage = zero_stage\<rparr>, n))) (\<lambda>_.
     nbind (ncheck (on_world (k_sock_init K None))) (\<lambda>sock.
     nbind (ncheck (on_world (k_sock_listen K sock))) (\<lambda>_.
     nbind (ncheck (on_world (k_sock_addr K sock))) (\<lambda>a.
     nbind (nset (\<lambda>(h, n). (h\<lparr>connectAddr := a\<rparr>, n))) (\<lambda>_.
     nret \<lparr>l_dev = dev, l_sock = sock, l_stage = zero_stage\<rparr>))))))"

subsection \<open>Connecting\<close>

definition connect_init_dev :: "'w conn_env \<Rightarrow> nat \<Rightarrow> ncclIbMergedDev \<Rightarrow> nat \<Rightarrow> ((ncclIbSendComm, 'w) side, unit) nc" where
  "connect_init_dev K dev md i =
     nbind (nread (\<lambda>s. arr_get (md_devs md) i)) (\<lambda>d.
     nbind (on_base i (ncclIbInitCommDevBase (k_cfg K) (k_v K) d)) (\<lambda>_.
     nbind (nread (\<lambda>(x, n). arr_get (ibDevs n) dev)) (\<lambda>v.
     nset (in_comm (\<lambda>c. c\<lparr>ar := (ar c \<and> dv_ar v \<noteq> 0)\<rparr>)))))"

definition connect_qp :: "'w conn_env \<Rightarrow> int \<Rightarrow> nat \<Rightarrow> nat \<Rightarrow> ((ncclIbSendComm, 'w) side, unit) nc" where
  "connect_qp K ch q di =
     nbind (nread (\<lambda>((c, m), n). arr_get (devBase c) di)) (\<lambda>b.
     nbind (nread (\<lambda>(x, n). arr_get (ibDevs n) (ibDevN b))) (\<lambda>dev.
     nbind (on_qp q (ncclIbCreateQp (k_cfg K) (k_v K) (portNum dev) b [IBV_ACCESS_REMOTE_WRITE] ch True (word_of_nat q))) (\<lambda>_.
     nbind (nset (in_comm (set_qp q (\<lambda>e. e\<lparr>devIndex := di\<rparr>)))) (\<lambda>_.
     nbind (nread (\<lambda>((c, m), n). qp (qps c ! q))) (\<lambda>p.
     nbind (nset (in_meta (set_qpInfo q (\<lambda>i. i\<lparr>qpn := qp_num p, qi_devIndex := int di\<rparr>)))) (\<lambda>_.
     nbind (ncheck (on_world (s_query_ece (k_v K) p))) (\<lambda>(e, sup).
     nset (in_meta (set_qpInfo q (\<lambda>i. i\<lparr>qi_ece := e, ece_supported := sup\<rparr>))))))))))"

fun connect_qps :: "'w conn_env \<Rightarrow> int \<Rightarrow> nat \<Rightarrow> nat \<Rightarrow> nat \<Rightarrow> ((ncclIbSendComm, 'w) side, unit) nc" where
  "connect_qps K ch 0 q di = nret ()"
| "connect_qps K ch (Suc k) q di =
     nbind (connect_qp K ch q di) (\<lambda>_.
     nbind (nget (\<lambda>((c, m), n). ndevs c)) (\<lambda>nd.
     connect_qps K ch k (Suc q) ((di + 1) mod nd)))"

definition connect_dev :: "'w conn_env \<Rightarrow> u64 \<Rightarrow> nat \<Rightarrow> ((ncclIbSendComm, 'w) side, unit) nc" where
  "connect_dev K a i =
     nbind (nread (\<lambda>((c, m), n). arr_get (devBase c) i)) (\<lambda>b.
     nbind (nread (\<lambda>(x, n). arr_get (ibDevs n) (ibDevN b))) (\<lambda>dev.
     nbind (nwrite (\<lambda>((c, m), n). if i < length (cm_devs m) then Some ((c, set_devInfo i (\<lambda>d. d\<lparr>ib_port := portNum dev,
       mtu := active_mtu (portAttr dev), lid := ucast (pa_lid (portAttr dev)), ibv_dev_index := ibDevN b\<rparr>) m), n) else None)) (\<lambda>_.
     nbind (reg_mr_into K (pd b) (a + k_off_fifo K) (fifo_bytes K) fifo_access (\<lambda>m. in_comm (\<lambda>c. c\<lparr>fifoMr := (fifoMr c)[i := m]\<rparr>))) (\<lambda>mr.
     nbind (nset (in_meta (set_devInfo i (\<lambda>d. d\<lparr>fifoRkey := rkey mr, link_layer := pa_link_layer (portAttr dev)\<rparr>)))) (\<lambda>_.
     nbind (nset (in_comm (set_base i (\<lambda>b. b\<lparr>gidInfo := (gidInfo b)\<lparr>gi_link_layer := pa_link_layer (portAttr dev)\<rparr>\<rparr>)))) (\<lambda>_.
     nwhen (pa_link_layer (portAttr dev) = IBV_LINK_LAYER_ETHERNET)
       (nbind (query_local_gid K i dev) (\<lambda>_.
        nset (\<lambda>((c, m), n). ((c, set_devInfo i (\<lambda>d. d\<lparr>gid := localGid (gidInfo (devBase c ! i))\<rparr>) m), n))))))))))"

text \<open>From the check that the socket is connected to the message that is sent.\<close>

definition connect_setup :: "'w conn_env \<Rightarrow> nat \<Rightarrow> int \<Rightarrow> u64 \<Rightarrow> ((ncclIbSendComm, 'w) side, ncclIbConnectionMetadata) nc" where
  "connect_setup K dev ch a =
     nbind (nread (\<lambda>(x, n). arr_get (mergedDevs n) dev)) (\<lambda>md.
     nbind (nset (in_comm (\<lambda>c. c\<lparr>ndevs := md_ndevs md, nqps := nat (IbQpsPerConn (k_cfg K) * int (md_ndevs md)), isSend := True\<rparr>))) (\<lambda>_.
     nbind (nset (with_tele (k_cfg K) [T_set_device_name dev (md_devName md)])) (\<lambda>_.
     nbind (nset (in_comm (\<lambda>c. c\<lparr>ar := True\<rparr>))) (\<lambda>_.
     nbind (nfor [0..<md_ndevs md] (connect_init_dev K dev md)) (\<lambda>_.
     nbind (nset (\<lambda>((c, m), n). ((c, m\<lparr>cm_ndevs := int (ndevs c)\<rparr>), n))) (\<lambda>_.
     nbind (nget (\<lambda>((c, m), n). nqps c)) (\<lambda>k.
     nbind (connect_qps K ch k 0 0) (\<lambda>_.
     nbind (nget (\<lambda>((c, m), n). ndevs c)) (\<lambda>nd.
     nbind (nfor [0..<nd] (connect_dev K a)) (\<lambda>_.
     nbind (nset (in_meta (\<lambda>m. m\<lparr>fifoAddr := a + k_off_fifo K, cm_devName := md_devName md\<rparr>))) (\<lambda>_.
     nget (\<lambda>((c, m), n). m))))))))))))"

definition finish_qp :: "'w conn_env \<Rightarrow> ncclIbConnectionMetadata \<Rightarrow> nat \<Rightarrow> ((ncclIbSendComm, 'w) side, unit) nc" where
  "finish_qp K rem q =
     nbind (nread (\<lambda>s. arr_get (qpInfo rem) q)) (\<lambda>ri.
     nbind (nread (\<lambda>s. arr_geti (cm_devs rem) (qi_devIndex ri))) (\<lambda>info.
     nbind (nread (\<lambda>((c, m), n). arr_get (qps c) q)) (\<lambda>e.
     nbind (nset (in_comm (set_qp q (\<lambda>e. e\<lparr>remDevIdx := nat (qi_devIndex ri)\<rparr>)))) (\<lambda>_.
     nbind (nread (\<lambda>((c, m), n). arr_get (devBase c) (devIndex e))) (\<lambda>b.
     nbind (nread (\<lambda>s. qp e)) (\<lambda>p.
     nbind (nwhen (ece_supported ri \<noteq> 0) (nbind (ncheck (on_world (s_set_ece (k_v K) p (qi_ece ri)))) (\<lambda>_. nret ()))) (\<lambda>_.
     nbind (ncclIbRtrQp (k_cfg K) (k_v K) p (gidInfo b) (qpn ri) info False) (\<lambda>_.
     ncclIbRtsQp (k_cfg K) (k_v K) p))))))))"

text \<open>What the sender does with the answer: it compares the link layers, keeps what it needs of each device, and registers the sizes.\<close>

definition check_link :: "ncclIbConnectionMetadata \<Rightarrow> ncclIbDevInfo \<Rightarrow> nat \<Rightarrow> ((ncclIbSendComm, 'w) side, unit) nc" where
  "check_link rem d0 i = nbind (nread (\<lambda>s. arr_get (cm_devs rem) i)) (\<lambda>d. nwhen (link_layer d \<noteq> link_layer d0) (nfail ncclInternalError))"

definition keep_rem_dev :: "ncclIbConnectionMetadata \<Rightarrow> nat \<Rightarrow> ((ncclIbSendComm, 'w) side, unit) nc" where
  "keep_rem_dev rem i = nbind (copy_rem_dev rem i) (\<lambda>_. nbind (nread (\<lambda>s. arr_get (cm_devs rem) i)) (\<lambda>d.
     nwrite (\<lambda>((c, m), n). do { ks \<leftarrow> arr_set (remSizes_rkeys c) i (fifoRkey d); Some ((c\<lparr>remSizes_rkeys := ks, remSizes_addr := fifoAddr rem\<rparr>, m), n) })))"

definition reg_rem_sizes :: "'w conn_env \<Rightarrow> u64 \<Rightarrow> nat \<Rightarrow> ((ncclIbSendComm, 'w) side, unit) nc" where
  "reg_rem_sizes K a i = nbind (nread (\<lambda>((c, m), n). arr_get (devBase c) i)) (\<lambda>b.
     nbind (reg_mr_into K (pd b) (a + k_off_remSizes K) (sizes_bytes K) fifo_access (\<lambda>m. in_comm (\<lambda>c. c\<lparr>remSizes_mrs := (remSizes_mrs c)[i := m]\<rparr>))) (\<lambda>_. nret ()))"

definition connect_finish :: "'w conn_env \<Rightarrow> ncclIbConnectionMetadata \<Rightarrow> u64 \<Rightarrow> ((ncclIbSendComm, 'w) side, unit) nc" where
  "connect_finish K rem a =
     nbind (nset (in_comm (\<lambda>c. c\<lparr>nRemDevs := cm_ndevs rem\<rparr>))) (\<lambda>_.
     nbind (nread (\<lambda>s. arr_get (cm_devs rem) 0)) (\<lambda>d0.
     nbind (nfor [1..<nat (cm_ndevs rem)] (check_link rem d0)) (\<lambda>_.
     nbind (nfor [0..<nat (cm_ndevs rem)] (keep_rem_dev rem)) (\<lambda>_.
     nbind (nget (\<lambda>((c, m), n). ndevs c)) (\<lambda>nd.
     nbind (nfor [0..<nd] (reg_rem_sizes K a)) (\<lambda>_.
     nbind (nset (in_comm (\<lambda>c. c\<lparr>nRemDevs := cm_ndevs rem\<rparr>))) (\<lambda>_.
     nbind (nget (\<lambda>((c, m), n). nqps c)) (\<lambda>k.
     nfor [0..<k] (finish_qp K rem)))))))))"

text \<open>The stage a call works on, and the communicator it leads to.\<close>

type_synonym ('c, 'w) staged = "'c ncclIbCommStage \<times> 'w net"

definition in_stage :: "('c ncclIbCommStage \<Rightarrow> 'c ncclIbCommStage) \<Rightarrow> ('c, 'w) staged \<Rightarrow> ('c, 'w) staged" where
  "in_stage f s = (case s of (st, n) \<Rightarrow> (f st, n))"

definition stage_obj :: "(('c, 'w) staged, 'c comm_obj) nc" where
  "stage_obj = nread (\<lambda>(st, n). st_comm st)"

definition on_stage_comm :: "ncclIbConnectionMetadata \<Rightarrow> (('c, 'w) side, 'r) nc \<Rightarrow> (('c, 'w) staged, 'r) nc" where
  "on_stage_comm m0 = zoom (\<lambda>(st, n). map_option (\<lambda>ob. ((ob_comm ob, m0), n)) (st_comm st))
     (\<lambda>((c, m), n) (st, _). (st\<lparr>st_comm := map_option (\<lambda>ob. ob\<lparr>ob_comm := c\<rparr>) (st_comm st)\<rparr>, n))"

text \<open>\<open>ncclSocketProgress\<close> on the buffer of the stage; the offset is stored whatever the result.\<close>

definition progress_send :: "'w conn_env \<Rightarrow> (('c, 'w) staged, unit) nc" where
  "progress_send K =
     nbind stage_obj (\<lambda>ob.
     nbind (nread (\<lambda>(st, n). st_buffer st)) (\<lambda>buf.
     nbind (nget (\<lambda>(st, n). st_offset st)) (\<lambda>off.
     nbind (nexec (on_world (k_send_meta K (ob_sock ob) buf off))) (\<lambda>(res, off).
     nbind (nset (in_stage (\<lambda>st. st\<lparr>st_offset := off\<rparr>))) (\<lambda>_.
     nguard res)))))"

definition progress_recv :: "'w conn_env \<Rightarrow> (('c, 'w) staged, unit) nc" where
  "progress_recv K =
     nbind stage_obj (\<lambda>ob.
     nbind (nread (\<lambda>(st, n). st_buffer st)) (\<lambda>buf.
     nbind (nget (\<lambda>(st, n). st_offset st)) (\<lambda>off.
     nbind (nexec (on_world (k_recv_meta K (ob_sock ob) buf off))) (\<lambda>(res, buf, off).
     nbind (nset (in_stage (\<lambda>st. st\<lparr>st_offset := off, st_buffer := Some buf\<rparr>))) (\<lambda>_.
     nguard res)))))"

definition goto_state :: "ncclIbCommState \<Rightarrow> (('c, 'w) staged, unit) nc" where
  "goto_state s = nset (in_stage (\<lambda>st. st\<lparr>st_state := s, st_offset := 0\<rparr>))"

text \<open>
  The labels of \<open>anpNetConnect\<close>.  When the connection is complete the buffer is freed; the pointer to it stays in the stage, and
  using it would be undefined, as it is for \<open>None\<close>.
\<close>

definition ib_send_ready :: "'w conn_env \<Rightarrow> ((ncclIbSendComm, 'w) staged, ncclIbSendComm comm_obj option) nc" where
  "ib_send_ready K =
     nbind stage_obj (\<lambda>ob.
     nbind (nget (\<lambda>(st, n). st_offset st)) (\<lambda>off.
     nbind (nexec (on_world (k_send_ready K (ob_sock ob) (ready (ob_comm ob)) off))) (\<lambda>(res, off).
     nbind (nset (in_stage (\<lambda>st. st\<lparr>st_offset := off\<rparr>))) (\<lambda>_.
     nbind (nguard res) (\<lambda>_.
     if off \<noteq> sizeof_int then nret None
     else nbind (nset (in_stage (\<lambda>st. st\<lparr>st_buffer := None, st_state := ncclIbCommStateStart\<rparr>))) (\<lambda>_. nret (Some ob)))))))"

definition ib_connect :: "'w conn_env \<Rightarrow> ((ncclIbSendComm, 'w) staged, ncclIbSendComm comm_obj option) nc" where
  "ib_connect K =
     nbind (progress_recv K) (\<lambda>_.
     nbind (nget (\<lambda>(st, n). st_offset st)) (\<lambda>off.
     if off \<noteq> sizeof_meta then nret None else
     nbind (nread (\<lambda>(st, n). st_buffer st)) (\<lambda>rem.
     nbind stage_obj (\<lambda>ob.
     nbind (on_stage_comm rem (connect_finish K rem (ob_addr ob))) (\<lambda>_.
     nbind (on_stage_comm rem (nset (in_comm (\<lambda>c. c\<lparr>ready := True\<rparr>)))) (\<lambda>_.
     nbind (goto_state ncclIbCommStateConnected) (\<lambda>_.
     ib_send_ready K)))))))"

definition ib_send_connect :: "'w conn_env \<Rightarrow> ((ncclIbSendComm, 'w) staged, ncclIbSendComm comm_obj option) nc" where
  "ib_send_connect K =
     nbind (progress_send K) (\<lambda>_.
     nbind (nget (\<lambda>(st, n). st_offset st)) (\<lambda>off.
     if off \<noteq> sizeof_meta then nret None else
     nbind (goto_state ncclIbCommStateConnecting) (\<lambda>_.
     nbind (nset (in_stage (\<lambda>st. st\<lparr>st_buffer := Some zero_meta\<rparr>))) (\<lambda>_.
     ib_connect K))))"

definition ib_connect_check :: "'w conn_env \<Rightarrow> nat \<Rightarrow> int \<Rightarrow> ncclIbConnectionMetadata \<Rightarrow> ((ncclIbSendComm, 'w) staged, ncclIbSendComm comm_obj option) nc" where
  "ib_connect_check K dev ch m0 =
     nbind stage_obj (\<lambda>ob.
     nbind (ncheck (on_world (k_sock_ready K (ob_sock ob)))) (\<lambda>rdy.
     if \<not> rdy then nret None else
     nbind (on_stage_comm m0 (connect_setup K dev ch (ob_addr ob))) (\<lambda>meta.
     nbind (goto_state ncclIbCommStateSend) (\<lambda>_.
     nbind (ncheck (on_world (k_malloc K))) (\<lambda>_.
     nbind (nset (in_stage (\<lambda>st. st\<lparr>st_buffer := Some meta\<rparr>))) (\<lambda>_.
     ib_send_connect K))))))"

definition connect_start :: "'w conn_env \<Rightarrow> nat \<Rightarrow> int \<Rightarrow> nat \<Rightarrow> ncclIbConnectionMetadata \<Rightarrow> ((ncclIbSendComm, 'w) staged, ncclIbSendComm comm_obj option) nc" where
  "connect_start K dev ch addr m0 =
     nbind (ncheck (on_world (k_malloc K))) (\<lambda>a.
     nbind (ncheck (on_world (k_sock_init K (Some addr)))) (\<lambda>sock.
     nbind (nset (in_stage (\<lambda>st. st\<lparr>st_comm := Some \<lparr>ob_sock = sock, ob_addr = a, ob_comm = zero_send_comm K\<rparr>, st_state := ncclIbCommStateConnect\<rparr>))) (\<lambda>_.
     nbind (ncheck (on_world (k_sock_connect K sock))) (\<lambda>_.
     ib_connect_check K dev ch m0))))"

text \<open>\<open>addr\<close> is the address in the handle, \<open>ch\<close> the channel, \<open>m0\<close> the first contents of \<open>meta\<close>.\<close>

definition anpNetConnect :: "'w conn_env \<Rightarrow> nat \<Rightarrow> int \<Rightarrow> nat \<Rightarrow> ncclIbConnectionMetadata \<Rightarrow> ((ncclIbSendComm, 'w) staged, ncclIbSendComm comm_obj option) nc" where
  "anpNetConnect K dev ch addr m0 =
     nbind (nget (\<lambda>(st, n). st_state st)) (\<lambda>s.
     case s of
       ncclIbCommStateConnect \<Rightarrow> ib_connect_check K dev ch m0
     | ncclIbCommStateSend \<Rightarrow> ib_send_connect K
     | ncclIbCommStateConnecting \<Rightarrow> ib_connect K
     | ncclIbCommStateConnected \<Rightarrow> ib_send_ready K
     | ncclIbCommStateStart \<Rightarrow> connect_start K dev ch addr m0
     | _ \<Rightarrow> nfail ncclInternalError)"

subsection \<open>Accepting\<close>

definition accept_init_dev :: "'w conn_env \<Rightarrow> ncclIbMergedDev \<Rightarrow> nat \<Rightarrow> ((ncclIbRecvComm, 'w) side, unit) nc" where
  "accept_init_dev K md i =
     nbind (nread (\<lambda>s. arr_get (md_devs md) i)) (\<lambda>d.
     nbind (on_base i (ncclIbInitCommDevBase (k_cfg K) (k_v K) d)) (\<lambda>_.
     nbind (nread (\<lambda>(x, n). arr_get (ibDevs n) d)) (\<lambda>dev.
     query_local_gid K i dev)))"

text \<open>The extended attributes: set on the queue pair, and the reduced set read back for the answer.\<close>

definition accept_ece :: "'w conn_env \<Rightarrow> ncclIbQpInfo \<Rightarrow> ibv_qp \<Rightarrow> nat \<Rightarrow> ((ncclIbRecvComm, 'w) side, unit) nc" where
  "accept_ece K ri p q = nwhen (ece_supported ri \<noteq> 0)
     (nbind (ncheck (on_world (s_set_ece (k_v K) p (qi_ece ri)))) (\<lambda>sup.
      nbind (nset (in_meta (set_qpInfo q (\<lambda>i. i\<lparr>ece_supported := sup\<rparr>)))) (\<lambda>_.
      nwhen (sup \<noteq> 0)
        (nbind (ncheck (on_world (s_query_ece (k_v K) p))) (\<lambda>(e, sup).
         nset (in_meta (set_qpInfo q (\<lambda>i. i\<lparr>qi_ece := e, ece_supported := sup\<rparr>))))))))"

definition accept_qp :: "'w conn_env \<Rightarrow> int \<Rightarrow> ncclIbConnectionMetadata \<Rightarrow> nat \<Rightarrow> nat \<Rightarrow> ((ncclIbRecvComm, 'w) side, unit) nc" where
  "accept_qp K ch rem q di =
     nbind (nread (\<lambda>s. arr_get (qpInfo rem) q)) (\<lambda>ri.
     nbind (nread (\<lambda>s. arr_geti (cm_devs rem) (qi_devIndex ri))) (\<lambda>info.
     nbind (nread (\<lambda>((c, m), n). arr_get (devBase c) di)) (\<lambda>b.
     nbind (nread (\<lambda>((c, m), n). arr_get (qps c) q)) (\<lambda>_.
     nbind (nset (in_comm (set_qp q (\<lambda>e. e\<lparr>remDevIdx := nat (qi_devIndex ri)\<rparr>)))) (\<lambda>_.
     nbind (nread (\<lambda>(x, n). arr_get (ibDevs n) (ibDevN b))) (\<lambda>dev.
     nbind (on_qp q (ncclIbCreateQp (k_cfg K) (k_v K) (portNum dev) b [IBV_ACCESS_REMOTE_WRITE] ch False (word_of_nat q))) (\<lambda>_.
     nbind (nset (in_comm (set_qp q (\<lambda>e. e\<lparr>devIndex := di\<rparr>)))) (\<lambda>_.
     nbind (nread (\<lambda>((c, m), n). qp (qps c ! q))) (\<lambda>p.
     nbind (accept_ece K ri p q) (\<lambda>_.
     nbind (ncclIbRtrQp (k_cfg K) (k_v K) p (gidInfo b) (qpn ri) info (q = 0)) (\<lambda>_.
     ncclIbRtsQp (k_cfg K) (k_v K) p)))))))))))"

fun accept_qps :: "'w conn_env \<Rightarrow> int \<Rightarrow> ncclIbConnectionMetadata \<Rightarrow> nat \<Rightarrow> nat \<Rightarrow> nat \<Rightarrow> ((ncclIbRecvComm, 'w) side, unit) nc" where
  "accept_qps K ch rem 0 q di = nret ()"
| "accept_qps K ch rem (Suc k) q di =
     nbind (accept_qp K ch rem q di) (\<lambda>_.
     nbind (nget (\<lambda>((c, m), n). ndevs c)) (\<lambda>nd.
     accept_qps K ch rem k (Suc q) ((di + 1) mod nd)))"

definition set_flush :: "nat \<Rightarrow> (ncclIbGpuFlush \<Rightarrow> ncclIbGpuFlush) \<Rightarrow> ncclIbRecvComm \<Rightarrow> ncclIbRecvComm" where
  "set_flush i f c = c\<lparr>gpuFlush := (gpuFlush c)[i := f (gpuFlush c ! i)]\<rparr>"

definition on_flush_qp :: "nat \<Rightarrow> (ncclIbQp \<times> 'w net, unit) nc \<Rightarrow> ((ncclIbRecvComm, 'w) side, unit) nc" where
  "on_flush_qp i = zoom (\<lambda>((c, m), n). map_option (\<lambda>f. (fl_qp f, n)) (arr_get (gpuFlush c) i))
     (\<lambda>(e, n) ((c, m), _). ((set_flush i (\<lambda>f. f\<lparr>fl_qp := e\<rparr>) c, m), n))"

text \<open>The flush buffer of a device and the queue pair to itself; \<open>a\<close> is the address of the communicator.\<close>

definition accept_flush :: "'w conn_env \<Rightarrow> int \<Rightarrow> u64 \<Rightarrow> nat \<Rightarrow> ncclIbNetCommDevBase \<Rightarrow> ncclIbDev \<Rightarrow> ((ncclIbRecvComm, 'w) side, unit) nc" where
  "accept_flush K ch a i b dev =
     nbind (if k_IbGdrFlushGpuMemNoRelaxedOrdering K \<noteq> 0 then
        nbind (ncheck (on_world (k_cuda_calloc K))) (\<lambda>g.
        nbind (nset (in_comm (set_flush i (\<lambda>f. f\<lparr>gpuFlushGpuMem := g\<rparr>)))) (\<lambda>_.
        nbind (reg_mr_into K (pd b) g (word_of_nat sizeof_int) fifo_access (\<lambda>m. in_comm (set_flush i (\<lambda>f. f\<lparr>gpuMr := m\<rparr>)))) (\<lambda>_. nret ())))
      else nset (in_comm (set_flush i (\<lambda>f. f\<lparr>gpuFlushGpuMem := 0, gpuMr := None\<rparr>)))) (\<lambda>_.
     nbind (reg_mr_into K (pd b) (a + k_off_flush K) (word_of_nat sizeof_int) [IBV_ACCESS_LOCAL_WRITE] (\<lambda>m. in_comm (set_flush i (\<lambda>f. f\<lparr>hostMr := m\<rparr>)))) (\<lambda>mr.
     nbind (nset (in_comm (set_flush i (\<lambda>f. f\<lparr>fl_sge := \<lparr>sge_addr = a + k_off_flush K, sge_length = 1, sge_lkey = lkey mr\<rparr>\<rparr>)))) (\<lambda>_.
     nbind (on_flush_qp i (ncclIbCreateQp (k_cfg K) (k_v K) (portNum dev) b
       [IBV_ACCESS_LOCAL_WRITE, IBV_ACCESS_REMOTE_READ, IBV_ACCESS_REMOTE_WRITE] ch True 0xFF)) (\<lambda>_.
     nbind (nread (\<lambda>((c, m), n). qp (fl_qp (gpuFlush c ! i)))) (\<lambda>p.
     nbind (ncclIbRtrQp (k_cfg K) (k_v K) p (gidInfo b) (qp_num p) (zero_info\<lparr>lid := ucast (pa_lid (portAttr dev)), link_layer := pa_link_layer (portAttr dev),
       ib_port := portNum dev, gid := localGid (gidInfo b), mtu := active_mtu (portAttr dev)\<rparr>) False) (\<lambda>_.
     ncclIbRtsQp (k_cfg K) (k_v K) p))))))"

text \<open>
  One device of the receiver: its registrations and its part of the answer.  The remote key the source also stores with the device
  (\<open>rCommDev->fifoRkey\<close>) is never read and is left out; that of \<open>remDevs\<close> is used.
\<close>

definition accept_dev :: "'w conn_env \<Rightarrow> int \<Rightarrow> ncclIbConnectionMetadata \<Rightarrow> u64 \<Rightarrow> nat \<Rightarrow> ((ncclIbRecvComm, 'w) side, unit) nc" where
  "accept_dev K ch rem a i =
     nbind (nread (\<lambda>((c, m), n). arr_get (devBase c) i)) (\<lambda>b.
     nbind (nread (\<lambda>(x, n). arr_get (ibDevs n) (ibDevN b))) (\<lambda>dev.
     nbind (nread (\<lambda>s. arr_get (cm_devs rem) i)) (\<lambda>rd.
     nbind (nset (in_comm (\<lambda>c. c\<lparr>remFifo_addr := fifoAddr rem\<rparr>))) (\<lambda>_.
     nbind (reg_mr_into K (pd b) (a + k_off_elems K) (fifo_bytes K) fifo_access (\<lambda>m. in_comm (\<lambda>c. c\<lparr>rfifoMr := (rfifoMr c)[i := m]\<rparr>))) (\<lambda>mr.
     nbind (nset (in_comm (\<lambda>c. c\<lparr>fifoSge := (fifoSge c)[i := (fifoSge c ! i)\<lparr>sge_lkey := lkey mr\<rparr>],
       remFifo_inline := (k_IbUseInline K \<noteq> 0 \<or> remFifo_inline c)\<rparr>))) (\<lambda>_.
     nbind (nget (\<lambda>((c, m), n). flushEnabled c)) (\<lambda>fl.
     nbind (nwhen fl (accept_flush K ch a i b dev)) (\<lambda>_.
     nbind (nwrite (\<lambda>((c, m), n). if i < length (cm_devs m) then Some ((set_base i (\<lambda>b. b\<lparr>gidInfo := (gidInfo b)\<lparr>gi_link_layer := pa_link_layer (portAttr dev)\<rparr>\<rparr>) c,
       set_devInfo i (\<lambda>d. d\<lparr>lid := ucast (pa_lid (portAttr dev)), link_layer := pa_link_layer (portAttr dev), ib_port := portNum dev,
         gid := localGid (gidInfo b), ibv_dev_index := ibDevN b, mtu := min (mtu rd) (active_mtu (portAttr dev))\<rparr>) m), n) else None)) (\<lambda>_.
     nbind (reg_mr_into K (pd b) (a + k_off_sizes K) (sizes_bytes K) fifo_access (\<lambda>m. in_comm (\<lambda>c. c\<lparr>sizesFifoMr := (sizesFifoMr c)[i := m]\<rparr>))) (\<lambda>smr.
     nset (in_meta (set_devInfo i (\<lambda>d. d\<lparr>fifoRkey := rkey smr\<rparr>)))))))))))))"

definition accept_qp_info :: "nat \<Rightarrow> ((ncclIbRecvComm, 'w) side, unit) nc" where
  "accept_qp_info q =
     nbind (nread (\<lambda>((c, m), n). arr_get (qps c) q)) (\<lambda>e.
     nbind (nread (\<lambda>s. qp e)) (\<lambda>p.
     nwrite (\<lambda>((c, m), n). if q < length (qpInfo m) then Some ((c, set_qpInfo q (\<lambda>i. i\<lparr>qpn := qp_num p, qi_devIndex := int (devIndex e)\<rparr>) m), n) else None)))"

text \<open>From the received message to the answer.\<close>

definition accept_setup :: "'w conn_env \<Rightarrow> nat \<Rightarrow> int \<Rightarrow> ncclIbConnectionMetadata \<Rightarrow> u64 \<Rightarrow> ((ncclIbRecvComm, 'w) side, ncclIbConnectionMetadata) nc" where
  "accept_setup K dev ch rem a =
     nbind (nread (\<lambda>(x, n). arr_get (mergedDevs n) dev)) (\<lambda>md.
     nbind (nset (in_comm (\<lambda>c. c\<lparr>ndevs := md_ndevs md, nqps := nat (IbQpsPerConn (k_cfg K) * int (md_ndevs md)), isSend := False,
       nRemDevs := cm_ndevs rem\<rparr>))) (\<lambda>_.
     nbind (nfor [0..<md_ndevs md] (accept_init_dev K md)) (\<lambda>_.
     nbind (nfor [0..<nat (cm_ndevs rem)] (copy_rem_dev rem)) (\<lambda>_.
     nbind (nget (\<lambda>((c, m), n). nqps c)) (\<lambda>k.
     nbind (accept_qps K ch rem k 0 0) (\<lambda>_.
     nbind (nset (in_comm (\<lambda>c. c\<lparr>flushEnabled := ((ncclIbGdrSupport = ncclSuccess \<or> ncclIbDmaBufSupport (k_DmaBufEnable K) = ncclSuccess) \<and>
       k_IbGdrFlushDisable K = 0)\<rparr>))) (\<lambda>_.
     nbind (nfor [0..<md_ndevs md] (accept_dev K ch rem a)) (\<lambda>_.
     nbind (nset (in_meta (\<lambda>m. m\<lparr>fifoAddr := a + k_off_sizes K\<rparr>))) (\<lambda>_.
     nbind (nfor [0..<k] accept_qp_info) (\<lambda>_.
     nbind (nset (\<lambda>((c, m), n). ((c, m\<lparr>cm_ndevs := int (ndevs c), cm_devName := md_devName md\<rparr>), n))) (\<lambda>_.
     nget (\<lambda>((c, m), n). m))))))))))))"

text \<open>The labels of \<open>anpNetAccept\<close>; the stage is that of the listening communicator, which is reset at the end.\<close>

definition ib_recv_ready :: "'w conn_env \<Rightarrow> ((ncclIbRecvComm, 'w) staged, ncclIbRecvComm comm_obj option) nc" where
  "ib_recv_ready K =
     nbind stage_obj (\<lambda>ob.
     nbind (nget (\<lambda>(st, n). st_offset st)) (\<lambda>off.
     nbind (nexec (on_world (k_recv_ready K (ob_sock ob) (ready (ob_comm ob)) off))) (\<lambda>(res, r, off).
     nbind (nset (in_stage (\<lambda>st. st\<lparr>st_offset := off, st_comm := Some (ob\<lparr>ob_comm := (ob_comm ob)\<lparr>ready := r\<rparr>\<rparr>)\<rparr>))) (\<lambda>_.
     nbind (nguard res) (\<lambda>_.
     if off \<noteq> sizeof_int then nret None
     else nbind (nset (in_stage (\<lambda>st. zero_stage))) (\<lambda>_. nret (Some (ob\<lparr>ob_comm := (ob_comm ob)\<lparr>ready := r\<rparr>\<rparr>))))))))"

definition ib_send_accept :: "'w conn_env \<Rightarrow> ((ncclIbRecvComm, 'w) staged, ncclIbRecvComm comm_obj option) nc" where
  "ib_send_accept K =
     nbind (progress_send K) (\<lambda>_.
     nbind (nget (\<lambda>(st, n). st_offset st)) (\<lambda>off.
     if off < sizeof_meta then nret None else
     nbind (goto_state ncclIbCommStatePendingReady) (\<lambda>_.
     ib_recv_ready K)))"

definition ib_recv :: "'w conn_env \<Rightarrow> nat \<Rightarrow> int \<Rightarrow> ncclIbConnectionMetadata \<Rightarrow> ((ncclIbRecvComm, 'w) staged, ncclIbRecvComm comm_obj option) nc" where
  "ib_recv K dev ch m0 =
     nbind (progress_recv K) (\<lambda>_.
     nbind (nget (\<lambda>(st, n). st_offset st)) (\<lambda>off.
     if off \<noteq> sizeof_meta then nret None else
     nbind (nread (\<lambda>(st, n). st_buffer st)) (\<lambda>rem.
     nbind stage_obj (\<lambda>ob.
     nbind (on_stage_comm m0 (accept_setup K dev ch rem (ob_addr ob))) (\<lambda>meta.
     nbind (goto_state ncclIbCommStateSend) (\<lambda>_.
     nbind (nset (in_stage (\<lambda>st. st\<lparr>st_buffer := None\<rparr>))) (\<lambda>_.
     nbind (ncheck (on_world (k_malloc K))) (\<lambda>_.
     nbind (nset (in_stage (\<lambda>st. st\<lparr>st_buffer := Some meta\<rparr>))) (\<lambda>_.
     ib_send_accept K)))))))))"

definition ib_accept_check :: "'w conn_env \<Rightarrow> nat \<Rightarrow> int \<Rightarrow> ncclIbConnectionMetadata \<Rightarrow> ((ncclIbRecvComm, 'w) staged, ncclIbRecvComm comm_obj option) nc" where
  "ib_accept_check K dev ch m0 =
     nbind stage_obj (\<lambda>ob.
     nbind (ncheck (on_world (k_sock_ready K (ob_sock ob)))) (\<lambda>rdy.
     if \<not> rdy then nret None else
     nbind (goto_state ncclIbCommStateRecv) (\<lambda>_.
     nbind (ncheck (on_world (k_malloc K))) (\<lambda>_.
     nbind (nset (in_stage (\<lambda>st. st\<lparr>st_buffer := Some zero_meta\<rparr>))) (\<lambda>_.
     ib_recv K dev ch m0)))))"

definition accept_start :: "'w conn_env \<Rightarrow> ncclIbListenComm \<Rightarrow> int \<Rightarrow> ncclIbConnectionMetadata \<Rightarrow> ((ncclIbRecvComm, 'w) staged, ncclIbRecvComm comm_obj option) nc" where
  "accept_start K l ch m0 =
     nbind (ncheck (on_world (k_malloc K))) (\<lambda>a.
     nbind (nset (in_stage (\<lambda>st. st\<lparr>st_comm := Some \<lparr>ob_sock = 0, ob_addr = a, ob_comm = zero_recv_comm K a\<rparr>, st_state := ncclIbCommStateAccept\<rparr>))) (\<lambda>_.
     nbind (ncheck (on_world (k_sock_init K None))) (\<lambda>sock.
     nbind (nset (in_stage (\<lambda>st. st\<lparr>st_comm := map_option (\<lambda>ob. ob\<lparr>ob_sock := sock\<rparr>) (st_comm st)\<rparr>))) (\<lambda>_.
     nbind (ncheck (on_world (k_sock_accept K sock (l_sock l)))) (\<lambda>_.
     ib_accept_check K (l_dev l) ch m0)))))"

definition anpNetAccept :: "'w conn_env \<Rightarrow> ncclIbListenComm \<Rightarrow> int \<Rightarrow> ncclIbConnectionMetadata \<Rightarrow> ((ncclIbRecvComm, 'w) staged, ncclIbRecvComm comm_obj option) nc" where
  "anpNetAccept K l ch m0 =
     nbind (nget (\<lambda>(st, n). st_state st)) (\<lambda>s.
     case s of
       ncclIbCommStateAccept \<Rightarrow> ib_accept_check K (l_dev l) ch m0
     | ncclIbCommStateRecv \<Rightarrow> ib_recv K (l_dev l) ch m0
     | ncclIbCommStateSend \<Rightarrow> ib_send_accept K
     | ncclIbCommStatePendingReady \<Rightarrow> ib_recv_ready K
     | ncclIbCommStateStart \<Rightarrow> accept_start K l ch m0
     | _ \<Rightarrow> nfail ncclInternalError)"

subsection \<open>Queue pairs of both sides\<close>

text \<open>The first \<open>k\<close> queue pairs: striped over \<open>nd\<close> devices, with the given peer devices and clear-to-send slots.\<close>

definition wired :: "(nat \<Rightarrow> nat) \<Rightarrow> (nat \<Rightarrow> 8 word) \<Rightarrow> nat \<Rightarrow> nat \<Rightarrow> ncclIbQp list \<Rightarrow> bool" where
  "wired peer slot nd k qs \<longleftrightarrow> k \<le> length qs \<and>
     (\<forall>j<k. qp (qs ! j) \<noteq> None \<and> devIndex (qs ! j) = j mod nd \<and> remDevIdx (qs ! j) = peer j \<and> ctsQpSlot (qs ! j) = slot j)"

text \<open>The metadata describe the first \<open>k\<close> queue pairs.\<close>

definition described :: "nat \<Rightarrow> ncclIbQp list \<Rightarrow> ncclIbConnectionMetadata \<Rightarrow> bool" where
  "described k qs m \<longleftrightarrow> k \<le> length (qpInfo m) \<and>
     (\<forall>j<k. qpn (qpInfo m ! j) = qp_num (the (qp (qs ! j))) \<and> qi_devIndex (qpInfo m ! j) = int (devIndex (qs ! j)))"

lemma wired_at:
  "wired peer slot nd k qs \<Longrightarrow> j < k \<Longrightarrow> \<exists>p. qp (qs ! j) = Some p \<and> devIndex (qs ! j) = j mod nd \<and> remDevIdx (qs ! j) = peer j \<and> ctsQpSlot (qs ! j) = slot j"
  by (auto simp: wired_def)

lemma described_at: "described k qs m \<Longrightarrow> j < k \<Longrightarrow> qp (qs ! j) = Some p \<Longrightarrow> qpn (qpInfo m ! j) = qp_num p \<and> qi_devIndex (qpInfo m ! j) = int (devIndex (qs ! j))"
  by (simp add: described_def)

lemma in_simps [simp]:
  "in_comm f ((c, m), n) = ((f c, m), n)" "in_meta g ((c, m), n) = ((c, g m), n)" "in_stage h (st, n) = (h st, n)"
  by (simp_all add: in_comm_def in_meta_def in_stage_def)

lemma on_qp_inv:
  "on_qp q M ((c, m), n) = Some (Inr a, t) \<longleftrightarrow>
     (\<exists>e n'. q < length (qps c) \<and> M (qps c ! q, n) = Some (Inr a, (e, n')) \<and> t = ((c\<lparr>qps := (qps c)[q := e]\<rparr>, m), n'))"
  by (auto simp: on_qp_def zoom_inv set_qp_def arr_get_def split: if_splits)

lemma set_qp_simps [simp]: "qps (set_qp q f c) = (qps c)[q := f (qps c ! q)]" "ndevs (set_qp q f c) = ndevs c" "nqps (set_qp q f c) = nqps c"
  by (simp_all add: set_qp_def)

lemma set_qpInfo_simps [simp]: "qpInfo (set_qpInfo q f m) = (qpInfo m)[q := f (qpInfo m ! q)]" "cm_ndevs (set_qpInfo q f m) = cm_ndevs m"
  by (simp_all add: set_qpInfo_def)

lemma accept_qp_effect:
  assumes "accept_qp K ch rem q di ((c, m), n) = Some (Inr u, ((c', m'), n'))"
  shows "q < length (qps c) \<and> ndevs c' = ndevs c \<and> nqps c' = nqps c \<and> length (qpInfo m') = length (qpInfo m) \<and>
    qps c' = (qps c)[q := qps c' ! q] \<and> qp (qps c' ! q) \<noteq> None \<and> devIndex (qps c' ! q) = di \<and>
    remDevIdx (qps c' ! q) = nat (qi_devIndex (qpInfo rem ! q)) \<and> ctsQpSlot (qps c' ! q) = word_of_nat q"
proof -
  have cq: "ncclIbCreateQp (k_cfg K) (k_v K) (portNum dev) b acc ch False (word_of_nat q) (e, n1) = Some (Inr v, (e', n2)) \<Longrightarrow>
      \<exists>p. e' = e\<lparr>qp := Some p, ctsQpSlot := word_of_nat q\<rparr>" for dev b acc e n1 v e' n2
    using create_qp_effect(1) [of "k_cfg K" "k_v K" "portNum dev" b acc ch False "word_of_nat q" e n1 v e' n2] by simp
  show ?thesis
    using assms unfolding accept_qp_def accept_ece_def ncclIbRtrQp_def ncclIbRtsQp_def nwhen_def
    by (auto elim!: nbind_SomeE simp: call_inv on_qp_inv dest!: arr_get_SomeD cq split: if_splits prod.splits)
qed

lemma arr_geti_SomeD: "arr_geti xs i = Some x \<Longrightarrow> nat i < length xs"
  by (auto simp: arr_geti_def dest: arr_get_SomeD split: if_splits)

lemma accept_qp_index:
  assumes "accept_qp K ch rem q di s = Some (Inr u, t)"
  shows "nat (qi_devIndex (qpInfo rem ! q)) < length (cm_devs rem)"
proof -
  obtain ri info where "arr_get (qpInfo rem) q = Some ri" "arr_geti (cm_devs rem) (qi_devIndex ri) = Some info"
    using assms unfolding accept_qp_def by (elim nbind_SomeE) (simp add: nc_inv)
  then show ?thesis by (auto dest: arr_get_SomeD arr_geti_SomeD)
qed

lemma connect_qp_effect:
  assumes "connect_qp K ch q di ((c, m), n) = Some (Inr u, ((c', m'), n'))"
  shows "q < length (qps c) \<and> ndevs c' = ndevs c \<and> nqps c' = nqps c \<and> length (qpInfo m') = length (qpInfo m) \<and> cm_ndevs m' = cm_ndevs m \<and>
    qps c' = (qps c)[q := qps c' ! q] \<and> qp (qps c' ! q) \<noteq> None \<and> devIndex (qps c' ! q) = di \<and> ctsQpSlot (qps c' ! q) = ANP_CTS_QP_SLOT_INVALID \<and>
    qpInfo m' = (qpInfo m)[q := qpInfo m' ! q] \<and>
    (q < length (qpInfo m) \<longrightarrow> qpn (qpInfo m' ! q) = qp_num (the (qp (qps c' ! q))) \<and> qi_devIndex (qpInfo m' ! q) = int di)"
proof -
  have cq: "ncclIbCreateQp (k_cfg K) (k_v K) (portNum dev) b acc ch True (word_of_nat q) (e, n1) = Some (Inr v, (e', n2)) \<Longrightarrow>
      \<exists>p. e' = e\<lparr>qp := Some p, ctsQpSlot := ANP_CTS_QP_SLOT_INVALID\<rparr>" for dev b acc e n1 v e' n2
    using create_qp_effect(1) [of "k_cfg K" "k_v K" "portNum dev" b acc ch True "word_of_nat q" e n1 v e' n2] by simp
  show ?thesis
    using assms unfolding connect_qp_def
    by (cases "q < length (qpInfo m)") (auto elim!: nbind_SomeE simp: call_inv on_qp_inv not_less list_update_beyond dest!: arr_get_SomeD cq split: if_splits prod.splits)
qed

lemma wired_step:
  assumes "wired peer slot nd q qs" "q < length qs" "qp e \<noteq> None" "devIndex e = q mod nd" "remDevIdx e = peer q" "ctsQpSlot e = slot q"
  shows "wired peer slot nd (Suc q) (qs[q := e])"
  using assms by (auto simp: wired_def nth_list_update less_Suc_eq)

lemma accept_qps_effect:
  "accept_qps K ch rem k q (q mod nd) ((c, m), n) = Some (Inr u, ((c', m'), n')) \<Longrightarrow> ndevs c = nd \<Longrightarrow>
   wired (\<lambda>j. nat (qi_devIndex (qpInfo rem ! j))) word_of_nat nd q (qps c) \<Longrightarrow>
   wired (\<lambda>j. nat (qi_devIndex (qpInfo rem ! j))) word_of_nat nd (q + k) (qps c') \<and> ndevs c' = nd \<and> nqps c' = nqps c \<and> length (qpInfo m') = length (qpInfo m) \<and>
   (\<forall>j. q \<le> j \<and> j < q + k \<longrightarrow> nat (qi_devIndex (qpInfo rem ! j)) < length (cm_devs rem))"
proof (induction k arbitrary: q c m n)
  case 0
  then show ?case by (auto simp: nc_inv)
next
  case (Suc k)
  obtain c1 m1 n1 where 1: "accept_qp K ch rem q (q mod nd) ((c, m), n) = Some (Inr (), ((c1, m1), n1))"
    and 2: "accept_qps K ch rem k (Suc q) ((q mod nd + 1) mod ndevs c1) ((c1, m1), n1) = Some (Inr u, ((c', m'), n'))"
    using Suc.prems(1) by (auto elim!: nbind_SomeE simp: nc_inv)
  note e = accept_qp_effect [OF 1]
  have "wired (\<lambda>j. nat (qi_devIndex (qpInfo rem ! j))) word_of_nat nd (Suc q) ((qps c)[q := qps c1 ! q])"
    by (rule wired_step [OF Suc.prems(3)]) (use e in auto)
  then have "wired (\<lambda>j. nat (qi_devIndex (qpInfo rem ! j))) word_of_nat nd (Suc q) (qps c1)" using e by simp
  then have r: "wired (\<lambda>j. nat (qi_devIndex (qpInfo rem ! j))) word_of_nat nd (Suc q + k) (qps c')" "ndevs c' = nd" "nqps c' = nqps c"
      "length (qpInfo m') = length (qpInfo m)" "\<forall>j. Suc q \<le> j \<and> j < Suc q + k \<longrightarrow> nat (qi_devIndex (qpInfo rem ! j)) < length (cm_devs rem)"
    using Suc.IH [of "Suc q" c1 m1 n1] 2 e Suc.prems(2) by (simp_all add: mod_Suc_eq)
  have "nat (qi_devIndex (qpInfo rem ! j)) < length (cm_devs rem)" if "q \<le> j" "j < Suc q + k" for j
    using r(5) accept_qp_index [OF 1] that by (cases "j = q") auto
  then show ?case using r by simp
qed

lemma connect_qps_effect:
  "connect_qps K ch k q (q mod nd) ((c, m), n) = Some (Inr u, ((c', m'), n')) \<Longrightarrow> ndevs c = nd \<Longrightarrow> length (qps c) \<le> length (qpInfo m) \<Longrightarrow>
   wired (\<lambda>j. remDevIdx (qps c ! j)) (\<lambda>j. ANP_CTS_QP_SLOT_INVALID) nd q (qps c) \<Longrightarrow> described q (qps c) m \<Longrightarrow>
   wired (\<lambda>j. remDevIdx (qps c' ! j)) (\<lambda>j. ANP_CTS_QP_SLOT_INVALID) nd (q + k) (qps c') \<and> described (q + k) (qps c') m' \<and> ndevs c' = nd \<and> nqps c' = nqps c \<and>
     cm_ndevs m' = cm_ndevs m"
proof (induction k arbitrary: q c m n)
  case 0
  then show ?case by (simp add: nc_inv)
next
  case (Suc k)
  obtain c1 m1 n1 where 1: "connect_qp K ch q (q mod nd) ((c, m), n) = Some (Inr (), ((c1, m1), n1))"
    and 2: "connect_qps K ch k (Suc q) ((q mod nd + 1) mod ndevs c1) ((c1, m1), n1) = Some (Inr u, ((c', m'), n'))"
    using Suc.prems(1) by (auto elim!: nbind_SomeE simp: nc_inv)
  define x i where "x = qps c1 ! q" and "i = qpInfo m1 ! q"
  note e = connect_qp_effect [OF 1, folded x_def i_def]
  have "wired (\<lambda>j. remDevIdx (qps c1 ! j)) (\<lambda>j. ANP_CTS_QP_SLOT_INVALID) nd (Suc q) (qps c1)"
    using Suc.prems(4) e by (auto simp: wired_def nth_list_update less_Suc_eq)
  moreover have "described (Suc q) (qps c1) m1"
    using Suc.prems(3,5) e by (auto simp: described_def nth_list_update less_Suc_eq)
  moreover have "length (qps c1) = length (qps c)" using e by simp
  ultimately show ?case using Suc.IH [of "Suc q" c1 m1 n1] 2 e Suc.prems(2,3) by (simp add: mod_Suc_eq)
qed

text \<open>The steps that leave the queue pairs and what the metadata say about them alone.\<close>

definition qp_frame :: "ncclIbQp list \<Rightarrow> nat \<Rightarrow> nat \<Rightarrow> ncclIbQpInfo list \<Rightarrow> int \<Rightarrow> (('a) ncclIbNetCommBase_scheme, 'w) side \<Rightarrow> bool" where
  "qp_frame Q nd k I d s = (case s of ((c, m), n) \<Rightarrow> qps c = Q \<and> ndevs c = nd \<and> nqps c = k \<and> qpInfo m = I \<and> cm_ndevs m = d)"

lemma frame_world: "qp_frame Q nd k I d s \<Longrightarrow> qp_frame Q nd k I d (snd (on_world f s))"
  by (auto simp: qp_frame_def on_world_def split: prod.splits)

lemma frame_zoom:
  "keeps (qp_frame Q nd k I d) (on_base i M)" "keeps (qp_frame Q nd k I d) (on_flush_qp i N)"
  by (auto simp: keeps_def qp_frame_def on_base_def on_flush_qp_def zoom_def set_base_def set_flush_def split: option.splits)

lemma frame_reg_mr:
  assumes "\<And>m s. qp_frame Q nd k I d s \<Longrightarrow> qp_frame Q nd k I d (put m s)"
  shows "keeps (qp_frame Q nd k I d) (reg_mr_into K p a len acc put)"
  unfolding reg_mr_into_def by (intro keeps_rules frame_world assms)

lemma frame_put:
  "(\<And>c. qps (f c) = qps c \<and> ndevs (f c) = ndevs c \<and> nqps (f c) = nqps c) \<Longrightarrow> qp_frame Q nd k I d s \<Longrightarrow> qp_frame Q nd k I d (in_comm f s)"
  "(\<And>m. qpInfo (g m) = qpInfo m \<and> cm_ndevs (g m) = cm_ndevs m) \<Longrightarrow> qp_frame Q nd k I d s \<Longrightarrow> qp_frame Q nd k I d (in_meta g s)"
  by (auto simp: qp_frame_def in_comm_def in_meta_def split: prod.splits)

lemma frame_gid: "keeps (qp_frame Q nd k I d) (query_local_gid K i dev)"
  unfolding query_local_gid_def
  by (intro keeps_rules frame_world frame_put) (auto simp: set_base_def keeps_def qp_frame_def gid_index_call_def bind_eq_Some_conv)

lemma frame_modify: "keeps (qp_frame Q nd k I d) (ncclIbRtrQp C V p g x info b)" "keeps (qp_frame Q nd k I d) (ncclIbRtsQp C V p)"
  unfolding ncclIbRtrQp_def ncclIbRtsQp_def by (intro keeps_rules frame_world; simp)+

lemmas frame_rules = keeps_rules frame_world frame_zoom frame_reg_mr frame_put frame_gid frame_modify

lemma frame_accept_init: "keeps (qp_frame Q nd k I d) (accept_init_dev K md i)"
  unfolding accept_init_dev_def by (intro frame_rules)

lemma frame_connect_init: "keeps (qp_frame Q nd k I d) (connect_init_dev K dev md i)"
  unfolding connect_init_dev_def by (intro frame_rules) simp

lemma frame_copy: "keeps (qp_frame Q nd k I d) (copy_rem_dev rem i)"
  unfolding copy_rem_dev_def by (intro frame_rules) (auto simp: qp_frame_def bind_eq_Some_conv)

lemma frame_accept_flush: "keeps (qp_frame Q nd k I d) (accept_flush K ch a i b dev)"
  unfolding accept_flush_def by (intro frame_rules) (simp_all add: set_flush_def)

lemma frame_accept_dev: "keeps (qp_frame Q nd k I d) (accept_dev K ch rem a i)"
  unfolding accept_dev_def
  by (intro frame_rules frame_accept_flush) (auto simp: qp_frame_def set_base_def set_devInfo_def split: if_splits)

lemma frame_connect_dev: "keeps (qp_frame Q nd k I d) (connect_dev K a i)"
  unfolding connect_dev_def
  by (intro frame_rules) (auto simp: qp_frame_def set_base_def set_devInfo_def split: if_splits)

definition info_upto :: "ncclIbQp list \<Rightarrow> nat \<Rightarrow> nat \<Rightarrow> nat \<Rightarrow> (ncclIbRecvComm, 'w) side \<Rightarrow> bool" where
  "info_upto Q nd k q s = (case s of ((c, m), n) \<Rightarrow> qps c = Q \<and> ndevs c = nd \<and> nqps c = k \<and> described q Q m)"

lemma accept_info_step: "ends_in (info_upto Q nd k q) (accept_qp_info q) (\<lambda>_. info_upto Q nd k (Suc q))"
  unfolding ends_in_def accept_qp_info_def
  by (auto elim!: nbind_SomeE simp: call_inv info_upto_def described_def nth_list_update less_Suc_eq dest!: arr_get_SomeD split: if_splits)

lemma accept_setup_wires:
  assumes "accept_setup K dev ch rem a ((c0, m0), n) = Some (Inr meta, ((c, m), n'))"
  shows "wired (\<lambda>j. nat (qi_devIndex (qpInfo rem ! j))) word_of_nat (ndevs c) (nqps c) (qps c) \<and> described (nqps c) (qps c) meta \<and>
    cm_ndevs meta = int (ndevs c) \<and> (\<exists>md. arr_get (mergedDevs n) dev = Some md \<and> ndevs c = md_ndevs md \<and>
      nqps c = nat (IbQpsPerConn (k_cfg K) * int (ndevs c))) \<and> (\<forall>j<nqps c. nat (qi_devIndex (qpInfo rem ! j)) < length (cm_devs rem))"
proof -
  let ?peer = "\<lambda>j. nat (qi_devIndex (qpInfo rem ! j))"
  obtain md u1 s1 u2 s2 u3 c3 m3 n3 u4 c4 m4 n4 u5 c5 m5 n5 where
    md: "arr_get (mergedDevs n) dev = Some md"
    and s1: "nfor [0..<md_ndevs md] (accept_init_dev K md) ((c0\<lparr>ndevs := md_ndevs md, nqps := nat (IbQpsPerConn (k_cfg K) * int (md_ndevs md)), isSend := False,
        nRemDevs := cm_ndevs rem\<rparr>, m0), n) = Some (Inr u1, s1)"
    and s2: "nfor [0..<nat (cm_ndevs rem)] (copy_rem_dev rem) s1 = Some (Inr u2, s2)"
    and s3: "accept_qps K ch rem (nqps (fst (fst s2))) 0 0 s2 = Some (Inr u3, ((c3, m3), n3))"
    and s4: "nfor [0..<md_ndevs md] (accept_dev K ch rem a) ((c3\<lparr>flushEnabled := ((ncclIbGdrSupport = ncclSuccess \<or> ncclIbDmaBufSupport (k_DmaBufEnable K) = ncclSuccess) \<and>
       k_IbGdrFlushDisable K = 0)\<rparr>, m3), n3) = Some (Inr u4, ((c4, m4), n4))"
    and s5: "nfor [0..<nqps (fst (fst s2))] accept_qp_info ((c4, m4\<lparr>fifoAddr := a + k_off_sizes K\<rparr>), n4) = Some (Inr u5, ((c5, m5), n5))"
    and fin: "c = c5" "meta = m5\<lparr>cm_ndevs := int (ndevs c5), cm_devName := md_devName md\<rparr>"
    using assms unfolding accept_setup_def by (auto elim!: nbind_SomeE simp: call_inv split_beta)
  let ?k = "nat (IbQpsPerConn (k_cfg K) * int (md_ndevs md))"
  have f: "qp_frame (qps c0) (md_ndevs md) ?k (qpInfo m0) (cm_ndevs m0) s2"
    by (rule keepsD [OF keeps_for [OF frame_copy] _ s2], rule keepsD [OF keeps_for [OF frame_accept_init] _ s1]) (simp add: qp_frame_def)
  obtain c2 m2 n2 where s2': "s2 = ((c2, m2), n2)" by (metis surj_pair)
  have w: "wired ?peer word_of_nat (md_ndevs md) ?k (qps c3)" "ndevs c3 = md_ndevs md" "nqps c3 = ?k"
    "\<forall>j<?k. nat (qi_devIndex (qpInfo rem ! j)) < length (cm_devs rem)"
    using accept_qps_effect [of K ch rem ?k 0 "md_ndevs md" c2 m2 n2 u3 c3 m3 n3] s3 f s2' by (simp_all add: qp_frame_def wired_def)
  have g: "qp_frame (qps c3) (md_ndevs md) ?k (qpInfo m3) (cm_ndevs m3) ((c4, m4), n4)"
    by (rule keepsD [OF keeps_for [OF frame_accept_dev] _ s4]) (simp add: qp_frame_def w)
  have k: "nqps (fst (fst s2)) = ?k" using f s2' by (simp add: qp_frame_def)
  have e: "ends_in (info_upto (qps c3) (md_ndevs md) ?k 0) (nfor [0..<?k] accept_qp_info) (\<lambda>_. info_upto (qps c3) (md_ndevs md) ?k ?k)"
    by (rule ends_for [where I = "info_upto (qps c3) (md_ndevs md) ?k"]) (simp_all add: accept_info_step)
  have "info_upto (qps c3) (md_ndevs md) ?k ?k ((c5, m5), n5)"
    by (rule ends_inD [OF e _ s5 [unfolded k]]) (use g in \<open>simp add: info_upto_def qp_frame_def described_def\<close>)
  then show ?thesis using w md fin by (auto simp: info_upto_def described_def)
qed

lemma connect_setup_wires:
  assumes "connect_setup K dev ch a ((c0, m0), n) = Some (Inr meta, ((c, m), n'))" "length (qps c0) \<le> length (qpInfo m0)"
  shows "wired (\<lambda>j. remDevIdx (qps c ! j)) (\<lambda>j. ANP_CTS_QP_SLOT_INVALID) (ndevs c) (nqps c) (qps c) \<and> described (nqps c) (qps c) meta \<and>
    cm_ndevs meta = int (ndevs c) \<and> (\<exists>md. arr_get (mergedDevs n) dev = Some md \<and> ndevs c = md_ndevs md \<and>
      nqps c = nat (IbQpsPerConn (k_cfg K) * int (ndevs c)))"
proof -
  obtain md u1 c1 m1 n1 u2 c2 m2 n2 u3 c3 m3 n3 where
    md: "arr_get (mergedDevs n) dev = Some md"
    and s1: "nfor [0..<md_ndevs md] (connect_init_dev K dev md) ((c0\<lparr>ndevs := md_ndevs md, nqps := nat (IbQpsPerConn (k_cfg K) * int (md_ndevs md)),
        isSend := True, ar := True\<rparr>, m0), n\<lparr>nx := tele (s_x (k_cfg K)) [T_set_device_name dev (md_devName md)] (nx n)\<rparr>) = Some (Inr u1, ((c1, m1), n1))"
    and s2: "connect_qps K ch (nqps c1) 0 0 ((c1, m1\<lparr>cm_ndevs := int (ndevs c1)\<rparr>), n1) = Some (Inr u2, ((c2, m2), n2))"
    and s3: "nfor [0..<ndevs c2] (connect_dev K a) ((c2, m2), n2) = Some (Inr u3, ((c3, m3), n3))"
    and fin: "c = c3" "meta = m3\<lparr>fifoAddr := a + k_off_fifo K, cm_devName := md_devName md\<rparr>"
    using assms(1) unfolding connect_setup_def by (auto elim!: nbind_SomeE simp: call_inv)
  let ?k = "nat (IbQpsPerConn (k_cfg K) * int (md_ndevs md))"
  have f: "qp_frame (qps c0) (md_ndevs md) ?k (qpInfo m0) (cm_ndevs m0) ((c1, m1), n1)"
    by (rule keepsD [OF keeps_for [OF frame_connect_init] _ s1]) (simp add: qp_frame_def)
  have w: "wired (\<lambda>j. remDevIdx (qps c2 ! j)) (\<lambda>j. ANP_CTS_QP_SLOT_INVALID) (md_ndevs md) ?k (qps c2)" "described ?k (qps c2) m2"
    "ndevs c2 = md_ndevs md" "nqps c2 = ?k" "cm_ndevs m2 = int (md_ndevs md)"
    using connect_qps_effect [of K ch ?k 0 "md_ndevs md" c1 "m1\<lparr>cm_ndevs := int (ndevs c1)\<rparr>" n1 u2 c2 m2 n2] s2 f assms(2)
    by (simp_all add: qp_frame_def wired_def described_def)
  have "qp_frame (qps c2) (md_ndevs md) ?k (qpInfo m2) (int (md_ndevs md)) ((c3, m3), n3)"
    by (rule keepsD [OF keeps_for [OF frame_connect_dev] _ s3]) (simp add: qp_frame_def w)
  then show ?thesis using w md fin by (auto simp: qp_frame_def described_def)
qed

text \<open>The queue pairs after \<open>q\<close> rounds of the last loop of the sender: only the peer device is new.\<close>

definition peers_upto :: "ncclIbQp list \<Rightarrow> nat \<Rightarrow> nat \<Rightarrow> ncclIbConnectionMetadata \<Rightarrow> nat \<Rightarrow> (ncclIbSendComm, 'w) side \<Rightarrow> bool" where
  "peers_upto Q nd k rem q s = (case s of ((c, m), n) \<Rightarrow> ndevs c = nd \<and> nqps c = k \<and> length (qps c) = length Q \<and>
     (\<forall>j<length Q. qps c ! j = (if j < q then (Q ! j)\<lparr>remDevIdx := nat (qi_devIndex (qpInfo rem ! j))\<rparr> else Q ! j)))"

lemma finish_step: "ends_in (peers_upto Q nd k rem q) (finish_qp K rem q) (\<lambda>_. peers_upto Q nd k rem (Suc q))"
  unfolding ends_in_def finish_qp_def ncclIbRtrQp_def ncclIbRtsQp_def nwhen_def
  by (auto elim!: nbind_SomeE simp: call_inv peers_upto_def nth_list_update dest!: arr_get_SomeD split: if_splits)

lemma frame_finish:
  "keeps (qp_frame Q nd k I d) (check_link rem d0 i)" "keeps (qp_frame Q nd k I d) (keep_rem_dev rem i)" "keeps (qp_frame Q nd k I d) (reg_rem_sizes K a i)"
  unfolding check_link_def keep_rem_dev_def reg_rem_sizes_def
  by (intro frame_rules frame_copy; auto simp: qp_frame_def bind_eq_Some_conv)+

lemma connect_finish_peers:
  assumes "connect_finish K rem a ((c, m), n) = Some (Inr u, ((c', m'), n'))"
  shows "peers_upto (qps c) (ndevs c) (nqps c) rem (nqps c) ((c', m'), n')"
proof -
  obtain d0 u1 s1 u2 s2 u3 c3 m3 n3 u4 where
    s1: "nfor [1..<nat (cm_ndevs rem)] (check_link rem d0) ((c\<lparr>nRemDevs := cm_ndevs rem\<rparr>, m), n) = Some (Inr u1, s1)"
    and s2: "nfor [0..<nat (cm_ndevs rem)] (keep_rem_dev rem) s1 = Some (Inr u2, s2)"
    and s3: "nfor [0..<ndevs (fst (fst s2))] (reg_rem_sizes K a) s2 = Some (Inr u3, ((c3, m3), n3))"
    and s4: "nfor [0..<nqps c3] (finish_qp K rem) ((c3\<lparr>nRemDevs := cm_ndevs rem\<rparr>, m3), n3) = Some (Inr u4, ((c', m'), n'))"
    using assms unfolding connect_finish_def by (auto elim!: nbind_SomeE simp: call_inv split_beta)
  have f: "qp_frame (qps c) (ndevs c) (nqps c) (qpInfo m) (cm_ndevs m) ((c3, m3), n3)"
    by (rule keepsD [OF keeps_for [OF frame_finish(3)] _ s3], rule keepsD [OF keeps_for [OF frame_finish(2)] _ s2],
        rule keepsD [OF keeps_for [OF frame_finish(1)] _ s1])
      (simp add: qp_frame_def)
  have k: "nqps c3 = nqps c" using f by (simp add: qp_frame_def)
  have e: "ends_in (peers_upto (qps c) (ndevs c) (nqps c) rem 0) (nfor [0..<nqps c] (finish_qp K rem)) (\<lambda>_. peers_upto (qps c) (ndevs c) (nqps c) rem (nqps c))"
    by (rule ends_for [where I = "peers_upto (qps c) (ndevs c) (nqps c) rem"]) (simp_all add: finish_step)
  show ?thesis by (rule ends_inD [OF e _ s4 [unfolded k]]) (use f in \<open>simp add: peers_upto_def qp_frame_def\<close>)
qed

subsection \<open>The rest of a new communicator\<close>

definition comm_frame :: "('c \<Rightarrow> bool) \<Rightarrow> ('c, 'w) side \<Rightarrow> bool" where
  "comm_frame P s = P (fst (fst s))"

lemma comm_frame_put:
  "comm_frame P s \<Longrightarrow> comm_frame P (snd (on_world f s))"
  "comm_frame P s \<Longrightarrow> comm_frame P (with_tele C ts s)"
  "(\<And>c. P c \<Longrightarrow> P (g c)) \<Longrightarrow> comm_frame P s \<Longrightarrow> comm_frame P (in_comm g s)"
  "comm_frame P s \<Longrightarrow> comm_frame P (in_meta h s)"
  by (auto simp: comm_frame_def on_world_def with_tele_def in_comm_def in_meta_def split: prod.splits)

lemma comm_frame_base: "(\<And>b c. P c \<Longrightarrow> P (set_base i (\<lambda>_. b) c)) \<Longrightarrow> keeps (comm_frame P) (on_base i M)"
  by (auto simp: keeps_def comm_frame_def on_base_def zoom_def split: option.splits)

lemma comm_frame_qp: "(\<And>e c. P c \<Longrightarrow> P (set_qp i (\<lambda>_. e) c)) \<Longrightarrow> keeps (comm_frame P) (on_qp i M)"
  by (auto simp: keeps_def comm_frame_def on_qp_def zoom_def split: option.splits)

lemma comm_frame_flush: "(\<And>f c. P c \<Longrightarrow> P (set_flush i f c)) \<Longrightarrow> keeps (comm_frame P) (on_flush_qp i M)"
  by (auto simp: keeps_def comm_frame_def on_flush_qp_def zoom_def split: option.splits)

lemma comm_frame_reg:
  "(\<And>m s. comm_frame P s \<Longrightarrow> comm_frame P (put m s)) \<Longrightarrow> keeps (comm_frame P) (reg_mr_into K p a len acc put)"
  unfolding reg_mr_into_def by (intro keeps_rules comm_frame_put)

lemma comm_frame_modify: "keeps (comm_frame P) (ncclIbRtrQp C V p g x info b)" "keeps (comm_frame P) (ncclIbRtsQp C V p)"
  unfolding ncclIbRtrQp_def ncclIbRtsQp_def by (intro keeps_rules comm_frame_put; simp)+

lemma comm_frame_gid: "(\<And>f c. P c \<Longrightarrow> P (set_base i f c)) \<Longrightarrow> keeps (comm_frame P) (query_local_gid K i dev)"
  unfolding query_local_gid_def
  by (intro keeps_rules comm_frame_put) (auto simp: keeps_def comm_frame_def gid_index_call_def bind_eq_Some_conv)

lemmas comm_frame_rules = keeps_rules comm_frame_put comm_frame_base comm_frame_qp comm_frame_flush comm_frame_reg comm_frame_modify comm_frame_gid

text \<open>What accepting leaves as it was allocated.\<close>

definition recv_rest :: "ncclIbRecvComm \<Rightarrow> ncclIbRecvComm \<Rightarrow> bool" where
  "recv_rest c0 c \<longleftrightarrow> reqs c = reqs c0 \<and> sizesFifo c = sizesFifo c0 \<and> remFifo_elems c = remFifo_elems c0 \<and> length (remDevs c) = length (remDevs c0) \<and>
     length (fifoSge c) = length (fifoSge c0) \<and> qpIndex c = qpIndex c0 \<and> fifoTail c = fifoTail c0 \<and> elems_addr c = elems_addr c0"

lemma recv_rest_upd [simp]:
  "recv_rest c0 (set_base i f c) = recv_rest c0 c" "recv_rest c0 (set_qp i g c) = recv_rest c0 c" "recv_rest c0 (set_flush i h c) = recv_rest c0 c"
  by (simp_all add: recv_rest_def set_base_def set_qp_def set_flush_def)

lemma rest_accept_qp: "keeps (comm_frame (recv_rest c0)) (accept_qp K ch rem q di)"
  unfolding accept_qp_def accept_ece_def by (intro comm_frame_rules) simp_all

lemma rest_accept_qps: "keeps (comm_frame (recv_rest c0)) (accept_qps K ch rem k q di)"
  by (induction k arbitrary: q di) (auto intro!: keeps_rules rest_accept_qp)

lemma rest_accept_init: "keeps (comm_frame (recv_rest c0)) (accept_init_dev K md i)"
  unfolding accept_init_dev_def by (intro comm_frame_rules) simp_all

lemma rest_copy: "keeps (comm_frame (recv_rest c0)) (copy_rem_dev rem i)"
  unfolding copy_rem_dev_def by (intro comm_frame_rules) (auto simp: comm_frame_def recv_rest_def bind_eq_Some_conv dest!: arr_set_SomeD)

lemma rest_accept_flush: "keeps (comm_frame (recv_rest c0)) (accept_flush K ch a i b dev)"
  unfolding accept_flush_def by (intro comm_frame_rules) simp_all

lemma rest_accept_dev: "keeps (comm_frame (recv_rest c0)) (accept_dev K ch rem a i)"
  unfolding accept_dev_def
  by (intro comm_frame_rules rest_accept_flush) (auto simp: comm_frame_def split: if_splits, auto simp: recv_rest_def)

lemma rest_accept_info: "keeps (comm_frame (recv_rest c0)) (accept_qp_info q)"
  unfolding accept_qp_info_def by (intro comm_frame_rules) (auto simp: comm_frame_def split: if_splits)

lemma accept_setup_rest: "keeps (comm_frame (recv_rest c0)) (accept_setup K dev ch rem a)"
  unfolding accept_setup_def
  by (intro comm_frame_rules rest_accept_init rest_copy rest_accept_qps rest_accept_dev rest_accept_info) (auto simp: comm_frame_def recv_rest_def)

lemma accept_setup_len: "keeps (comm_frame (\<lambda>c. length (qps c) = k)) (accept_setup K dev ch rem a)"
proof -
  let ?P = "\<lambda>c :: ncclIbRecvComm. length (qps c) = k"
  have q: "keeps (comm_frame ?P) (accept_qp K ch rem q di)" for q di
    unfolding accept_qp_def accept_ece_def by (intro comm_frame_rules) (simp_all add: set_base_def)
  have qs: "keeps (comm_frame ?P) (accept_qps K ch rem j q di)" for j q di
    by (induction j arbitrary: q di) (auto intro!: keeps_rules q)
  show ?thesis
    unfolding accept_setup_def accept_init_dev_def accept_dev_def accept_flush_def copy_rem_dev_def accept_qp_info_def
    by (intro comm_frame_rules qs) (auto simp: comm_frame_def set_base_def set_flush_def bind_eq_Some_conv split: if_splits)
qed

text \<open>What connecting leaves as it was allocated.\<close>

definition send_rest :: "ncclIbSendComm \<Rightarrow> ncclIbSendComm \<Rightarrow> bool" where
  "send_rest c0 c \<longleftrightarrow> reqs c = reqs c0 \<and> fifoReqs c = fifoReqs c0 \<and> remSizes_elems c = remSizes_elems c0 \<and> qpIndex c = qpIndex c0 \<and> fifoHead c = fifoHead c0"

lemma send_rest_upd [simp]: "send_rest c0 (set_base i f c) = send_rest c0 c" "send_rest c0 (set_qp i g c) = send_rest c0 c"
  by (simp_all add: send_rest_def set_base_def set_qp_def)

lemma rest_connect_qps: "keeps (comm_frame (send_rest c0)) (connect_qps K ch k q di)"
proof (induction k arbitrary: q di)
  case (Suc k)
  have "keeps (comm_frame (send_rest c0)) (connect_qp K ch q di)" unfolding connect_qp_def by (intro comm_frame_rules) simp_all
  then show ?case using Suc by (auto intro!: keeps_rules)
qed (simp add: keeps_basic)

lemma rest_connect_init: "keeps (comm_frame (send_rest c0)) (connect_init_dev K dev md i)"
  unfolding connect_init_dev_def by (intro comm_frame_rules) (simp_all add: send_rest_def set_base_def)

lemma rest_connect_dev: "keeps (comm_frame (send_rest c0)) (connect_dev K a i)"
  unfolding connect_dev_def by (intro comm_frame_rules) (auto simp: comm_frame_def split: if_splits, auto simp: send_rest_def)

lemma connect_setup_rest: "keeps (comm_frame (send_rest c0)) (connect_setup K dev ch a)"
  unfolding connect_setup_def
  by (intro comm_frame_rules rest_connect_init rest_connect_qps rest_connect_dev) (auto simp: comm_frame_def send_rest_def)

lemma rest_finish_qp: "keeps (comm_frame (send_rest c0)) (finish_qp K rem q)"
  unfolding finish_qp_def by (intro comm_frame_rules) simp_all

lemma rest_finish:
  "keeps (comm_frame (send_rest c0)) (check_link rem d0 i)" "keeps (comm_frame (send_rest c0)) (keep_rem_dev rem i)" "keeps (comm_frame (send_rest c0)) (reg_rem_sizes K a i)"
  unfolding check_link_def keep_rem_dev_def reg_rem_sizes_def copy_rem_dev_def
  by (intro comm_frame_rules; auto simp: comm_frame_def send_rest_def bind_eq_Some_conv)+

lemma connect_finish_rest: "keeps (comm_frame (send_rest c0)) (connect_finish K rem a)"
  unfolding connect_finish_def by (intro comm_frame_rules rest_finish rest_finish_qp) (auto simp: comm_frame_def send_rest_def)

subsection \<open>Properties of new connections\<close>

lemma wired_qps_ok:
  assumes "wired peer slot (ndevs c) (nqps c) (qps c)" "nqps c = nat (Q * int (ndevs c))" "0 < Q" "0 < ndevs c" "ndevs c \<le> 2" "qpIndex c = 0"
  shows "qps_ok c"
proof -
  have "int (ndevs c) \<le> Q * int (ndevs c)" using assms(3,4) mult_right_mono [of 1 Q "int (ndevs c)"] by simp
  then have "ndevs c \<le> nqps c" using assms(2) by simp
  then show ?thesis using assms by (auto simp: qps_ok_def wired_def NCCL_IB_MAX_DEVS_PER_NIC_def)
qed

lemma sint_slot: "i < 128 \<Longrightarrow> sint (word_of_nat i :: 8 word) = int i"
  by (simp add: sint_uint unsigned_of_nat take_bit_nat_eq_self signed_take_bit_int_eq_self)

text \<open>
  A communicator that was accepted is one the receive path can work with: it satisfies the invariant of receives, its fifo is at the start,
  every queue pair has its own index as clear-to-send slot, and the answer sent to the peer describes exactly its queue pairs.
\<close>

lemma accepted_comm_ready:
  assumes "0 < MAX_REQUESTS (s_x (k_cfg K))" "MAX_REQUESTS (s_x (k_cfg K)) \<le> 256"
    and "arr_get (mergedDevs n) dev = Some md" "0 < md_ndevs md" "md_ndevs md \<le> 2" "0 < IbQpsPerConn (k_cfg K)" "length (cm_devs rem) = 2"
    and "accept_setup K dev ch rem a ((zero_recv_comm K a, m0), n) = Some (Inr meta, ((c, m), n'))"
  shows "recv_comm_ok (s_x (k_cfg K)) c \<and> fifoTail c = 0 \<and> (\<forall>i<nqps c. sint (ctsQpSlot (qps c ! i)) = int i) \<and>
    nqps c = nat (IbQpsPerConn (k_cfg K) * int (md_ndevs md)) \<and> described (nqps c) (qps c) meta"
proof -
  note w = accept_setup_wires [OF assms(8)]
  have r: "recv_rest (zero_recv_comm K a) c"
    using keepsD [OF accept_setup_rest _ assms(8), of "zero_recv_comm K a"] by (simp add: comm_frame_def recv_rest_def)
  have q: "qps_ok c" by (rule wired_qps_ok) (use w r assms in \<open>auto simp: recv_rest_def zero_recv_comm_def Let_def\<close>)
  have len: "length (qps c) = NCCL_IB_MAX_QPS"
    using keepsD [OF accept_setup_len _ assms(8), of NCCL_IB_MAX_QPS] by (simp add: comm_frame_def zero_recv_comm_def Let_def)
  have "recv_comm_ok (s_x (k_cfg K)) c"
    using w r q assms by (auto simp: recv_comm_ok_def recv_rest_def zero_recv_comm_def Let_def zero_req_def req_ok_def zero_elem_def NCCL_NET_IB_MAX_RECVS_def
        wired_def list_all_iff less_2_cases_iff)
  moreover have "sint (ctsQpSlot (qps c ! i)) = int i" if "i < nqps c" for i
    using w that len sint_slot [of i] by (auto simp: wired_def NCCL_IB_MAX_QPS_def)
  ultimately show ?thesis using w r assms(3) by (auto simp: recv_rest_def zero_recv_comm_def Let_def)
qed

text \<open>
  A communicator that was connected is one the send path can work with: it satisfies the invariant of sends, and its fifo is at the start.
\<close>

lemma connected_comm_ready:
  assumes "0 < MAX_REQUESTS (s_x (k_cfg K))" "MAX_REQUESTS (s_x (k_cfg K)) \<le> 256"
    and "arr_get (mergedDevs n) dev = Some md" "0 < md_ndevs md" "md_ndevs md \<le> 2" "0 < IbQpsPerConn (k_cfg K)" "length (qpInfo m0) = NCCL_IB_MAX_QPS"
    and "connect_setup K dev ch a ((zero_send_comm K, m0), n) = Some (Inr meta, ((c1, m1), n1))"
    and "connect_finish K rem a ((c1, m2), n2) = Some (Inr u, ((c, m3), n3))"
  shows "send_comm_ok (s_x (k_cfg K)) c \<and> fifoHead c = 0 \<and> nqps c = nat (IbQpsPerConn (k_cfg K) * int (md_ndevs md))"
proof -
  have w: "wired (\<lambda>j. remDevIdx (qps c1 ! j)) (\<lambda>j. ANP_CTS_QP_SLOT_INVALID) (ndevs c1) (nqps c1) (qps c1)" "ndevs c1 = md_ndevs md"
      "nqps c1 = nat (IbQpsPerConn (k_cfg K) * int (md_ndevs md))"
    using connect_setup_wires [OF assms(8)] assms(3,7) by (auto simp: zero_send_comm_def Let_def)
  have r: "send_rest (zero_send_comm K) c1"
    using keepsD [OF connect_setup_rest _ assms(8), of "zero_send_comm K"] by (simp add: comm_frame_def send_rest_def)
  then have r': "send_rest (zero_send_comm K) c" using keepsD [OF connect_finish_rest _ assms(9), of "zero_send_comm K"] by (simp add: comm_frame_def)
  have f: "peers_upto (qps c1) (ndevs c1) (nqps c1) rem (nqps c1) ((c, m3), n3)" by (rule connect_finish_peers [OF assms(9)])
  have q1: "qps_ok c1" by (rule wired_qps_ok) (use w r assms in \<open>auto simp: send_rest_def zero_send_comm_def Let_def\<close>)
  have "qps_ok c"
    using q1 f r r' by (auto simp: qps_ok_def peers_upto_def send_rest_def)
  then show ?thesis using r' f w assms(1,2)
    by (auto simp: send_comm_ok_def send_rest_def zero_send_comm_def Let_def peers_upto_def zero_req_def req_ok_def NCCL_NET_IB_MAX_RECVS_def
        list_all_iff less_2_cases_iff)
qed


subsection \<open>Resuming\<close>

text \<open>The stages a connecting sender can be in between two calls, in order.\<close>

fun connect_rank :: "ncclIbCommState \<Rightarrow> nat option" where
  "connect_rank ncclIbCommStateStart = Some 0"
| "connect_rank ncclIbCommStateConnect = Some 1"
| "connect_rank ncclIbCommStateSend = Some 2"
| "connect_rank ncclIbCommStateConnecting = Some 3"
| "connect_rank ncclIbCommStateConnected = Some 4"
| "connect_rank _ = None"

definition connect_stage_ok :: "ncclIbSendComm ncclIbCommStage \<Rightarrow> bool" where
  "connect_stage_ok st \<longleftrightarrow> connect_rank (st_state st) \<noteq> None \<and>
     (st_state st \<noteq> ncclIbCommStateStart \<longrightarrow> st_comm st \<noteq> None) \<and>
     (st_state st = ncclIbCommStateSend \<or> st_state st = ncclIbCommStateConnecting \<longrightarrow> st_buffer st \<noteq> None) \<and>
     (st_state st = ncclIbCommStateConnected \<longrightarrow> (\<exists>ob. st_comm st = Some ob \<and> ready (ob_comm ob)))"

text \<open>The outcome of a call that found the sender in stage \<open>k\<close>: it is later, or done.\<close>

definition connect_outcome :: "nat \<Rightarrow> ncclIbSendComm comm_obj option \<Rightarrow> ncclIbSendComm ncclIbCommStage \<Rightarrow> bool" where
  "connect_outcome k r st \<longleftrightarrow> connect_stage_ok st \<and> (case r of
     None \<Rightarrow> (\<exists>j. connect_rank (st_state st) = Some j \<and> k \<le> j \<and> 0 < j)
   | Some ob \<Rightarrow> st_state st = ncclIbCommStateStart \<and> ready (ob_comm ob))"

lemma connect_outcome_mono: "connect_outcome k r st \<Longrightarrow> j \<le> k \<Longrightarrow> connect_outcome j r st"
  by (auto simp: connect_outcome_def split: option.splits)

lemma stage_obj_inv: "stage_obj (st, n) = Some (Inr ob, t) \<longleftrightarrow> st_comm st = Some ob \<and> t = (st, n)"
  by (auto simp: stage_obj_def nc_inv)

lemma on_stage_comm_inv:
  "on_stage_comm m0 M (st, n) = Some (Inr a, t) \<longleftrightarrow> (\<exists>ob c m n'. st_comm st = Some ob \<and> M ((ob_comm ob, m0), n) = Some (Inr a, ((c, m), n')) \<and>
     t = (st\<lparr>st_comm := Some (ob\<lparr>ob_comm := c\<rparr>)\<rparr>, n'))"
  by (auto simp: on_stage_comm_def zoom_inv split: prod.splits)

lemmas stage_inv = call_inv stage_obj_inv on_stage_comm_inv

lemma send_ready_stage:
  assumes "ib_send_ready K (st, n) = Some (Inr r, (st', n'))" "connect_stage_ok st" "st_state st = ncclIbCommStateConnected"
  shows "connect_outcome 4 r st'"
  using assms unfolding ib_send_ready_def
  by (auto elim!: nbind_SomeE simp: stage_inv connect_outcome_def connect_stage_ok_def split: if_splits)

lemma ib_connect_stage:
  assumes "ib_connect K (st, n) = Some (Inr r, (st', n'))" "connect_stage_ok st" "st_state st = ncclIbCommStateConnecting"
  shows "connect_outcome 3 r st'"
  using assms unfolding ib_connect_def progress_recv_def goto_state_def
  by (auto elim!: nbind_SomeE simp: stage_inv split: if_splits dest!: send_ready_stage connect_outcome_mono [of 4 _ _ 3])
    (auto simp: connect_outcome_def connect_stage_ok_def)

lemma ib_send_stage:
  assumes "ib_send_connect K (st, n) = Some (Inr r, (st', n'))" "connect_stage_ok st" "st_state st = ncclIbCommStateSend"
  shows "connect_outcome 2 r st'"
  using assms unfolding ib_send_connect_def progress_send_def goto_state_def
  by (auto elim!: nbind_SomeE simp: stage_inv split: if_splits dest!: ib_connect_stage connect_outcome_mono [of 3 _ _ 2])
    (auto simp: connect_outcome_def connect_stage_ok_def)

lemma connect_check_stage:
  assumes "ib_connect_check K dev ch m0 (st, n) = Some (Inr r, (st', n'))" "connect_stage_ok st" "st_state st = ncclIbCommStateConnect"
  shows "connect_outcome 1 r st'"
  using assms unfolding ib_connect_check_def goto_state_def
  by (auto elim!: nbind_SomeE simp: stage_inv split: if_splits dest!: ib_send_stage connect_outcome_mono [of 2 _ _ 1])
    (auto simp: connect_outcome_def connect_stage_ok_def)

lemma connect_start_stage:
  assumes "connect_start K dev ch addr m0 (st, n) = Some (Inr r, (st', n'))"
  shows "connect_outcome 1 r st'"
  using assms unfolding connect_start_def
  by (auto elim!: nbind_SomeE simp: stage_inv dest!: connect_check_stage) (auto simp: connect_stage_ok_def)

lemma connect_call_stage:
  assumes "anpNetConnect K dev ch addr m0 (st, n) = Some (Inr r, (st', n'))" "connect_stage_ok st"
  shows "connect_outcome (the (connect_rank (st_state st))) r st'"
proof -
  have rank: "connect_rank (st_state st) \<noteq> None" using assms(2) by (simp add: connect_stage_ok_def)
  show ?thesis
  proof (cases "st_state st")
  case ncclIbCommStateStart
  then have "connect_start K dev ch addr m0 (st, n) = Some (Inr r, (st', n'))" using assms(1) by (simp add: anpNetConnect_def nbind_def nget_def)
  from connect_outcome_mono [OF connect_start_stage [OF this], of 0] show ?thesis using ncclIbCommStateStart by simp
qed (use assms rank in \<open>auto simp: anpNetConnect_def nbind_def nget_def simp del: One_nat_def intro: connect_check_stage ib_send_stage ib_connect_stage send_ready_stage\<close>)
qed

text \<open>A call that reports success, with anything having happened to the rest of the plugin since the last one.\<close>

definition connect_succ :: "'w conn_env \<Rightarrow> nat \<Rightarrow> int \<Rightarrow> nat \<Rightarrow> ncclIbSendComm ncclIbCommStage \<Rightarrow> ncclIbSendComm comm_obj option \<Rightarrow> ncclIbSendComm ncclIbCommStage \<Rightarrow> bool" where
  "connect_succ K dev ch addr st r st' \<longleftrightarrow> (\<exists>m0 n n'. anpNetConnect K dev ch addr m0 (st, n) = Some (Inr r, (st', n')))"

interpretation con: resumable zero_stage "connect_succ K dev ch addr" connect_stage_ok "\<lambda>st. connect_rank (st_state st)"
    "\<lambda>ob st. st_state st = ncclIbCommStateStart \<and> ready (ob_comm ob)" for K dev ch addr
proof unfold_locales
  show "connect_stage_ok zero_stage" by (simp add: connect_stage_ok_def zero_stage_def)
qed (auto simp: connect_succ_def connect_outcome_def dest!: connect_call_stage, auto simp: connect_stage_ok_def)


text \<open>The stages of an accepting receiver.\<close>

fun accept_rank :: "ncclIbCommState \<Rightarrow> nat option" where
  "accept_rank ncclIbCommStateStart = Some 0"
| "accept_rank ncclIbCommStateAccept = Some 1"
| "accept_rank ncclIbCommStateRecv = Some 2"
| "accept_rank ncclIbCommStateSend = Some 3"
| "accept_rank ncclIbCommStatePendingReady = Some 4"
| "accept_rank _ = None"

definition accept_stage_ok :: "ncclIbRecvComm ncclIbCommStage \<Rightarrow> bool" where
  "accept_stage_ok st \<longleftrightarrow> accept_rank (st_state st) \<noteq> None \<and>
     (st_state st \<noteq> ncclIbCommStateStart \<longrightarrow> st_comm st \<noteq> None) \<and>
     (st_state st = ncclIbCommStateSend \<or> st_state st = ncclIbCommStateRecv \<longrightarrow> st_buffer st \<noteq> None)"

definition accept_outcome :: "nat \<Rightarrow> ncclIbRecvComm comm_obj option \<Rightarrow> ncclIbRecvComm ncclIbCommStage \<Rightarrow> bool" where
  "accept_outcome k r st \<longleftrightarrow> accept_stage_ok st \<and> (case r of
     None \<Rightarrow> (\<exists>j. accept_rank (st_state st) = Some j \<and> k \<le> j \<and> 0 < j) | Some ob \<Rightarrow> st = zero_stage)"

lemma accept_outcome_mono: "accept_outcome k r st \<Longrightarrow> j \<le> k \<Longrightarrow> accept_outcome j r st"
  by (auto simp: accept_outcome_def split: option.splits)

lemma recv_ready_stage:
  assumes "ib_recv_ready K (st, n) = Some (Inr r, (st', n'))" "st_state st = ncclIbCommStatePendingReady"
  shows "accept_outcome 4 r st'"
  using assms unfolding ib_recv_ready_def
  by (auto elim!: nbind_SomeE simp: stage_inv accept_outcome_def accept_stage_ok_def zero_stage_def split: if_splits)

lemma send_accept_stage:
  assumes "ib_send_accept K (st, n) = Some (Inr r, (st', n'))" "accept_stage_ok st" "st_state st = ncclIbCommStateSend"
  shows "accept_outcome 3 r st'"
  using assms unfolding ib_send_accept_def progress_send_def goto_state_def
  by (auto elim!: nbind_SomeE simp: stage_inv split: if_splits dest!: recv_ready_stage accept_outcome_mono [of 4 _ _ 3])
    (auto simp: accept_outcome_def accept_stage_ok_def)

lemma ib_recv_stage:
  assumes "ib_recv K dev ch m0 (st, n) = Some (Inr r, (st', n'))" "accept_stage_ok st" "st_state st = ncclIbCommStateRecv"
  shows "accept_outcome 2 r st'"
  using assms unfolding ib_recv_def progress_recv_def goto_state_def
  by (auto elim!: nbind_SomeE simp: stage_inv split: if_splits dest!: send_accept_stage accept_outcome_mono [of 3 _ _ 2])
    (auto simp: accept_outcome_def accept_stage_ok_def)

lemma accept_check_stage:
  assumes "ib_accept_check K dev ch m0 (st, n) = Some (Inr r, (st', n'))" "accept_stage_ok st" "st_state st = ncclIbCommStateAccept"
  shows "accept_outcome 1 r st'"
  using assms unfolding ib_accept_check_def goto_state_def
  by (auto elim!: nbind_SomeE simp: stage_inv split: if_splits dest!: ib_recv_stage accept_outcome_mono [of 2 _ _ 1])
    (auto simp: accept_outcome_def accept_stage_ok_def)

lemma accept_start_stage:
  assumes "accept_start K l ch m0 (st, n) = Some (Inr r, (st', n'))"
  shows "accept_outcome 1 r st'"
  using assms unfolding accept_start_def
  by (auto elim!: nbind_SomeE simp: stage_inv dest!: accept_check_stage) (auto simp: accept_stage_ok_def)

lemma accept_call_stage:
  assumes "anpNetAccept K l ch m0 (st, n) = Some (Inr r, (st', n'))" "accept_stage_ok st"
  shows "accept_outcome (the (accept_rank (st_state st))) r st'"
proof -
  have rank: "accept_rank (st_state st) \<noteq> None" using assms(2) by (simp add: accept_stage_ok_def)
  show ?thesis
  proof (cases "st_state st")
  case ncclIbCommStateStart
  then have "accept_start K l ch m0 (st, n) = Some (Inr r, (st', n'))" using assms(1) by (simp add: anpNetAccept_def nbind_def nget_def)
  from accept_outcome_mono [OF accept_start_stage [OF this], of 0] show ?thesis using ncclIbCommStateStart by simp
qed (use assms rank in \<open>auto simp: anpNetAccept_def nbind_def nget_def simp del: One_nat_def intro: accept_check_stage ib_recv_stage send_accept_stage recv_ready_stage\<close>)
qed

definition accept_succ :: "'w conn_env \<Rightarrow> ncclIbListenComm \<Rightarrow> int \<Rightarrow> ncclIbRecvComm ncclIbCommStage \<Rightarrow> ncclIbRecvComm comm_obj option \<Rightarrow> ncclIbRecvComm ncclIbCommStage \<Rightarrow> bool" where
  "accept_succ K l ch st r st' \<longleftrightarrow> (\<exists>m0 n n'. anpNetAccept K l ch m0 (st, n) = Some (Inr r, (st', n')))"

interpretation acc: resumable zero_stage "accept_succ K l ch" accept_stage_ok "\<lambda>st. accept_rank (st_state st)" "\<lambda>ob st. st = zero_stage"
    for K l ch
proof unfold_locales
  show "accept_stage_ok zero_stage" by (simp add: accept_stage_ok_def zero_stage_def)
qed (auto simp: accept_succ_def accept_outcome_def dest!: accept_call_stage, auto simp: accept_stage_ok_def)


subsection \<open>Concrete connections\<close>

text \<open>Sockets that are always ready and transfer everything at once; the messages received are given.\<close>

definition demo_conn :: "ncclIbConnectionMetadata \<Rightarrow> nat conn_env" where
  "demo_conn rem = \<lparr>k_v = demo_setup (\<lambda>w. False), k_cfg = demo_scfg, k_malloc = (\<lambda>w. ((ncclSuccess, 0x10000), w)),
     k_cuda_calloc = (\<lambda>w. ((ncclSuccess, 0x20000), w)), k_sock_init = (\<lambda>a w. ((ncclSuccess, 5), w)), k_sock_listen = (\<lambda>k w. ((ncclSuccess, ()), w)),
     k_sock_addr = (\<lambda>k w. ((ncclSuccess, 9), w)), k_sock_connect = (\<lambda>k w. ((ncclSuccess, ()), w)), k_sock_accept = (\<lambda>k l w. ((ncclSuccess, ()), w)),
     k_sock_ready = (\<lambda>k w. ((ncclSuccess, True), w)), k_send_meta = (\<lambda>k m off w. ((ncclSuccess, sizeof_meta), w)),
     k_recv_meta = (\<lambda>k m off w. ((ncclSuccess, rem, sizeof_meta), w)), k_send_ready = (\<lambda>k r off w. ((ncclSuccess, sizeof_int), w)),
     k_recv_ready = (\<lambda>k r off w. ((ncclSuccess, True, sizeof_int), w)), k_magic = 1, k_off_fifo = 0x100, k_off_elems = 0x200, k_off_remSizes = 0x300,
     k_off_sizes = 0x400, k_off_flush = 0x500, k_gid = gid_env_sample\<lparr>ge_IbGidIndex := 0\<rparr>, k_deviceName = (\<lambda>c. ''rdma0''), k_IbGdrFlushDisable = 0,
     k_IbGdrFlushGpuMemNoRelaxedOrdering = 1, k_IbUseInline = 0, k_DmaBufEnable = 0\<rparr>"

definition demo_rem :: ncclIbConnectionMetadata where
  "demo_rem = zero_meta\<lparr>cm_ndevs := 2, cm_devs := replicate 2 (zero_info\<lparr>link_layer := 2\<rparr>)\<rparr>"




end
