(* ===== verification/Completion.thy ===== *)
theory Completion
  imports Receive
begin

text \<open>
  Completion of requests: \<open>anpNetTest\<close>.  The loop reads and writes two parts of the communicator the request belongs
  to: its requests and, for a receive communicator, the sizes its requests point to.  They are the pair
  \<open>(rs, sz)\<close>; on a send communicator \<open>sz\<close> is empty, so that following \<open>recv.sizes\<close> there is undefined.

  The loop ends when the request has no events left, when a poll fails or a completion is bad, or when no device had
  a completion.  It is a \<open>partial_function\<close>: a run that does not end has the value \<open>None\<close>, like a run that
  is undefined, and the theorems show that the value is \<open>Some\<close>.
\<close>

subsection \<open>One completion\<close>

definition ANP_CQ_POLL_MAX_EVENT :: nat where "ANP_CQ_POLL_MAX_EVENT = 16"

type_synonym test_state = "ncclIbRequest list \<times> int list list"

definition wc_target :: "ibv_wc \<Rightarrow> nat" where
  "wc_target wc = unat (wc_wr_id wc AND 0xff)"

text \<open>The requests of a send completion are the bytes of its identifier, \<open>nreqs\<close> of them.\<close>

fun complete_sends :: "xcfg \<Rightarrow> nat \<Rightarrow> u64 \<Rightarrow> nat \<Rightarrow> nat \<Rightarrow> ncclIbRequest list \<Rightarrow> 'w xw \<Rightarrow> (ncclResult \<times> ncclIbRequest list \<times> 'w xw) option" where
  "complete_sends C i wid j 0 rs x = Some (ncclSuccess, rs, x)"
| "complete_sends C i wid j (Suc n) rs x = (if 8 \<le> j then None else do {
     let k = unat (drop_bit (8 * j) wid AND 0xff);
     r \<leftarrow> arr_get rs k;
     e \<leftarrow> arr_get (events r) i;
     if e \<le> 0 then Some (ncclInternalError, rs, x)
     else complete_sends C i wid (Suc j) n (rs[k := r\<lparr>events := (events r)[i := e - 1]\<rparr>])
            (count C (\<lambda>d. d\<lparr>num_send_completion_ok := num_send_completion_ok d + 1\<rparr>) x) })"

text \<open>\<open>req->recv.sizes[0] = wc->imm_data\<close>, with the conversion from \<open>uint32_t\<close> to \<open>int\<close>.\<close>

definition put_imm :: "ncclIbRequest \<Rightarrow> u32 \<Rightarrow> int list list \<Rightarrow> int list list option" where
  "put_imm r imm sz = (case rq_part r of
     RecvPart slot \<Rightarrow> do { row \<leftarrow> arr_get sz slot; row \<leftarrow> arr_set row 0 (sint imm); Some (sz[slot := row]) }
   | _ \<Rightarrow> None)"

definition handle_wc :: "xcfg \<Rightarrow> 'w data_verbs \<Rightarrow> nat \<Rightarrow> ibv_wc \<Rightarrow> test_state \<Rightarrow> 'w xw \<Rightarrow> (ncclResult \<times> test_state \<times> 'w xw) option" where
  "handle_wc C V i wc st x = (case st of (rs, sz) \<Rightarrow>
     if \<not> wc_success wc then Some (ncclRemoteError, (rs, sz), x)
     else do {
       req \<leftarrow> arr_get rs (wc_target wc);
       let rcvd = T_update_wqe_rcvd (wc_qp_num wc) (wc_wr_id wc) (v_time_ns V (xw_w x));
       if rq_type req = REQ_SEND then do {
         (res, rs, x) \<leftarrow> complete_sends C i (wc_wr_id wc) 0 (nat (nreqs req)) rs
            (tele C [rcvd] (count C (\<lambda>d. d\<lparr>num_send_completion := num_send_completion d + 1\<rparr>) x));
         Some (res, (rs, sz), x) }
       else
         let x = count C (\<lambda>d. d\<lparr>num_recv_completion := num_recv_completion d + 1\<rparr>) (tele C [rcvd] x);
             imm = (wc_opcode wc = IBV_WC_RECV_RDMA_WITH_IMM)
         in if imm \<and> rq_type req \<noteq> REQ_RECV then Some (ncclInternalError, (rs, sz), x)
            else do {
              sz \<leftarrow> (if imm \<and> nreqs req = 1 then put_imm req (wc_imm_data wc) sz else Some sz);
              e \<leftarrow> arr_get (events req) i;
              Some (ncclSuccess, (rs[wc_target wc := req\<lparr>events := (events req)[i := e - 1]\<rparr>], sz),
                    count C (\<lambda>d. d\<lparr>num_recv_completion_ok := num_recv_completion_ok d + 1\<rparr>) x) } })"

fun handle_wcs :: "xcfg \<Rightarrow> 'w data_verbs \<Rightarrow> nat \<Rightarrow> ibv_wc list \<Rightarrow> test_state \<Rightarrow> 'w xw \<Rightarrow> (ncclResult \<times> test_state \<times> 'w xw) option" where
  "handle_wcs C V i [] st x = Some (ncclSuccess, st, x)"
| "handle_wcs C V i (wc # wcs) st x = do {
     (res, st, x) \<leftarrow> handle_wc C V i wc st x;
     if res \<noteq> ncclSuccess then Some (res, st, x) else handle_wcs C V i wcs st x }"

subsection \<open>One round over the devices\<close>

definition poll_dev :: "xcfg \<Rightarrow> 'w data_verbs \<Rightarrow> ncclIbNetCommDevBase list \<Rightarrow> nat \<Rightarrow> nat \<Rightarrow> test_state \<Rightarrow> 'w xw \<Rightarrow>
    (ncclResult \<times> nat \<times> test_state \<times> 'w xw) option" where
  "poll_dev C V bases q i st x = do {
     r \<leftarrow> arr_get (fst st) q;
     e \<leftarrow> arr_get (events r) i;
     if e = 0 then Some (ncclSuccess, 0, st, x)
     else do {
       b \<leftarrow> arr_get (devBases r) i;
       d \<leftarrow> b;
       base \<leftarrow> arr_get bases d;
       case v_poll_cq V (cq base) ANP_CQ_POLL_MAX_EVENT (xw_w x) of ((res, wcs), w) \<Rightarrow>
       let x = x\<lparr>xw_w := w\<rparr> in
       if res \<noteq> ncclSuccess then Some (res, 0, st, x)
       else do {
         (res, st, x) \<leftarrow> handle_wcs C V i wcs st (tele C [T_update_cq_poll] x);
         Some (res, length wcs, st, x) } } }"

fun poll_devs :: "xcfg \<Rightarrow> 'w data_verbs \<Rightarrow> ncclIbNetCommDevBase list \<Rightarrow> nat \<Rightarrow> nat \<Rightarrow> nat \<Rightarrow> nat \<Rightarrow> test_state \<Rightarrow> 'w xw \<Rightarrow>
    (ncclResult \<times> nat \<times> test_state \<times> 'w xw) option" where
  "poll_devs C V bases q i 0 tot st x = Some (ncclSuccess, tot, st, x)"
| "poll_devs C V bases q i (Suc n) tot st x = do {
     (res, k, st, x) \<leftarrow> poll_dev C V bases q i st x;
     if res \<noteq> ncclSuccess then Some (res, tot, st, x) else poll_devs C V bases q (Suc i) n (tot + k) st x }"

subsection \<open>The loop\<close>

text \<open>The sizes handed to the caller, when it asked for them.\<close>

definition test_sizes :: "bool \<Rightarrow> ncclIbRequest \<Rightarrow> int list list \<Rightarrow> int list option" where
  "test_sizes want r sz =
     (if \<not> want then Some []
      else case rq_type r of
        REQ_RECV \<Rightarrow> (case rq_part r of
            RecvPart slot \<Rightarrow> do { row \<leftarrow> arr_get sz slot; if nat (nreqs r) \<le> length row then Some (take (nat (nreqs r)) row) else None }
          | _ \<Rightarrow> None)
      | REQ_SEND \<Rightarrow> map_option (\<lambda>s. [snd_size s]) (get_send_part r)
      | _ \<Rightarrow> Some [])"

partial_function (option) test_loop :: "xcfg \<Rightarrow> 'w data_verbs \<Rightarrow> bool \<Rightarrow> ncclIbNetCommDevBase list \<Rightarrow> nat \<Rightarrow> test_state \<Rightarrow> 'w xw \<Rightarrow>
    (ncclResult \<times> bool \<times> int list \<times> test_state \<times> 'w xw) option" where
  [code]: "test_loop C V want bases q st x = do {
     r \<leftarrow> arr_get (fst st) q;
     e0 \<leftarrow> arr_get (events r) 0;
     e1 \<leftarrow> arr_get (events r) 1;
     if e0 = 0 \<and> e1 = 0 then do {
       out \<leftarrow> test_sizes want r (snd st);
       Some (ncclSuccess, True, out, ((fst st)[q := r\<lparr>rq_type := REQ_UNUSED\<rparr>], snd st), x) }
     else do {
       (res, tot, st, x) \<leftarrow> poll_devs C V bases q 0 NCCL_IB_MAX_DEVS_PER_NIC 0 st x;
       if res \<noteq> ncclSuccess then Some (res, False, [], st, x)
       else if tot = 0 then Some (ncclSuccess, False, [], st, x)
       else test_loop C V want bases q st x } }"

text \<open>
  A request handle belongs to a communicator of one of the two kinds.  The result carries \<open>*done\<close> and the sizes written.
\<close>

datatype net_comm = SendComm ncclIbSendComm | RecvComm ncclIbRecvComm

fun net_state :: "net_comm \<Rightarrow> test_state" where
  "net_state (SendComm c) = (reqs c, [])"
| "net_state (RecvComm c) = (reqs c, sizesFifo c)"

fun net_bases :: "net_comm \<Rightarrow> ncclIbNetCommDevBase list" where
  "net_bases (SendComm c) = devBase c"
| "net_bases (RecvComm c) = devBase c"

fun set_net_state :: "test_state \<Rightarrow> net_comm \<Rightarrow> net_comm" where
  "set_net_state st (SendComm c) = SendComm (c\<lparr>reqs := fst st\<rparr>)"
| "set_net_state st (RecvComm c) = RecvComm (c\<lparr>reqs := fst st, sizesFifo := snd st\<rparr>)"

definition anpNetTest :: "xcfg \<Rightarrow> 'w data_verbs \<Rightarrow> bool \<Rightarrow> nat \<Rightarrow> net_comm \<Rightarrow> 'w xw \<Rightarrow>
    (ncclResult \<times> bool \<times> int list \<times> net_comm \<times> 'w xw) option" where
  "anpNetTest C V want q comm x = do {
     (res, dn, out, st, x) \<leftarrow> test_loop C V want (net_bases comm) q (net_state comm) x;
     Some (res, dn, out, set_net_state st comm, x) }"

subsection \<open>Completion queues\<close>

text \<open>
  What the loop relies on: a poll takes the oldest completions of the queue it names, at most as many as it asks for, and
  leaves the other queues alone.  \<open>Q w c\<close> is the content of queue \<open>c\<close> in the world \<open>w\<close>.
\<close>

definition cq_law :: "'w data_verbs \<Rightarrow> ('w \<Rightarrow> cq_ptr \<Rightarrow> ibv_wc list) \<Rightarrow> bool" where
  "cq_law V Q \<longleftrightarrow> (\<forall>c n w. \<exists>w'. v_poll_cq V c n w = ((ncclSuccess, take n (Q w c)), w') \<and> Q w' = (Q w)(c := drop n (Q w c)))"

text \<open>The completions of request \<open>j\<close> among \<open>wcs\<close>, and the requests after the completions \<open>L i\<close> of each device \<open>i\<close>.\<close>

definition hits :: "nat \<Rightarrow> ibv_wc list \<Rightarrow> int" where
  "hits j wcs = int (length (filter (\<lambda>wc. wc_target wc = j) wcs))"

definition after :: "ncclIbRequest list \<Rightarrow> (nat \<Rightarrow> ibv_wc list) \<Rightarrow> ncclIbRequest list" where
  "after rs L = map (\<lambda>j. (rs ! j)\<lparr>events := map (\<lambda>i. events (rs ! j) ! i - hits j (L i)) [0..<2]\<rparr>) [0..<length rs]"

text \<open>A request whose parts the loop may follow.\<close>

definition part_ok :: "int list list \<Rightarrow> ncclIbRequest \<Rightarrow> bool" where
  "part_ok sz r \<longleftrightarrow> req_ok r \<and> (case rq_type r of
     REQ_RECV \<Rightarrow> (case rq_part r of RecvPart slot \<Rightarrow> slot < length sz \<and> 0 \<le> nreqs r \<and> nat (nreqs r) \<le> length (sz ! slot) | _ \<Rightarrow> False)
   | REQ_SEND \<Rightarrow> nreqs r = 1 \<and> (case rq_part r of SendPart s \<Rightarrow> True | _ \<Rightarrow> False)
   | _ \<Rightarrow> True)"

lemma part_ok_iff:
  "part_ok sz r \<longleftrightarrow> req_ok r \<and>
     (rq_type r = REQ_RECV \<longrightarrow> (\<exists>slot. rq_part r = RecvPart slot \<and> slot < length sz \<and> 0 \<le> nreqs r \<and> nat (nreqs r) \<le> length (sz ! slot))) \<and>
     (rq_type r = REQ_SEND \<longrightarrow> nreqs r = 1 \<and> (\<exists>s. rq_part r = SendPart s))"
  by (auto simp: part_ok_def split: req_type.splits req_union.splits)

text \<open>A successful completion of a request, with an immediate only for a receive.\<close>

definition wc_ok :: "ncclIbRequest list \<Rightarrow> ibv_wc \<Rightarrow> bool" where
  "wc_ok rs wc \<longleftrightarrow> wc_success wc \<and> wc_target wc < length rs \<and>
     (wc_opcode wc = IBV_WC_RECV_RDMA_WITH_IMM \<longrightarrow> rq_type (rs ! wc_target wc) = REQ_RECV)"

text \<open>The completion writes the sizes slot \<open>s\<close>.\<close>

definition writes :: "ncclIbRequest list \<Rightarrow> nat \<Rightarrow> ibv_wc \<Rightarrow> bool" where
  "writes rs s wc \<longleftrightarrow> wc_opcode wc = IBV_WC_RECV_RDMA_WITH_IMM \<and> nreqs (rs ! wc_target wc) = 1 \<and> rq_part (rs ! wc_target wc) = RecvPart s"

text \<open>The sizes after the completions \<open>W\<close>: a slot no completion wrote is as before, one that all wrote with \<open>v\<close> holds \<open>v\<close>.\<close>

definition sizes_after :: "ncclIbRequest list \<Rightarrow> int list list \<Rightarrow> ibv_wc set \<Rightarrow> int list list \<Rightarrow> bool" where
  "sizes_after rs sz W sz' \<longleftrightarrow> map length sz' = map length sz \<and>
     (\<forall>s. (\<forall>wc\<in>W. \<not> writes rs s wc) \<longrightarrow> sz' ! s = sz ! s) \<and>
     (\<forall>s v. (\<exists>wc\<in>W. writes rs s wc) \<and> (\<forall>wc\<in>W. writes rs s wc \<longrightarrow> sint (wc_imm_data wc) = v) \<longrightarrow> sz' ! s ! 0 = v)"

text \<open>The completions \<open>F i\<close> that device \<open>i\<close> will deliver are all expected.\<close>

definition expected :: "ncclIbRequest list \<Rightarrow> (nat \<Rightarrow> ibv_wc list) \<Rightarrow> bool" where
  "expected rs F \<longleftrightarrow> (\<forall>i<2. (\<forall>wc\<in>set (F i). wc_ok rs wc) \<and> (\<forall>j<length rs. hits j (F i) \<le> events (rs ! j) ! i))"

lemma hits_simps [simp]: "hits j [] = 0" "hits j (wc # wcs) = (if wc_target wc = j then 1 else 0) + hits j wcs" "hits j (as @ bs) = hits j as + hits j bs"
  by (simp_all add: hits_def)

lemma hits_nonneg [simp]: "0 \<le> hits j wcs"
  by (simp add: hits_def)

lemma length_after [simp]: "length (after rs L) = length rs"
  by (simp add: after_def)

lemma after_nth: "j < length rs \<Longrightarrow> after rs L ! j = (rs ! j)\<lparr>events := [events (rs ! j) ! 0 - hits j (L 0), events (rs ! j) ! 1 - hits j (L 1)]\<rparr>"
  by (simp add: after_def numeral_2_eq_2)

lemma after_events: "j < length rs \<Longrightarrow> i < 2 \<Longrightarrow> events (after rs L ! j) ! i = events (rs ! j) ! i - hits j (L i)"
  by (auto simp: after_nth less_2_cases_iff)

lemma after_none: "list_all (\<lambda>r. length (events r) = 2) rs \<Longrightarrow> after rs (\<lambda>i. []) = rs"
proof (rule nth_equalityI)
  fix j assume l: "list_all (\<lambda>r. length (events r) = 2) rs" and "j < length (after rs (\<lambda>i. []))"
  then have j: "j < length rs" by simp
  then obtain a b where "events (rs ! j) = [a, b]" using l by (auto simp: list_all_length numeral_2_eq_2 length_Suc_conv)
  then show "after rs (\<lambda>i. []) ! j = rs ! j" using j by (simp add: after_nth)
qed simp

lemma after_step:
  assumes "wc_target wc < length rs" "i < 2"
  shows "(after rs L)[wc_target wc := (after rs L ! wc_target wc)\<lparr>events := (events (after rs L ! wc_target wc))[i := events (after rs L ! wc_target wc) ! i - 1]\<rparr>]
    = after rs (L(i := L i @ [wc]))"
proof (rule nth_equalityI)
  fix j assume "j < length ((after rs L)[wc_target wc := (after rs L ! wc_target wc)\<lparr>events := (events (after rs L ! wc_target wc))[i := events (after rs L ! wc_target wc) ! i - 1]\<rparr>])"
  then have j: "j < length rs" by simp
  show "(after rs L)[wc_target wc := (after rs L ! wc_target wc)\<lparr>events := (events (after rs L ! wc_target wc))[i := events (after rs L ! wc_target wc) ! i - 1]\<rparr>] ! j
      = after rs (L(i := L i @ [wc])) ! j"
    using assms j by (cases "j = wc_target wc") (auto simp: after_nth less_2_cases_iff)
qed simp

lemma sizes_after_none: "sizes_after rs sz {} sz"
  by (simp add: sizes_after_def)

lemma sizes_after_trans:
  assumes "sizes_after rs sz A sz1" "sizes_after rs sz1 B sz2"
  shows "sizes_after rs sz (A \<union> B) sz2"
proof -
  have "sz2 ! s ! 0 = v" if "\<exists>wc\<in>A \<union> B. writes rs s wc" "\<forall>wc\<in>A \<union> B. writes rs s wc \<longrightarrow> sint (wc_imm_data wc) = v" for s v
  proof (cases "\<exists>wc\<in>B. writes rs s wc")
    case True
    then show ?thesis using that(2) assms(2) unfolding sizes_after_def by blast
  next
    case False
    then have "sz2 ! s = sz1 ! s" "\<exists>wc\<in>A. writes rs s wc" using that(1) assms(2) unfolding sizes_after_def by blast+
    then show ?thesis using that(2) assms(1) unfolding sizes_after_def by fastforce
  qed
  moreover have "map length sz2 = map length sz" using assms by (simp add: sizes_after_def)
  moreover have "sz2 ! s = sz ! s" if "\<forall>wc\<in>A \<union> B. \<not> writes rs s wc" for s
    using that assms unfolding sizes_after_def by auto
  ultimately show ?thesis unfolding sizes_after_def by blast
qed

lemma sizes_after_lengths: "sizes_after rs sz A sz' \<Longrightarrow> length sz' = length sz \<and> (\<forall>s<length sz. length (sz' ! s) = length (sz ! s))"
  unfolding sizes_after_def by (metis length_map nth_map)

lemma part_ok_sizes: "part_ok sz r \<Longrightarrow> sizes_after rs sz A sz' \<Longrightarrow> part_ok sz' r"
  using sizes_after_lengths [of rs sz A sz'] by (auto simp: part_ok_iff)

subsection \<open>The effect of a completion\<close>

lemma xw_w_count [simp]: "xw_w (count C f x) = xw_w x" "xw_w (tele C ts x) = xw_w x"
  by (simp_all add: count_def tele_def)

lemma put_imm_ok:
  assumes "part_ok sz r" "rq_type r = REQ_RECV" "nreqs r = 1" "r = rs ! wc_target wc" "wc_opcode wc = IBV_WC_RECV_RDMA_WITH_IMM"
  shows "\<exists>sz'. put_imm r (wc_imm_data wc) sz = Some sz' \<and> sizes_after rs sz {wc} sz'"
proof -
  obtain slot where slot: "rq_part r = RecvPart slot" "slot < length sz" "Suc 0 \<le> length (sz ! slot)"
    using assms(1-3) by (auto simp: part_ok_iff)
  then have l: "0 < length (sz ! slot)" by linarith
  let ?sz = "sz[slot := (sz ! slot)[0 := sint (wc_imm_data wc)]]"
  have "put_imm r (wc_imm_data wc) sz = Some ?sz" using slot l by (simp add: put_imm_def ub_simps)
  moreover have "map length ?sz = map length sz" by (simp add: map_update list_update_same_conv slot(2) nth_map)
  moreover have w: "writes rs s wc \<longleftrightarrow> s = slot" for s using assms(3-5) slot(1) by (auto simp: writes_def)
  moreover have "?sz ! s = sz ! s" if "s \<noteq> slot" for s using that by simp
  moreover have "?sz ! slot ! 0 = sint (wc_imm_data wc)" using slot(2) l by simp
  ultimately show ?thesis unfolding sizes_after_def by auto
qed

lemma complete_one_send:
  assumes "wc_target wc < length rs" "i < 2" "0 < events (rs ! wc_target wc) ! i - hits (wc_target wc) (L i)"
  shows "\<exists>x'. complete_sends C i (wc_wr_id wc) 0 1 (after rs L) x = Some (ncclSuccess, after rs (L(i := L i @ [wc])), x') \<and> xw_w x' = xw_w x"
proof -
  have t: "unat (drop_bit (8 * 0) (wc_wr_id wc) AND 0xff) = wc_target wc" by (simp add: wc_target_def)
  have l: "length (events (after rs L ! wc_target wc)) = 2" using assms(1) by (simp add: after_nth)
  have e: "\<not> events (after rs L ! wc_target wc) ! i \<le> 0" using assms by (simp add: after_events)
  show ?thesis unfolding One_nat_def complete_sends.simps t Let_def
    using assms(1,2) l e after_step [OF assms(1,2), of L] by (simp add: ub_simps)
qed

lemma handle_wc_ok:
  assumes wc: "wc_ok rs wc" and p: "part_ok sz (rs ! wc_target wc)" and i: "i < 2"
    and e: "0 < events (rs ! wc_target wc) ! i - hits (wc_target wc) (L i)"
  shows "\<exists>sz' x'. handle_wc C V i wc (after rs L, sz) x = Some (ncclSuccess, (after rs (L(i := L i @ [wc])), sz'), x') \<and>
    xw_w x' = xw_w x \<and> sizes_after rs sz {wc} sz'"
proof -
  let ?r = "after rs L ! wc_target wc"
  have t: "wc_success wc" "wc_target wc < length rs" using wc by (simp_all add: wc_ok_def)
  have r: "rq_type ?r = rq_type (rs ! wc_target wc)" "nreqs ?r = nreqs (rs ! wc_target wc)" "rq_part ?r = rq_part (rs ! wc_target wc)" "length (events ?r) = 2"
    using t by (simp_all add: after_nth)
  show ?thesis
  proof (cases "rq_type (rs ! wc_target wc) = REQ_SEND")
    case True
    then have n: "nat (nreqs ?r) = 1" and nw: "\<not> writes rs s wc" for s using p wc r by (auto simp: part_ok_iff wc_ok_def writes_def)
    let ?x = "tele C [T_update_wqe_rcvd (wc_qp_num wc) (wc_wr_id wc) (v_time_ns V (xw_w x))] (count C (\<lambda>d. d\<lparr>num_send_completion := num_send_completion d + 1\<rparr>) x)"
    obtain x' where x': "complete_sends C i (wc_wr_id wc) 0 1 (after rs L) ?x = Some (ncclSuccess, after rs (L(i := L i @ [wc])), x')" "xw_w x' = xw_w ?x"
      using complete_one_send [where L = L, OF t(2) i e] by blast
    have "handle_wc C V i wc (after rs L, sz) x = Some (ncclSuccess, (after rs (L(i := L i @ [wc])), sz), x')"
      using True t r n x'(1) by (simp add: handle_wc_def ub_simps)
    then show ?thesis using x'(2) nw by (auto simp: sizes_after_def)
  next
    case False
    have imm: "wc_opcode wc = IBV_WC_RECV_RDMA_WITH_IMM \<Longrightarrow> rq_type (rs ! wc_target wc) = REQ_RECV" using wc by (simp add: wc_ok_def)
    define b where "b \<longleftrightarrow> wc_opcode wc = IBV_WC_RECV_RDMA_WITH_IMM \<and> nreqs ?r = 1"
    obtain sz' where sz': "(if b then put_imm ?r (wc_imm_data wc) sz else Some sz) = Some sz'" "sizes_after rs sz {wc} sz'"
    proof (cases b)
      case True
      then show thesis using that put_imm_ok [of sz "rs ! wc_target wc" rs wc] p imm r b_def by (auto simp: put_imm_def)
    next
      case False
      then have "\<not> writes rs s wc" for s using r b_def by (auto simp: writes_def)
      then show thesis using that False by (auto simp: sizes_after_def)
    qed
    have "\<exists>x'. handle_wc C V i wc (after rs L, sz) x = Some (ncclSuccess, (after rs (L(i := L i @ [wc])), sz'), x') \<and> xw_w x' = xw_w x"
    proof (cases b)
      case True
      then have "put_imm ?r (wc_imm_data wc) sz = Some sz'" "wc_opcode wc = IBV_WC_RECV_RDMA_WITH_IMM" "nreqs ?r = 1" using sz'(1) b_def by auto
      then show ?thesis using t r i imm after_step [OF t(2) i, of L] by (simp add: handle_wc_def ub_simps Let_def)
    next
      case nb: False
      then have "sz' = sz" "\<not> (wc_opcode wc = IBV_WC_RECV_RDMA_WITH_IMM \<and> nreqs (rs ! wc_target wc) = 1)" using sz'(1) b_def r by auto
      then show ?thesis using False t r i imm after_step [OF t(2) i, of L] by (auto simp: handle_wc_def ub_simps Let_def)
    qed
    then show ?thesis using sz'(2) by blast
  qed
qed

text \<open>A batch: the completions \<open>wcs\<close> stand behind \<open>L i\<close> among those device \<open>i\<close> delivers.\<close>

lemma handle_wcs_ok:
  assumes "expected rs F" "F i = L i @ wcs @ rest" "i < 2" "list_all (part_ok sz) rs"
  shows "\<exists>sz' x'. handle_wcs C V i wcs (after rs L, sz) x = Some (ncclSuccess, (after rs (L(i := L i @ wcs)), sz'), x') \<and>
    xw_w x' = xw_w x \<and> sizes_after rs sz (set wcs) sz'"
  using assms
proof (induction wcs arbitrary: L sz x)
  case Nil
  then show ?case using sizes_after_none by auto
next
  case (Cons wc wcs)
  have wc: "wc_ok rs wc" using Cons.prems(1-3) by (auto simp: expected_def)
  then have t: "wc_target wc < length rs" by (simp add: wc_ok_def)
  have h: "hits (wc_target wc) (F i) \<le> events (rs ! wc_target wc) ! i" using Cons.prems(1,3) t by (auto simp: expected_def)
  have p: "part_ok sz (rs ! wc_target wc)" using Cons.prems(4) t by (simp add: list_all_length)
  have "0 < events (rs ! wc_target wc) ! i - hits (wc_target wc) (L i)"
  proof -
    have "hits (wc_target wc) (F i) = hits (wc_target wc) (L i) + 1 + hits (wc_target wc) wcs + hits (wc_target wc) rest" using Cons.prems(2) by simp
    then show ?thesis using h hits_nonneg [of "wc_target wc" wcs] hits_nonneg [of "wc_target wc" rest] by linarith
  qed
  then obtain sz1 x1 where 1: "handle_wc C V i wc (after rs L, sz) x = Some (ncclSuccess, (after rs (L(i := L i @ [wc])), sz1), x1)"
      "xw_w x1 = xw_w x" "sizes_after rs sz {wc} sz1"
    using handle_wc_ok [where L = L, OF wc p Cons.prems(3)] by blast
  have upd: "(L(i := L i @ [wc]))(i := (L(i := L i @ [wc])) i @ wcs) = L(i := L i @ wc # wcs)" by simp
  have fi: "F i = (L(i := L i @ [wc])) i @ wcs @ rest" using Cons.prems(2) by simp
  have "list_all (part_ok sz1) rs" using Cons.prems(4) part_ok_sizes 1(3) by (auto simp: list_all_iff)
  then obtain sz2 x2 where 2: "handle_wcs C V i wcs (after rs (L(i := L i @ [wc])), sz1) x1 = Some (ncclSuccess, (after rs (L(i := L i @ wc # wcs)), sz2), x2)"
      "xw_w x2 = xw_w x1" "sizes_after rs sz1 (set wcs) sz2"
    using Cons.IH [where L = "L(i := L i @ [wc])" and sz = sz1 and x = x1, OF Cons.prems(1) fi Cons.prems(3)] unfolding upd by blast
  have "handle_wcs C V i (wc # wcs) (after rs L, sz) x = Some (ncclSuccess, (after rs (L(i := L i @ wc # wcs)), sz2), x2)"
    using 1(1) 2(1) by (simp del: fun_upd_apply)
  then show ?case using 1(2) 2(2) sizes_after_trans [OF 1(3) 2(3)]
    by (intro exI [of _ sz2] exI [of _ x2] conjI) (simp_all del: fun_upd_apply)
qed

subsection \<open>The effect of a round and of the loop\<close>

text \<open>
  How far a test has come: \<open>L i\<close> of the completions \<open>F i\<close> of device \<open>i\<close> have been handled, the rest is still queued.
\<close>

definition progress :: "('w \<Rightarrow> cq_ptr \<Rightarrow> ibv_wc list) \<Rightarrow> ncclIbNetCommDevBase list \<Rightarrow> ncclIbRequest list \<Rightarrow> int list list \<Rightarrow> (nat \<Rightarrow> ibv_wc list) \<Rightarrow>
    (nat \<Rightarrow> ibv_wc list) \<Rightarrow> int list list \<Rightarrow> 'w \<Rightarrow> bool" where
  "progress Q bases rs sz0 F L sz w \<longleftrightarrow> (\<forall>i<2. F i = L i @ Q w (cq (bases ! i))) \<and> sizes_after rs sz0 (set (L 0) \<union> set (L 1)) sz"

text \<open>The setting of a test of request \<open>q\<close>.\<close>

definition test_ok :: "ncclIbNetCommDevBase list \<Rightarrow> ncclIbRequest list \<Rightarrow> int list list \<Rightarrow> (nat \<Rightarrow> ibv_wc list) \<Rightarrow> nat \<Rightarrow> bool" where
  "test_ok bases rs sz F q \<longleftrightarrow> length bases = 2 \<and> cq (bases ! 0) \<noteq> cq (bases ! 1) \<and> q < length rs \<and> list_all (part_ok sz) rs \<and> expected rs F"

lemma test_ok_events:
  assumes "test_ok bases rs sz0 F q" "progress Q bases rs sz0 F L sz w" "i < 2"
  shows "hits q (L i) \<le> hits q (F i) \<and> hits q (F i) \<le> events (rs ! q) ! i"
  using assms by (auto simp: test_ok_def progress_def expected_def)

lemma progress_extend:
  assumes "test_ok bases rs sz0 F q" "progress Q bases rs sz0 F L sz w" "i < 2" "Q w (cq (bases ! i)) = wcs @ Q w' (cq (bases ! i))"
    and "\<And>c. c \<noteq> cq (bases ! i) \<Longrightarrow> Q w' c = Q w c" "sizes_after rs sz (set wcs) sz'"
  shows "progress Q bases rs sz0 F (L(i := L i @ wcs)) sz' w'"
proof -
  have "F k = (L(i := L i @ wcs)) k @ Q w' (cq (bases ! k))" if "k < 2" for k
  proof (cases "k = i")
    case True
    then show ?thesis using assms(2-4) by (simp add: progress_def)
  next
    case False
    then have "cq (bases ! k) \<noteq> cq (bases ! i)" using that assms(1,3) by (auto simp: test_ok_def less_2_cases_iff)
    then show ?thesis using False that assms(2,5) by (simp add: progress_def)
  qed
  moreover have "sizes_after rs sz0 (set ((L(i := L i @ wcs)) 0) \<union> set ((L(i := L i @ wcs)) 1)) sz'"
  proof -
    have "set ((L(i := L i @ wcs)) 0) \<union> set ((L(i := L i @ wcs)) 1) = (set (L 0) \<union> set (L 1)) \<union> set wcs"
      using assms(3) by (auto simp: less_2_cases_iff)
    then show ?thesis using sizes_after_trans [OF _ assms(6), of sz0] assms(2) by (simp add: progress_def)
  qed
  ultimately show ?thesis by (simp add: progress_def)
qed

lemma poll_dev_ok:
  assumes law: "cq_law V Q" and ok: "test_ok bases rs sz0 F q" and pr: "progress Q bases rs sz0 F L sz (xw_w x)" and i: "i < 2"
  shows "\<exists>wcs sz' x'. poll_dev C V bases q i (after rs L, sz) x = Some (ncclSuccess, length wcs, (after rs (L(i := L i @ wcs)), sz'), x') \<and>
    progress Q bases rs sz0 F (L(i := L i @ wcs)) sz' (xw_w x') \<and> (wcs = [] \<longrightarrow> hits q (L i) = events (rs ! q) ! i \<or> L i = F i)"
proof -
  have q: "q < length rs" "length bases = 2" using ok by (simp_all add: test_ok_def)
  have p: "part_ok sz0 (rs ! q)" using ok q by (simp add: test_ok_def list_all_length)
  have e: "events (after rs L ! q) ! i = events (rs ! q) ! i - hits q (L i)" using q i by (simp add: after_events)
  have d: "length (events (after rs L ! q)) = 2" "devBases (after rs L ! q) = devBases (rs ! q)" using q by (simp_all add: after_nth)
  show ?thesis
  proof (cases "events (rs ! q) ! i = hits q (L i)")
    case True
    then show ?thesis using q e d i pr by (intro exI [of _ Nil] exI [of _ sz] exI [of _ x]) (simp add: poll_dev_def ub_simps)
  next
    case False
    let ?c = "cq (bases ! i)"
    have "events (rs ! q) ! i \<noteq> 0" using False test_ok_events [OF ok pr i] hits_nonneg [of q "L i"] by linarith
    then have b: "length (devBases (rs ! q)) = 2" "devBases (rs ! q) ! i = Some i" using p i by (simp_all add: part_ok_iff req_ok_def)
    obtain w where w: "v_poll_cq V ?c ANP_CQ_POLL_MAX_EVENT (xw_w x) = ((ncclSuccess, take ANP_CQ_POLL_MAX_EVENT (Q (xw_w x) ?c)), w)"
        "Q w = (Q (xw_w x))(?c := drop ANP_CQ_POLL_MAX_EVENT (Q (xw_w x) ?c))"
      using law unfolding cq_law_def by blast
    define wcs where "wcs = take ANP_CQ_POLL_MAX_EVENT (Q (xw_w x) ?c)"
    have F: "F i = L i @ wcs @ Q w ?c" using pr i w(2) by (simp add: progress_def wcs_def)
    have po: "list_all (part_ok sz) rs" using ok pr part_ok_sizes by (fastforce simp: test_ok_def progress_def list_all_iff)
    let ?x = "tele C [T_update_cq_poll] (x\<lparr>xw_w := w\<rparr>)"
    obtain sz' x' where h: "handle_wcs C V i wcs (after rs L, sz) ?x = Some (ncclSuccess, (after rs (L(i := L i @ wcs)), sz'), x')"
        "xw_w x' = xw_w ?x" "sizes_after rs sz (set wcs) sz'"
      using handle_wcs_ok [where L = L and F = F and i = i and C = C and V = V and x = ?x, OF _ F i po] ok unfolding test_ok_def by blast
    have "poll_dev C V bases q i (after rs L, sz) x = Some (ncclSuccess, length wcs, (after rs (L(i := L i @ wcs)), sz'), x')"
      using q e d i b False w(1) h(1) by (simp add: poll_dev_def ub_simps wcs_def)
    moreover have "progress Q bases rs sz0 F (L(i := L i @ wcs)) sz' (xw_w x')"
      by (rule progress_extend [OF ok pr i _ _ h(3)]) (use w(2) h(2) in \<open>simp_all add: wcs_def\<close>)
    moreover have "L i = F i" if "wcs = []"
      using that pr i by (simp add: progress_def wcs_def ANP_CQ_POLL_MAX_EVENT_def)
    ultimately show ?thesis by blast
  qed
qed

lemma poll_devs_ok:
  assumes law: "cq_law V Q" and ok: "test_ok bases rs sz0 F q" and pr: "progress Q bases rs sz0 F L sz (xw_w x)"
  shows "\<exists>tot L' sz' x'. poll_devs C V bases q 0 NCCL_IB_MAX_DEVS_PER_NIC 0 (after rs L, sz) x = Some (ncclSuccess, tot, (after rs L', sz'), x') \<and>
    progress Q bases rs sz0 F L' sz' (xw_w x') \<and> length (L' 0) + length (L' 1) = length (L 0) + length (L 1) + tot \<and>
    (tot = 0 \<longrightarrow> L' = L \<and> (\<forall>i<2. hits q (L' i) = events (rs ! q) ! i \<or> L' i = F i))"
proof -
  obtain a sz1 x1 where 1: "poll_dev C V bases q 0 (after rs L, sz) x = Some (ncclSuccess, length a, (after rs (L(0 := L 0 @ a)), sz1), x1)"
      "progress Q bases rs sz0 F (L(0 := L 0 @ a)) sz1 (xw_w x1)" "a = [] \<longrightarrow> hits q (L 0) = events (rs ! q) ! 0 \<or> L 0 = F 0"
    using poll_dev_ok [OF law ok pr, of 0 C] by auto
  let ?L = "L(0 := L 0 @ a)"
  obtain b sz2 x2 where 2: "poll_dev C V bases q 1 (after rs ?L, sz1) x1 = Some (ncclSuccess, length b, (after rs (?L(1 := ?L 1 @ b)), sz2), x2)"
      "progress Q bases rs sz0 F (?L(1 := ?L 1 @ b)) sz2 (xw_w x2)" "b = [] \<longrightarrow> hits q (?L 1) = events (rs ! q) ! 1 \<or> ?L 1 = F 1"
    using poll_dev_ok [OF law ok 1(2), of 1 C] by auto
  have "poll_devs C V bases q 0 NCCL_IB_MAX_DEVS_PER_NIC 0 (after rs L, sz) x = Some (ncclSuccess, length a + length b, (after rs (?L(1 := ?L 1 @ b)), sz2), x2)"
    using 1(1) 2(1) by (simp add: NCCL_IB_MAX_DEVS_PER_NIC_def numeral_2_eq_2)
  moreover have "length ((?L(1 := ?L 1 @ b)) 0) + length ((?L(1 := ?L 1 @ b)) 1) = length (L 0) + length (L 1) + (length a + length b)" by simp
  moreover have "hits q ((?L(1 := ?L 1 @ b)) i) = events (rs ! q) ! i \<or> (?L(1 := ?L 1 @ b)) i = F i" if "length a + length b = 0" "i < 2" for i
    using that 1(3) 2(3) by (auto simp: less_2_cases_iff)
  moreover have "?L(1 := ?L 1 @ b) = L" if "length a + length b = 0" using that by auto
  ultimately show ?thesis using 2(2) by blast
qed

lemma test_sizes_events [simp]: "test_sizes want (r\<lparr>events := ev\<rparr>) sz = test_sizes want r sz"
proof -
  have "rq_type (r\<lparr>events := ev\<rparr>) = rq_type r" "nreqs (r\<lparr>events := ev\<rparr>) = nreqs r" "rq_part (r\<lparr>events := ev\<rparr>) = rq_part r" by simp_all
  then show ?thesis unfolding test_sizes_def get_send_part_def by metis
qed

lemma test_sizes_defined: "part_ok sz r \<Longrightarrow> \<exists>out. test_sizes want r sz = Some out"
  by (cases "rq_type r"; cases want) (auto simp: test_sizes_def part_ok_iff get_send_part_def ub_simps)

lemma test_loop_ok:
  assumes law: "cq_law V Q" and ok: "test_ok bases rs sz0 F q"
  shows "progress Q bases rs sz0 F L sz (xw_w x) \<Longrightarrow> \<exists>dn out L' sz' x'. test_loop C V want bases q (after rs L, sz) x =
      Some (ncclSuccess, dn, out, (if dn then (after rs L')[q := (after rs L' ! q)\<lparr>rq_type := REQ_UNUSED\<rparr>] else after rs L', sz'), x') \<and>
    progress Q bases rs sz0 F L' sz' (xw_w x') \<and> dn = (\<forall>i<2. hits q (L' i) = events (rs ! q) ! i) \<and>
    (\<forall>i<2. hits q (L' i) = events (rs ! q) ! i \<or> L' i = F i) \<and> (dn \<longrightarrow> test_sizes want (rs ! q) sz' = Some out)"
proof (induction "length (F 0) + length (F 1) - (length (L 0) + length (L 1))" arbitrary: L sz x rule: less_induct)
  case less
  note pr = less.prems
  have q: "q < length rs" using ok by (simp add: test_ok_def)
  have e: "events (after rs L ! q) = [events (rs ! q) ! 0 - hits q (L 0), events (rs ! q) ! 1 - hits q (L 1)]" using q by (simp add: after_nth)
  show ?case
  proof (cases "\<forall>i<2. hits q (L i) = events (rs ! q) ! i")
    case True
    have z: "events (rs ! q) ! 0 - hits q (L 0) = 0" "events (rs ! q) ! 1 - hits q (L 1) = 0" using True by simp_all
    have "part_ok sz (rs ! q)" using ok pr part_ok_sizes q by (fastforce simp: test_ok_def progress_def list_all_length)
    then obtain out where out: "test_sizes want (rs ! q) sz = Some out" using test_sizes_defined by blast
    have "test_sizes want (after rs L ! q) sz = Some out" using out q by (simp add: after_nth)
    then have "test_loop C V want bases q (after rs L, sz) x = Some (ncclSuccess, True, out, ((after rs L)[q := (after rs L ! q)\<lparr>rq_type := REQ_UNUSED\<rparr>], sz), x)"
      using q e z by (subst test_loop.simps) (simp add: ub_simps)
    then show ?thesis using True pr out by (intro exI [of _ True] exI [of _ out] exI [of _ L] exI [of _ sz] exI [of _ x]) simp
  next
    case False
    then have nz: "\<not> (events (rs ! q) ! 0 - hits q (L 0) = 0 \<and> events (rs ! q) ! 1 - hits q (L 1) = 0)" by (auto simp: less_2_cases_iff)
    obtain tot L1 sz1 x1 where 1: "poll_devs C V bases q 0 NCCL_IB_MAX_DEVS_PER_NIC 0 (after rs L, sz) x = Some (ncclSuccess, tot, (after rs L1, sz1), x1)"
        "progress Q bases rs sz0 F L1 sz1 (xw_w x1)" "length (L1 0) + length (L1 1) = length (L 0) + length (L 1) + tot"
        "tot = 0 \<longrightarrow> L1 = L \<and> (\<forall>i<2. hits q (L1 i) = events (rs ! q) ! i \<or> L1 i = F i)"
      using poll_devs_ok [OF law ok pr, of C] by blast
    have step: "test_loop C V want bases q (after rs L, sz) x =
        (if tot = 0 then Some (ncclSuccess, False, [], (after rs L1, sz1), x1) else test_loop C V want bases q (after rs L1, sz1) x1)"
      using q e nz 1(1) by (subst test_loop.simps) (auto simp: ub_simps)
    show ?thesis
    proof (cases "tot = 0")
      case True
      then have "\<not> (\<forall>i<2. hits q (L1 i) = events (rs ! q) ! i)" using False 1(4) by simp
      moreover have "\<forall>i<2. hits q (L1 i) = events (rs ! q) ! i \<or> L1 i = F i" using True 1(4) by blast
      ultimately show ?thesis using True step 1(1-3) by (intro exI [of _ False] exI [of _ "Nil :: int list"] exI [of _ L1] exI [of _ sz1] exI [of _ x1]) simp
    next
      case False
      have "length (L1 i) \<le> length (F i)" if "i < 2" for i using 1(2) that by (simp add: progress_def)
      from this [of 0] this [of 1] have "length (F 0) + length (F 1) - (length (L1 0) + length (L1 1)) < length (F 0) + length (F 1) - (length (L 0) + length (L 1))"
        using False 1(3) by simp
      from less.hyps [OF this 1(2)] show ?thesis using step False by simp
    qed
  qed
qed

subsection \<open>Properties of a test\<close>

text \<open>The completions queued for device \<open>i\<close> of a communicator.\<close>

definition queued :: "('w \<Rightarrow> cq_ptr \<Rightarrow> ibv_wc list) \<Rightarrow> net_comm \<Rightarrow> 'w \<Rightarrow> nat \<Rightarrow> ibv_wc list" where
  "queued Q comm w i = Q w (cq (net_bases comm ! i))"

text \<open>
  A communicator on which request \<open>q\<close> may be tested: its two completion queues are distinct, its requests are
  well formed, and every queued completion is a successful one that some request still expects.
\<close>

definition testable :: "('w \<Rightarrow> cq_ptr \<Rightarrow> ibv_wc list) \<Rightarrow> net_comm \<Rightarrow> 'w \<Rightarrow> nat \<Rightarrow> bool" where
  "testable Q comm w q \<longleftrightarrow> test_ok (net_bases comm) (fst (net_state comm)) (snd (net_state comm)) (queued Q comm w) q"

lemma test_runs:
  assumes law: "cq_law V Q" and ok: "testable Q comm (xw_w x) q"
  defines "rs \<equiv> fst (net_state comm)" and "F \<equiv> queued Q comm (xw_w x)"
  shows "\<exists>dn out L sz' x'. anpNetTest C V want q comm x =
      Some (ncclSuccess, dn, out, set_net_state (if dn then (after rs L)[q := (after rs L ! q)\<lparr>rq_type := REQ_UNUSED\<rparr>] else after rs L, sz') comm, x') \<and>
    progress Q (net_bases comm) rs (snd (net_state comm)) F L sz' (xw_w x') \<and> dn = (\<forall>i<2. hits q (F i) = events (rs ! q) ! i) \<and>
    (dn \<longrightarrow> test_sizes want (rs ! q) sz' = Some out \<and> (\<forall>i<2. hits q (L i) = hits q (F i)))"
proof -
  have ok': "test_ok (net_bases comm) rs (snd (net_state comm)) F q" using ok by (simp add: testable_def rs_def F_def)
  have "list_all (\<lambda>r. length (events r) = 2) rs" using ok' by (auto simp: test_ok_def list_all_iff part_ok_iff req_ok_def)
  then have st: "net_state comm = (after rs (\<lambda>i. []), snd (net_state comm))" using after_none by (simp add: rs_def)
  have "progress Q (net_bases comm) rs (snd (net_state comm)) F (\<lambda>i. []) (snd (net_state comm)) (xw_w x)"
    using sizes_after_none by (simp add: progress_def F_def queued_def)
  from test_loop_ok [OF law ok' this, of C want] obtain dn out L sz' x' where
    t: "test_loop C V want (net_bases comm) q (net_state comm) x =
        Some (ncclSuccess, dn, out, (if dn then (after rs L)[q := (after rs L ! q)\<lparr>rq_type := REQ_UNUSED\<rparr>] else after rs L, sz'), x')"
      "progress Q (net_bases comm) rs (snd (net_state comm)) F L sz' (xw_w x')" "dn = (\<forall>i<2. hits q (L i) = events (rs ! q) ! i)"
      "\<forall>i<2. hits q (L i) = events (rs ! q) ! i \<or> L i = F i" "dn \<longrightarrow> test_sizes want (rs ! q) sz' = Some out"
    unfolding st [symmetric] by (elim exE conjE) (rule that)
  have b: "hits q (L i) \<le> hits q (F i) \<and> hits q (F i) \<le> events (rs ! q) ! i" if "i < 2" for i using test_ok_events [OF ok' t(2) that] .
  then have c: "hits q (L i) = hits q (F i)" if "i < 2" dn for i using that t(3) by fastforce
  have "dn = (\<forall>i<2. hits q (F i) = events (rs ! q) ! i)" using b t(3,4) by (metis order_antisym)
  moreover have "anpNetTest C V want q comm x = Some (ncclSuccess, dn, out,
      set_net_state (if dn then (after rs L)[q := (after rs L ! q)\<lparr>rq_type := REQ_UNUSED\<rparr>] else after rs L, sz') comm, x')"
    using t(1) by (simp add: anpNetTest_def)
  ultimately show ?thesis using t(2,5) c by (intro exI [of _ dn] exI [of _ out] exI [of _ L] exI [of _ sz'] exI [of _ x']) simp
qed

lemma net_state_reqs [simp]: "fst (net_state (set_net_state st comm)) = fst st" "net_bases (set_net_state st comm) = net_bases comm"
  by (cases comm; simp)+

text \<open>A world of completion queues, and a receive communicator that waits for one completion on its request 0.\<close>

definition queue_verbs :: "(cq_ptr \<Rightarrow> ibv_wc list) data_verbs" where
  "queue_verbs = \<lparr>v_post_send = (\<lambda>p ch w. (ncclSuccess, w)), v_post_recv = (\<lambda>p i w. (ncclSuccess, w)),
     v_poll_cq = (\<lambda>c n w. ((ncclSuccess, take n (w c)), w(c := drop n (w c)))), v_time_ns = (\<lambda>w. 0)\<rparr>"

definition demo_wait :: ncclIbRecvComm where
  "demo_wait = demo_recv\<lparr>devBase := [demo_base 0, demo_base 1],
     reqs := (replicate 16 demo_req)[0 := demo_req\<lparr>rq_type := REQ_RECV, events := [1, 0], devBases := [Some 0, None], nreqs := 1, rq_part := RecvPart 3\<rparr>]\<rparr>"

definition demo_wc :: ibv_wc where
  "demo_wc = \<lparr>wc_success = True, wc_wr_id = 0, wc_opcode = IBV_WC_RECV_RDMA_WITH_IMM, wc_imm_data = 1000, wc_qp_num = 100\<rparr>"

definition demo_queue :: "ibv_wc \<Rightarrow> (cq_ptr \<Rightarrow> ibv_wc list) xw" where
  "demo_queue wc = \<lparr>xw_dbg = xw_dbg demo_xw, xw_tele = [], xw_w = (\<lambda>c. if c = 0 then [wc] else [])\<rparr>"

lemma queue_law: "cq_law queue_verbs (\<lambda>w. w)"
  by (simp add: cq_law_def queue_verbs_def)

lemma demo_testable: "testable (\<lambda>w. w) (RecvComm demo_wait) (xw_w (demo_queue demo_wc)) 0"
  by code_simp

text \<open>
  C5: A test of a request always returns and reports it done exactly when every completion the request waits for has
  arrived.  It takes some completions \<open>L i\<close> from the front of the queue of each device, lowers the expected events of
  every request by its completions among them, and frees the request when it is done.
\<close>

theorem test_done_iff_arrived:
  assumes "cq_law V Q" "testable Q comm (xw_w x) q"
  shows "\<exists>dn out comm' x' L. anpNetTest C V want q comm x = Some (ncclSuccess, dn, out, comm', x') \<and>
    (dn \<longleftrightarrow> (\<forall>i<2. hits q (queued Q comm (xw_w x) i) = events (fst (net_state comm) ! q) ! i)) \<and>
    (\<forall>i<2. queued Q comm (xw_w x) i = L i @ queued Q comm' (xw_w x') i) \<and>
    (let rs = after (fst (net_state comm)) L in
     fst (net_state comm') = (if dn then rs[q := (rs ! q)\<lparr>rq_type := REQ_UNUSED\<rparr>] else rs))"
proof -
  obtain dn out L sz' x' where t: "anpNetTest C V want q comm x = Some (ncclSuccess, dn, out, set_net_state (if dn then (after (fst (net_state comm)) L)[q := (after (fst (net_state comm)) L ! q)\<lparr>rq_type := REQ_UNUSED\<rparr>]
        else after (fst (net_state comm)) L, sz') comm, x')"
      "progress Q (net_bases comm) (fst (net_state comm)) (snd (net_state comm)) (queued Q comm (xw_w x)) L sz' (xw_w x')"
      "dn = (\<forall>i<2. hits q (queued Q comm (xw_w x) i) = events (fst (net_state comm) ! q) ! i)"
    using test_runs [OF assms, of C want] by blast
  show ?thesis by (rule exI [of _ dn], rule exI [of _ out], rule exI, rule exI [of _ x'], rule exI [of _ L], rule conjI, rule t(1))
      (use t(2,3) in \<open>simp add: Let_def queued_def progress_def\<close>)
qed

theorem test_done_iff_arrived_witness:
  "\<exists>out comm' x'. anpNetTest demo_cfg queue_verbs True 0 (RecvComm demo_wait) (demo_queue demo_wc) = Some (ncclSuccess, True, out, comm', x')"
proof -
  have "\<forall>i<2. hits 0 (queued (\<lambda>w. w) (RecvComm demo_wait) (xw_w (demo_queue demo_wc)) i) = events (fst (net_state (RecvComm demo_wait)) ! 0) ! i"
    by code_simp
  then show ?thesis using test_done_iff_arrived [OF queue_law demo_testable, of demo_cfg True] by (elim exE conjE) simp
qed

text \<open>
  C6: The size a receive reports is the size the sender sent.  The immediate of the work requests a sender prepares for a
  message of \<open>n\<close> bytes is what the completions carry; when the receive with slot \<open>s\<close> is complete, the test hands out \<open>n\<close>.
\<close>

theorem size_delivered:
  assumes "cq_law V Q" "testable Q (RecvComm comm) (xw_w x) q"
    and "prepare_wrs C' False adaptive n wid = (wr0, rest, nw)" "0 \<le> n" "n < 2 ^ 31"
    and "rq_type (reqs comm ! q) = REQ_RECV" "nreqs (reqs comm ! q) = 1" "rq_part (reqs comm ! q) = RecvPart s"
    and "\<forall>i<2. hits q (queued Q (RecvComm comm) (xw_w x) i) = events (reqs comm ! q) ! i"
    and "\<forall>i<2. \<forall>wc\<in>set (queued Q (RecvComm comm) (xw_w x) i). writes (reqs comm) s wc \<longrightarrow> wc_imm_data wc = imm_data (last (wr0 # rest))"
    and "i < 2" "wc \<in> set (queued Q (RecvComm comm) (xw_w x) i)" "wc_target wc = q" "wc_opcode wc = IBV_WC_RECV_RDMA_WITH_IMM"
  shows "\<exists>comm' x'. anpNetTest C V True q (RecvComm comm) x = Some (ncclSuccess, True, [n], comm', x')"
proof -
  let ?F = "queued Q (RecvComm comm) (xw_w x)"
  obtain dn out L sz' comm' x' where t: "anpNetTest C V True q (RecvComm comm) x = Some (ncclSuccess, dn, out, comm', x')"
      "progress Q (devBase comm) (reqs comm) (sizesFifo comm) ?F L sz' (xw_w x')"
      "dn = (\<forall>i<2. hits q (?F i) = events (reqs comm ! q) ! i)"
      "dn \<longrightarrow> test_sizes True (reqs comm ! q) sz' = Some out \<and> (\<forall>i<2. hits q (L i) = hits q (?F i))"
    using test_runs [OF assms(1,2), of C True] unfolding net_state.simps net_bases.simps fst_conv snd_conv
    by (elim exE conjE) (rule that)
  have imm: "sint (imm_data (last (wr0 # rest))) = n"
  proof -
    have "imm_data (last (wr0 # rest)) = word_of_int n" using assms(3) by (auto simp: prepare_wrs_def Let_def split: if_splits)
    moreover have "signed_take_bit 31 n = n" using assms(4,5) by (intro signed_take_bit_int_eq_self) auto
    ultimately show ?thesis by (simp add: signed_of_int)
  qed
  have dn: dn using t(3) assms(9) by simp
  then have full: "hits q (L i) = hits q (?F i)" using t(4) assms(11) by blast
  have Fi: "?F i = L i @ Q (xw_w x') (cq (devBase comm ! i))" using t(2) assms(11) by (simp add: progress_def)
  have "wc \<in> set (L i)"
  proof (rule ccontr)
    assume "wc \<notin> set (L i)"
    then have "wc \<in> set (Q (xw_w x') (cq (devBase comm ! i)))" using assms(12) Fi by simp
    then have "0 < hits q (Q (xw_w x') (cq (devBase comm ! i)))" using assms(13) by (auto simp: hits_def filter_empty_conv)
    then show False using full Fi by simp
  qed
  then have w: "\<exists>wc\<in>set (L 0) \<union> set (L 1). writes (reqs comm) s wc" using assms(7,8,11,13,14) by (auto simp: writes_def less_2_cases_iff)
  have "sint (wc_imm_data wc) = n" if wc: "wc \<in> set (L i)" "i < 2" "writes (reqs comm) s wc" for wc i
  proof -
    have "wc \<in> set (?F i)" using t(2) wc(1,2) by (simp add: progress_def)
    then show ?thesis using assms(10) wc(2,3) imm by simp
  qed
  from this [where i = 0] this [where i = 1] have "\<forall>wc\<in>set (L 0) \<union> set (L 1). writes (reqs comm) s wc \<longrightarrow> sint (wc_imm_data wc) = n" by auto
  then have "sz' ! s ! 0 = n" using w t(2) by (auto simp: progress_def sizes_after_def)
  moreover have "s < length sz'" "1 \<le> length (sz' ! s)"
    using assms(2,6-8) sizes_after_lengths [of "reqs comm" "sizesFifo comm" "set (L 0) \<union> set (L 1)" sz'] t(2)
    by (auto simp: testable_def test_ok_def list_all_length part_ok_iff progress_def)
  ultimately have "test_sizes True (reqs comm ! q) sz' = Some [n]"
    using assms(6-8) by (cases "sz' ! s") (simp_all add: test_sizes_def ub_simps)
  then show ?thesis using t(1,4) dn by auto
qed

theorem size_delivered_witness:
  "\<exists>comm' x'. anpNetTest demo_cfg queue_verbs True 0 (RecvComm demo_wait) (demo_queue demo_wc) = Some (ncclSuccess, True, [1000], comm', x')"
proof -
  obtain wr0 rest nw where p: "prepare_wrs demo_cfg False False 1000 7 = (wr0, rest, nw)" by (cases "prepare_wrs demo_cfg False False 1000 7") auto
  then have imm: "imm_data (last (wr0 # rest)) = 1000" by (auto simp: prepare_wrs_def Let_def)
  have h: "\<forall>i<2. hits 0 (queued (\<lambda>w. w) (RecvComm demo_wait) (xw_w (demo_queue demo_wc)) i) = events (reqs demo_wait ! 0) ! i"
    "rq_type (reqs demo_wait ! 0) = REQ_RECV" "nreqs (reqs demo_wait ! 0) = 1" "rq_part (reqs demo_wait ! 0) = RecvPart 3"
    "\<forall>i<2. \<forall>wc\<in>set (queued (\<lambda>w. w) (RecvComm demo_wait) (xw_w (demo_queue demo_wc)) i). wc_imm_data wc = 1000"
    "demo_wc \<in> set (queued (\<lambda>w. w) (RecvComm demo_wait) (xw_w (demo_queue demo_wc)) 0)" "wc_target demo_wc = 0" "wc_opcode demo_wc = IBV_WC_RECV_RDMA_WITH_IMM"
    by code_simp+
  show ?thesis by (rule size_delivered [OF queue_law demo_testable p _ _ h(2-4,1) _ _ h(6-8)]) (use h(5) imm in simp_all)
qed

text \<open>A completion that cannot be accepted, and the result it gives.\<close>

definition bad_wc :: "ncclIbRequest list \<Rightarrow> nat \<Rightarrow> ibv_wc \<Rightarrow> ncclResult \<Rightarrow> bool" where
  "bad_wc rs i wc res \<longleftrightarrow>
     (\<not> wc_success wc \<and> res = ncclRemoteError) \<or>
     (wc_success wc \<and> wc_target wc < length rs \<and> res = ncclInternalError \<and>
      (rq_type (rs ! wc_target wc) = REQ_SEND \<and> 0 < nreqs (rs ! wc_target wc) \<and> events (rs ! wc_target wc) ! i \<le> 0 \<or>
       rq_type (rs ! wc_target wc) \<noteq> REQ_SEND \<and> rq_type (rs ! wc_target wc) \<noteq> REQ_RECV \<and> wc_opcode wc = IBV_WC_RECV_RDMA_WITH_IMM))"

lemma complete_unexpected_send:
  assumes "wc_target wc < length rs" "i < length (events (rs ! wc_target wc))" "events (rs ! wc_target wc) ! i \<le> 0"
  shows "complete_sends C i (wc_wr_id wc) 0 (Suc n) rs x = Some (ncclInternalError, rs, x)"
proof -
  have t: "unat (drop_bit (8 * 0) (wc_wr_id wc) AND 0xff) = wc_target wc" by (simp add: wc_target_def)
  show ?thesis unfolding complete_sends.simps t Let_def using assms by (simp add: ub_simps)
qed

lemma handle_bad_wc:
  assumes "bad_wc rs i wc res" "list_all req_ok rs" "i < 2"
  shows "\<exists>x'. handle_wc C V i wc (rs, sz) x = Some (res, (rs, sz), x')"
proof (cases "wc_success wc \<and> rq_type (rs ! wc_target wc) = REQ_SEND")
  case True
  then have b: "wc_target wc < length rs" "res = ncclInternalError" "0 < nreqs (rs ! wc_target wc)" "events (rs ! wc_target wc) ! i \<le> 0"
    using assms(1) by (auto simp: bad_wc_def)
  obtain n where n: "nat (nreqs (rs ! wc_target wc)) = Suc n" using b(3) by (cases "nat (nreqs (rs ! wc_target wc))") auto
  have l: "i < length (events (rs ! wc_target wc))" using assms(2,3) b(1) by (simp add: list_all_length req_ok_def)
  show ?thesis using True b(1,2) n
    by (simp add: handle_wc_def ub_simps Let_def complete_unexpected_send [OF b(1) l b(4)] del: complete_sends.simps)
next
  case False
  then show ?thesis using assms(1) by (auto simp: handle_wc_def bad_wc_def ub_simps Let_def)
qed



end
