(* ===== verification/Card.thy ===== *)
theory Card
  imports Completion "HOL-Library.Multiset"
begin

text \<open>
  The card between the calls of the plugin, and the account a communicator keeps of its work.  The card is described by
  what is relied on of it.

  \<open>P w c\<close> is the work that was posted to queue pairs of completion queue \<open>c\<close>, raises a completion and is not complete in the
  world \<open>w\<close>, \<open>Q w c\<close> is the content of the queue, and \<open>cqo p\<close> the completion queue of queue pair \<open>p\<close>.
\<close>

subsection \<open>The card\<close>

text \<open>A signalled send work request or a receive work request, by its identifier.\<close>

datatype work = SendWork u64 | RecvWork u64

definition card_law :: "'w data_verbs \<Rightarrow> ('w \<Rightarrow> cq_ptr \<Rightarrow> work multiset) \<Rightarrow> ('w \<Rightarrow> cq_ptr \<Rightarrow> ibv_wc list) \<Rightarrow> (ibv_qp \<Rightarrow> cq_ptr) \<Rightarrow> bool" where
  "card_law V P Q cqo \<longleftrightarrow> cq_law V Q \<and> (\<forall>c n w. P (snd (v_poll_cq V c n w)) = P w) \<and>
     (\<forall>p ch w w'. v_post_send V p ch w = (ncclSuccess, w') \<longrightarrow> Q w' = Q w \<and> P w' = (P w)(cqo p := P w (cqo p) + mset (map SendWork (signalled_ids ch)))) \<and>
     (\<forall>p i w w'. v_post_recv V p i w = (ncclSuccess, w') \<longrightarrow> Q w' = Q w \<and> P w' = (P w)(cqo p := P w (cqo p) + {#RecvWork i#}))"

text \<open>The completion of a work request: a write with immediate of the peer completes a receive.\<close>

fun completes :: "work \<Rightarrow> ibv_wc \<Rightarrow> bool" where
  "completes (SendWork i) wc = (wc_wr_id wc = i \<and> wc_opcode wc \<noteq> IBV_WC_RECV_RDMA_WITH_IMM)"
| "completes (RecvWork i) wc = (wc_wr_id wc = i \<and> wc_opcode wc = IBV_WC_RECV_RDMA_WITH_IMM)"

text \<open>The card completes one work request: its success is appended to the queue.\<close>

definition card_completes :: "('w \<Rightarrow> cq_ptr \<Rightarrow> work multiset) \<Rightarrow> ('w \<Rightarrow> cq_ptr \<Rightarrow> ibv_wc list) \<Rightarrow> 'w \<Rightarrow> 'w \<Rightarrow> bool" where
  "card_completes P Q w w' \<longleftrightarrow> (\<exists>c k wc. k \<in># P w c \<and> wc_success wc \<and> completes k wc \<and>
     P w' = (P w)(c := P w c - {#k#}) \<and> Q w' = (Q w)(c := Q w c @ [wc]))"

text \<open>The queue pairs of a communicator report to the completion queues of their devices.\<close>

definition cqs_wired :: "(ibv_qp \<Rightarrow> cq_ptr) \<Rightarrow> ('a) ncclIbNetCommBase_scheme \<Rightarrow> bool" where
  "cqs_wired cqo comm \<longleftrightarrow> (\<forall>i<nqps comm. cqo (the (qp (qps comm ! i))) = cq (devBase comm ! devIndex (qps comm ! i)))"

text \<open>The outstanding work of request \<open>j\<close>.\<close>

definition outstanding :: "work multiset \<Rightarrow> nat \<Rightarrow> nat" where
  "outstanding pend j = count pend (SendWork (word_of_nat j)) + count pend (RecvWork (word_of_nat j))"

lemma outstanding_simps [simp]: "outstanding {#} j = 0" "outstanding (A + B) j = outstanding A j + outstanding B j"
  by (simp_all add: outstanding_def)

subsection \<open>Identifiers\<close>

lemma unat_id: "j < 256 \<Longrightarrow> unat (word_of_nat j :: u64) = j"
  by (simp add: unsigned_of_nat take_bit_nat_eq_self)

lemma id_inj: "i < 256 \<Longrightarrow> j < 256 \<Longrightarrow> (word_of_nat i :: u64) = word_of_nat j \<longleftrightarrow> i = j"
  by (metis unat_id)

lemma wc_target_id: "wc_wr_id wc = word_of_nat j \<Longrightarrow> j < 256 \<Longrightarrow> wc_target wc = j"
proof -
  assume a: "wc_wr_id wc = word_of_nat j" "j < 256"
  have "(word_of_nat j :: u64) AND 0xff = take_bit 8 (word_of_nat j)" by (simp add: take_bit_eq_mask mask_eq_exp_minus_1)
  also have "\<dots> = word_of_nat (take_bit 8 j)" by (simp add: take_bit_of_nat)
  also have "take_bit 8 j = j" using a(2) by (simp add: take_bit_nat_eq_self)
  finally show ?thesis using a by (simp add: wc_target_def unat_id)
qed

subsection \<open>What a test leaves alone\<close>

lemma complete_sends_world: "complete_sends C i wid j n rs x = Some (res, rs', x') \<Longrightarrow> xw_w x' = xw_w x"
  by (induction C i wid j n rs x rule: complete_sends.induct) (auto simp: Let_def split: if_splits Option.bind_splits)

lemma handle_wc_world: "handle_wc C V i wc st x = Some (res, st', x') \<Longrightarrow> xw_w x' = xw_w x"
  by (auto simp: handle_wc_def Let_def dest!: complete_sends_world split: if_splits Option.bind_splits prod.splits)

lemma handle_wcs_world: "handle_wcs C V i wcs st x = Some (res, st', x') \<Longrightarrow> xw_w x' = xw_w x"
  by (induction C V i wcs st x rule: handle_wcs.induct) (auto dest!: handle_wc_world split: if_splits Option.bind_splits prod.splits)

lemma poll_dev_keeps:
  assumes "\<And>c n w. f (snd (v_poll_cq V c n w)) = f w" "poll_dev C V bases q i st x = Some (res, k, st', x')"
  shows "f (xw_w x') = f (xw_w x)"
  using assms(2)
  by (auto simp: poll_dev_def Let_def dest!: handle_wcs_world split: if_splits Option.bind_splits prod.splits) (metis assms(1) snd_conv)+

lemma poll_devs_keeps:
  assumes "\<And>c n w. f (snd (v_poll_cq V c n w)) = f w"
  shows "poll_devs C V bases q i n tot st x = Some (res, k, st', x') \<Longrightarrow> f (xw_w x') = f (xw_w x)"
proof (induction n arbitrary: i tot st x)
  case (Suc n)
  obtain res1 k1 st1 x1 where p: "poll_dev C V bases q i st x = Some (res1, k1, st1, x1)"
    using Suc.prems by (auto split: Option.bind_splits)
  have "f (xw_w x1) = f (xw_w x)" by (rule poll_dev_keeps [OF assms p])
  then show ?case using Suc.prems Suc.IH [of "Suc i" "tot + k1" st1 x1] p by (auto split: if_splits)
qed simp

lemma test_loop_keeps:
  assumes "\<forall>c n w. f (snd (v_poll_cq V c n w)) = f w" "test_loop C V want bases q st x = Some y"
  shows "f (xw_w (snd (snd (snd (snd y))))) = f (xw_w x)"
proof -
  let ?K = "\<lambda>C V want bases q st x y. (\<forall>c n w. f (snd (v_poll_cq V c n w)) = f w) \<longrightarrow> f (xw_w (snd (snd (snd (snd y))))) = f (xw_w x)"
  have "?K C V want bases q st x y"
  proof (rule test_loop.raw_induct [where P = ?K and xa = "((((((C, V), want), bases), q), st), x)" and y = y, unfolded prod.case, OF _ assms(2)], intro impI)
    fix tl C V want bases q st x y
    assume ih: "\<And>C V want bases q st x y. tl C V want bases q st x = Some y \<Longrightarrow> ?K C V want bases q st x y"
      and keep: "\<forall>c n w. f (snd (v_poll_cq V c n w)) = f w"
      and run: "(arr_get (fst st) q \<bind> (\<lambda>r. arr_get (events r) 0 \<bind> (\<lambda>e0. arr_get (events r) 1 \<bind> (\<lambda>e1.
        if e0 = 0 \<and> e1 = 0 then test_sizes want r (snd st) \<bind> (\<lambda>out. Some (ncclSuccess, True, out, ((fst st)[q := r\<lparr>rq_type := REQ_UNUSED\<rparr>], snd st), x))
        else poll_devs C V bases q 0 NCCL_IB_MAX_DEVS_PER_NIC 0 st x \<bind> (\<lambda>(res, tot, st, x).
          if res \<noteq> ncclSuccess then Some (res, False, [], st, x) else if tot = 0 then Some (ncclSuccess, False, [], st, x) else tl C V want bases q st x))))) = Some y"
    have p: "poll_devs C V bases q 0 NCCL_IB_MAX_DEVS_PER_NIC 0 st x = Some (res, k, st1, x1) \<Longrightarrow> f (xw_w x1) = f (xw_w x)" for res k st1 x1
      using poll_devs_keeps [of f V] keep by blast
    have t: "tl C V want bases q st1 x1 = Some z \<Longrightarrow> f (xw_w (snd (snd (snd (snd z))))) = f (xw_w x1)" for st1 x1 z using ih keep by blast
    show "f (xw_w (snd (snd (snd (snd y))))) = f (xw_w x)"
      using run by (auto split: if_splits Option.bind_splits dest!: t p)
  qed
  then show ?thesis using assms(1) by blast
qed

lemma test_keeps:
  assumes "\<forall>c n w. f (snd (v_poll_cq V c n w)) = f w" "anpNetTest C V want q comm x = Some (res, dn, out, comm', x')"
  shows "f (xw_w x') = f (xw_w x)"
  using assms(2) by (auto simp: anpNetTest_def split: Option.bind_splits dest: test_loop_keeps [where f = f, OF assms(1)])

subsection \<open>The account of the card\<close>

text \<open>
  The events request \<open>j\<close> expects of device \<open>d\<close> are its work the card has not completed and the completions
  that wait in the queue; all of them belong to some request, the receives and the immediates to one that receives.
\<close>

fun belongs :: "ncclIbRequest list \<Rightarrow> nat \<Rightarrow> work \<Rightarrow> bool" where
  "belongs rs j (SendWork i) = (i = word_of_nat j)"
| "belongs rs j (RecvWork i) = (i = word_of_nat j \<and> rq_type (rs ! j) = REQ_RECV)"

definition ledger :: "ncclIbRequest list \<Rightarrow> work multiset \<Rightarrow> ibv_wc list \<Rightarrow> nat \<Rightarrow> bool" where
  "ledger rs pend que d \<longleftrightarrow> (\<forall>wc\<in>set que. wc_success wc \<and> (\<exists>j<length rs. \<exists>k. belongs rs j k \<and> completes k wc)) \<and>
     (\<forall>k\<in>#pend. \<exists>j<length rs. belongs rs j k) \<and> (\<forall>j<length rs. events (rs ! j) ! d = int (outstanding pend j) + hits j que)"

lemma completes_id: "belongs rs j k \<Longrightarrow> completes k wc \<Longrightarrow> j < 256 \<Longrightarrow>
    wc_target wc = j \<and> (wc_opcode wc = IBV_WC_RECV_RDMA_WITH_IMM \<longrightarrow> rq_type (rs ! j) = REQ_RECV)"
  by (cases k) (auto simp: wc_target_id)

lemma outstanding_work: "belongs rs j k \<Longrightarrow> j < 256 \<Longrightarrow> i < 256 \<Longrightarrow> 
    outstanding (add_mset k pend) i = outstanding pend i + (if i = j then 1 else 0)"
  by (cases k) (auto simp: outstanding_def id_inj)

lemma outstanding_zero: "outstanding pend j = 0 \<Longrightarrow> k \<in># pend \<Longrightarrow> \<not> belongs rs j k"
  by (cases k) (auto simp: outstanding_def count_eq_zero_iff)

lemma hits_zero: "hits j que = 0 \<Longrightarrow> wc \<in> set que \<Longrightarrow> wc_target wc \<noteq> j"
  by (auto simp: hits_def filter_empty_conv)

lemma ledger_ok: "ledger rs pend que d \<Longrightarrow> length rs \<le> 256 \<Longrightarrow> wc \<in> set que \<Longrightarrow> wc_ok rs wc"
  unfolding ledger_def wc_ok_def using completes_id by (metis order_less_le_trans)

lemma card_ledger:
  assumes "ledger rs pend que d" "length rs \<le> 256" "k \<in># pend" "wc_success wc" "completes k wc"
  shows "ledger rs (pend - {#k#}) (que @ [wc]) d"
proof -
  obtain j where j: "j < length rs" "belongs rs j k" using assms(1,3) unfolding ledger_def by blast
  obtain rest where rest: "pend = add_mset k rest" using assms(3) by (metis multi_member_split)
  have "wc_target wc = j" using completes_id [OF j(2) assms(5)] j(1) assms(2) by simp
  moreover have "outstanding pend i = outstanding rest i + (if i = j then 1 else 0)" if "i < length rs" for i
    using outstanding_work [OF j(2), of i rest] that j(1) assms(2) by (simp add: rest)
  ultimately show ?thesis using assms(1,4,5) j unfolding ledger_def by (auto simp: rest)
qed

text \<open>The account is independent of everything in a request but its events and, as long as it has any, its kind.\<close>

lemma ledger_cong:
  assumes "ledger rs pend que d" "length rs \<le> 256" "length rs' = length rs" "\<And>j. j < length rs \<Longrightarrow> events (rs' ! j) ! d = events (rs ! j) ! d"
    and "\<And>j. j < length rs \<Longrightarrow> events (rs ! j) ! d \<noteq> 0 \<Longrightarrow> rq_type (rs' ! j) = rq_type (rs ! j)"
  shows "ledger rs' pend que d"
proof -
  have ev: "events (rs ! j) ! d = int (outstanding pend j) + hits j que" if "j < length rs" for j using assms(1) that by (simp add: ledger_def)
  have b: "belongs rs' j k = belongs rs j k" if "j < length rs" "events (rs ! j) ! d \<noteq> 0" for j k using assms(5) [OF that] by (cases k) auto
  have "\<exists>j<length rs. belongs rs' j k" if k: "k \<in># pend" for k
  proof -
    obtain j where j: "j < length rs" "belongs rs j k" using assms(1) k unfolding ledger_def by blast
    then have "outstanding pend j \<noteq> 0" using outstanding_zero k by blast
    then have "events (rs ! j) ! d \<noteq> 0" using ev [OF j(1)] hits_nonneg [of j que] by linarith
    then show ?thesis using b j by blast
  qed
  moreover have "\<exists>j<length rs. \<exists>k. belongs rs' j k \<and> completes k wc" if wc: "wc \<in> set que" for wc
  proof -
    obtain j k where j: "j < length rs" "belongs rs j k" "completes k wc" using assms(1) wc unfolding ledger_def by blast
    then have "wc_target wc = j" using completes_id assms(2) by (metis order_less_le_trans)
    then have "hits j que \<noteq> 0" using hits_zero wc by blast
    then have "events (rs ! j) ! d \<noteq> 0" using ev [OF j(1)] hits_nonneg [of j que] by linarith
    then show ?thesis using b j by blast
  qed
  ultimately show ?thesis using assms(1,3,4) unfolding ledger_def by simp
qed

lemma ledger_after: "ledger rs pend (L d @ que) d \<Longrightarrow> d < 2 \<Longrightarrow> ledger (after rs L) pend que d"
proof -
  assume a: "ledger rs pend (L d @ que) d" "d < 2"
  have b: "belongs rs j k \<Longrightarrow> j < length rs \<Longrightarrow> belongs (after rs L) j k" for j k by (cases k) (simp_all add: after_nth)
  have "\<forall>k\<in>#pend. \<exists>j<length rs. belongs (after rs L) j k" "\<forall>wc\<in>set que. wc_success wc \<and> (\<exists>j<length rs. \<exists>k. belongs (after rs L) j k \<and> completes k wc)"
    using a(1) b unfolding ledger_def set_append by blast+
  then show ?thesis using a unfolding ledger_def by (auto simp: after_events)
qed

text \<open>New work of a request that had none.\<close>

lemma ledger_post:
  assumes "ledger rs pend que d" "length rs \<le> 256" "q < length rs" "events (rs ! q) ! d = 0" "events r ! d = int (size new)"
    and "\<And>k. k \<in># new \<Longrightarrow> belongs (rs[q := r]) q k"
  shows "ledger (rs[q := r]) (pend + new) que d"
proof -
  have n: "outstanding new j = (if j = q then size new else 0)" if "j < length rs" for j
    using assms(6)
  proof (induction new)
    case (add k new)
    then have "belongs (rs[q := r]) q k" by simp
    from outstanding_work [OF this, of j new] show ?case using add that assms(2,3) by auto
  qed simp
  have ev: "events (rs ! j) ! d = int (outstanding pend j) + hits j que" if "j < length rs" for j using assms(1) that by (simp add: ledger_def)
  have z: "outstanding pend q = 0" "hits q que = 0" using ev [OF assms(3)] assms(4) hits_nonneg [of q que] by linarith+
  have b: "belongs (rs[q := r]) j k = belongs rs j k" if "j \<noteq> q" for j k using that by (cases k) auto
  have "\<exists>j<length rs. belongs (rs[q := r]) j k" if "k \<in># pend + new" for k
  proof (cases "k \<in># new")
    case True
    then show ?thesis using assms(3,6) by blast
  next
    case False
    then have k: "k \<in># pend" using that by simp
    then obtain j where j: "j < length rs" "belongs rs j k" using assms(1) unfolding ledger_def by blast
    have "j \<noteq> q" using outstanding_zero [OF z(1) k, of rs] j(2) by metis
    then show ?thesis using b j by blast
  qed
  moreover have "\<exists>j<length rs. \<exists>k. belongs (rs[q := r]) j k \<and> completes k wc" if wc: "wc \<in> set que" for wc
  proof -
    obtain j k where j: "j < length rs" "belongs rs j k" "completes k wc" using assms(1) wc unfolding ledger_def by blast
    then have "j \<noteq> q" using completes_id [OF j(2,3)] assms(2) hits_zero [OF z(2) wc] by auto
    then show ?thesis using b j by blast
  qed
  moreover have "events (rs[q := r] ! j) ! d = int (outstanding (pend + new) j) + hits j que" if "j < length rs" for j
    using ev [OF that] n [OF that] z assms(3,5) by (cases "j = q") auto
  ultimately show ?thesis using assms(1) unfolding ledger_def by simp
qed

subsection \<open>The account of a communicator\<close>

text \<open>A request that the test may follow and that waits for nothing when it is unused.\<close>

definition live_req :: "int list list \<Rightarrow> ncclIbRequest \<Rightarrow> bool" where
  "live_req sz r \<longleftrightarrow> part_ok sz r \<and> (rq_type r = REQ_UNUSED \<longrightarrow> events r = [0, 0])"

lemma lengths_part_ok: "map length sz' = map length sz \<Longrightarrow> part_ok sz r \<Longrightarrow> part_ok sz' r"
  unfolding part_ok_iff by (metis length_map nth_map)

definition account :: "('w \<Rightarrow> cq_ptr \<Rightarrow> work multiset) \<Rightarrow> ('w \<Rightarrow> cq_ptr \<Rightarrow> ibv_wc list) \<Rightarrow> net_comm \<Rightarrow> 'w \<Rightarrow> bool" where
  "account P Q comm w \<longleftrightarrow> length (net_bases comm) = 2 \<and> cq (net_bases comm ! 0) \<noteq> cq (net_bases comm ! 1) \<and> length (fst (net_state comm)) \<le> 256 \<and>
     list_all (live_req (snd (net_state comm))) (fst (net_state comm)) \<and>
     (\<forall>d<2. ledger (fst (net_state comm)) (P w (cq (net_bases comm ! d))) (Q w (cq (net_bases comm ! d))) d)"

text \<open>Nothing is posted and no request in use.\<close>

definition idle :: "('w \<Rightarrow> cq_ptr \<Rightarrow> work multiset) \<Rightarrow> ('w \<Rightarrow> cq_ptr \<Rightarrow> ibv_wc list) \<Rightarrow> net_comm \<Rightarrow> 'w \<Rightarrow> bool" where
  "idle P Q comm w \<longleftrightarrow> length (net_bases comm) = 2 \<and> cq (net_bases comm ! 0) \<noteq> cq (net_bases comm ! 1) \<and>
     list_all (\<lambda>r. rq_type r = REQ_UNUSED \<and> events r = [0, 0]) (fst (net_state comm)) \<and>
     (\<forall>d<2. P w (cq (net_bases comm ! d)) = {#} \<and> Q w (cq (net_bases comm ! d)) = [])"

lemma account_idle:
  assumes "idle P Q comm w" "list_all req_ok (fst (net_state comm))" "length (fst (net_state comm)) \<le> 256"
  shows "account P Q comm w"
  using assms by (auto simp: account_def idle_def live_req_def part_ok_iff list_all_iff list_all_length ledger_def less_2_cases_iff)

lemma account_testable:
  assumes "account P Q comm w" "q < length (fst (net_state comm))"
  shows "testable Q comm w q"
proof -
  have led: "ledger (fst (net_state comm)) (P w (cq (net_bases comm ! d))) (Q w (cq (net_bases comm ! d))) d" if "d < 2" for d
    using assms(1) that by (simp add: account_def)
  have len: "length (fst (net_state comm)) \<le> 256" using assms(1) by (simp add: account_def)
  have "expected (fst (net_state comm)) (queued Q comm w)"
    unfolding expected_def queued_def
  proof (intro allI impI conjI ballI)
    fix i wc assume "i < (2 :: nat)" "wc \<in> set (Q w (cq (net_bases comm ! i)))"
    then show "wc_ok (fst (net_state comm)) wc" using ledger_ok [OF led len] by blast
  next
    fix i j assume "i < (2 :: nat)" "j < length (fst (net_state comm))"
    then show "hits j (Q w (cq (net_bases comm ! i))) \<le> events (fst (net_state comm) ! j) ! i" using led [of i] by (simp add: ledger_def)
  qed
  then show ?thesis using assms by (auto simp: testable_def test_ok_def account_def list_all_iff live_req_def)
qed

lemma account_card:
  assumes "account P Q comm w" "card_completes P Q w w'"
  shows "account P Q comm w'"
proof -
  obtain c k wc where c: "k \<in># P w c" "wc_success wc" "completes k wc" "P w' = (P w)(c := P w c - {#k#})" "Q w' = (Q w)(c := Q w c @ [wc])"
    using assms(2) unfolding card_completes_def by blast
  have len: "length (fst (net_state comm)) \<le> 256" using assms(1) by (simp add: account_def)
  have "ledger (fst (net_state comm)) (P w' e) (Q w' e) d" if "ledger (fst (net_state comm)) (P w e) (Q w e) d" for e d
    using that card_ledger [OF that len _ c(2,3)] c(1,4,5) by (cases "e = c") auto
  then show ?thesis using assms(1) unfolding account_def by blast
qed

text \<open>A request \<open>r\<close> takes the place of an unused one, with new work \<open>N d\<close> on each device.\<close>

lemma account_post:
  assumes "account P Q comm w" "q < length (fst (net_state comm))" "rq_type (fst (net_state comm) ! q) = REQ_UNUSED"
    and "net_bases comm' = net_bases comm" "fst (net_state comm') = (fst (net_state comm))[q := r]" "map length (snd (net_state comm')) = map length (snd (net_state comm))"
    and "live_req (snd (net_state comm')) r" "\<And>d. d < 2 \<Longrightarrow> events r ! d = int (size (N d))"
    and "\<And>d k. d < 2 \<Longrightarrow> k \<in># N d \<Longrightarrow> belongs (fst (net_state comm')) q k"
    and "\<And>d. d < 2 \<Longrightarrow> P w' (cq (net_bases comm ! d)) = P w (cq (net_bases comm ! d)) + N d \<and> Q w' (cq (net_bases comm ! d)) = Q w (cq (net_bases comm ! d))"
  shows "account P Q comm' w'"
proof -
  have e0: "events (fst (net_state comm) ! q) = [0, 0]" using assms(1-3) by (auto simp: account_def list_all_length live_req_def)
  have sz: "live_req (snd (net_state comm')) s" if "live_req (snd (net_state comm)) s" for s
    using that lengths_part_ok [OF assms(6)] by (simp add: live_req_def)
  have "list_all (live_req (snd (net_state comm'))) (fst (net_state comm'))"
    using assms(1,2,7) sz unfolding assms(5) by (auto simp: account_def list_all_length nth_list_update)
  moreover have "ledger (fst (net_state comm')) (P w' (cq (net_bases comm ! d))) (Q w' (cq (net_bases comm ! d))) d" if "d < 2" for d
    using ledger_post [of "fst (net_state comm)" _ _ d q r "N d"] assms(1,2,5,8-10) that e0 by (auto simp: account_def less_2_cases_iff)
  ultimately show ?thesis using assms(1,4,5) by (simp add: account_def)
qed

subsection \<open>A test keeps the account\<close>

lemma live_events:
  assumes "live_req sz r" "0 \<le> a" "a \<le> events r ! 0" "0 \<le> b" "b \<le> events r ! 1"
  shows "live_req sz (r\<lparr>events := [events r ! 0 - a, events r ! 1 - b]\<rparr>)"
  using assms by (auto simp: live_req_def part_ok_iff req_ok_def less_2_cases_iff)

lemma live_done: "live_req sz r \<Longrightarrow> events r = [0, 0] \<Longrightarrow> live_req sz (r\<lparr>rq_type := REQ_UNUSED\<rparr>)"
  by (auto simp: live_req_def part_ok_iff req_ok_def)

lemma after_live:
  assumes "list_all (live_req sz) rs" "\<And>d j. d < 2 \<Longrightarrow> j < length rs \<Longrightarrow> hits j (L d) \<le> events (rs ! j) ! d"
  shows "list_all (live_req sz) (after rs L)"
proof (unfold list_all_length, intro allI impI)
  fix j assume "j < length (after rs L)"
  then have j: "j < length rs" by simp
  show "live_req sz (after rs L ! j)" unfolding after_nth [OF j]
    by (rule live_events) (use assms(1) assms(2) [OF _ j] j in \<open>auto simp: list_all_length\<close>)
qed

lemma net_state_set: "map length sz = map length (snd (net_state comm)) \<Longrightarrow> net_state (set_net_state (rs, sz) comm) = (rs, sz)"
  by (cases comm) simp_all

lemma account_test:
  assumes law: "card_law V P Q cqo" and inv: "account P Q comm (xw_w x)" and q: "q < length (fst (net_state comm))"
  obtains dn out rs sz x' where "anpNetTest C V want q comm x = Some (ncclSuccess, dn, out, set_net_state (rs, sz) comm, x')"
    and "account P Q (set_net_state (rs, sz) comm) (xw_w x')" "length rs = length (fst (net_state comm))" "map length sz = map length (snd (net_state comm))"
    and "dn = (\<forall>d<2. outstanding (P (xw_w x) (cq (net_bases comm ! d))) q = 0)" "dn \<Longrightarrow> rq_type (rs ! q) = REQ_UNUSED"
proof -
  define rs0 where "rs0 = fst (net_state comm)"
  define sz0 where "sz0 = snd (net_state comm)"
  let ?c = "\<lambda>d. cq (net_bases comm ! d)"
  have laws: "cq_law V Q" "\<forall>c n w. P (snd (v_poll_cq V c n w)) = P w" using law by (simp_all add: card_law_def)
  obtain dn out L sz x' where t: "anpNetTest C V want q comm x = Some (ncclSuccess, dn, out,
        set_net_state (if dn then (after rs0 L)[q := (after rs0 L ! q)\<lparr>rq_type := REQ_UNUSED\<rparr>] else after rs0 L, sz) comm, x')"
      "\<forall>d<2. Q (xw_w x) (?c d) = L d @ Q (xw_w x') (?c d)" "sizes_after rs0 sz0 (set (L 0) \<union> set (L 1)) sz"
      "dn = (\<forall>d<2. hits q (Q (xw_w x) (?c d)) = events (rs0 ! q) ! d)" "dn \<longrightarrow> (\<forall>d<2. hits q (L d) = hits q (Q (xw_w x) (?c d)))"
    using test_runs [OF laws(1) account_testable [OF inv q], of C want, folded rs0_def sz0_def, unfolded queued_def progress_def]
    by (elim exE conjE) (rule that, assumption+, blast)
  define rs where "rs = (if dn then (after rs0 L)[q := (after rs0 L ! q)\<lparr>rq_type := REQ_UNUSED\<rparr>] else after rs0 L)"
  have q0: "q < length rs0" "length rs0 \<le> 256" using q inv by (simp_all add: rs0_def account_def)
  have led: "ledger rs0 (P (xw_w x) (?c d)) (Q (xw_w x) (?c d)) d" if "d < 2" for d using inv that by (simp add: account_def rs0_def)
  have ev: "events (rs0 ! j) ! d = int (outstanding (P (xw_w x) (?c d)) j) + hits j (Q (xw_w x) (?c d))" if "d < 2" "j < length rs0" for d j
    using led [OF that(1)] that(2) by (simp add: ledger_def)
  have p: "P (xw_w x') = P (xw_w x)" by (rule test_keeps [where f = P, OF laws(2) t(1)])
  have ml: "map length sz = map length sz0" using t(3) by (simp add: sizes_after_def)
  have "hits j (L d) \<le> events (rs0 ! j) ! d" if "d < 2" "j < length rs0" for d j using ev [OF that] t(2) that(1) by simp
  moreover have "list_all (live_req sz) rs0" using inv lengths_part_ok [OF ml] by (auto simp: account_def rs0_def sz0_def list_all_iff live_req_def)
  ultimately have live: "list_all (live_req sz) (after rs0 L)" by (intro after_live) auto
  have z: "events (after rs0 L ! q) = [0, 0]" if dn using that t(4,5) q0 by (simp add: after_nth less_2_cases_iff)
  then have "list_all (live_req sz) rs" using live live_done q0 by (auto simp: rs_def list_all_length nth_list_update)
  moreover have "ledger rs (P (xw_w x') (?c d)) (Q (xw_w x') (?c d)) d" if "d < 2" for d
  proof (rule ledger_cong)
    show "ledger (after rs0 L) (P (xw_w x') (?c d)) (Q (xw_w x') (?c d)) d" using led [OF that] t(2) that by (simp add: p ledger_after)
  qed (use z q0 that in \<open>auto simp: rs_def nth_list_update less_2_cases_iff split: if_splits\<close>)
  moreover have st: "net_state (set_net_state (rs, sz) comm) = (rs, sz)" by (rule net_state_set) (simp add: ml sz0_def)
  ultimately have "account P Q (set_net_state (rs, sz) comm) (xw_w x')" using inv q0 unfolding account_def st by (simp add: rs_def rs0_def)
  moreover have "dn = (\<forall>d<2. outstanding (P (xw_w x) (?c d)) q = 0)" unfolding t(4) using ev [OF _ q0(1)] by auto
  moreover have "length rs = length (fst (net_state comm))" by (simp add: rs_def rs0_def)
  moreover have "rq_type (rs ! q) = REQ_UNUSED" if dn using that q0(1) by (simp add: rs_def)
  ultimately show thesis using that [OF t(1) [folded rs_def]] ml [unfolded sz0_def] by blast
qed

subsection \<open>A concrete card\<close>

text \<open>A card that keeps the work it still has to complete and the completions of each queue.\<close>

type_synonym card = "(cq_ptr \<Rightarrow> work list) \<times> (cq_ptr \<Rightarrow> ibv_wc list)"

definition card_verbs :: "card data_verbs" where
  "card_verbs = \<lparr>v_post_send = (\<lambda>p ch w. (ncclSuccess, ((fst w)(qp_ptr p := fst w (qp_ptr p) @ map SendWork (signalled_ids ch)), snd w))),
     v_post_recv = (\<lambda>p i w. (ncclSuccess, ((fst w)(qp_ptr p := fst w (qp_ptr p) @ [RecvWork i]), snd w))),
     v_poll_cq = (\<lambda>c n w. ((ncclSuccess, take n (snd w c)), (fst w, (snd w)(c := drop n (snd w c))))), v_time_ns = (\<lambda>w. 0)\<rparr>"

definition card_pending :: "card \<Rightarrow> cq_ptr \<Rightarrow> work multiset" where
  "card_pending w c = mset (fst w c)"

definition card_done :: "work \<Rightarrow> ibv_wc" where
  "card_done k = (case k of
     SendWork i \<Rightarrow> \<lparr>wc_success = True, wc_wr_id = i, wc_opcode = IBV_WC_SEND_SIDE, wc_imm_data = 0, wc_qp_num = 100\<rparr>
   | RecvWork i \<Rightarrow> \<lparr>wc_success = True, wc_wr_id = i, wc_opcode = IBV_WC_RECV_RDMA_WITH_IMM, wc_imm_data = 64, wc_qp_num = 100\<rparr>)"

definition card_work :: "cq_ptr \<Rightarrow> work \<Rightarrow> card \<Rightarrow> card" where
  "card_work c k w = ((fst w)(c := remove1 k (fst w c)), (snd w)(c := snd w c @ [card_done k]))"

definition card_xw :: "card xw" where
  "card_xw = \<lparr>xw_dbg = xw_dbg demo_xw, xw_tele = [], xw_w = (\<lambda>c. [], \<lambda>c. [])\<rparr>"

lemma card_verbs_law: "card_law card_verbs card_pending snd qp_ptr"
  by (auto simp: card_law_def cq_law_def card_verbs_def card_pending_def fun_eq_iff)

lemma card_work_step: "k \<in> set (fst w c) \<Longrightarrow> card_completes card_pending snd w (card_work c k w)"
  unfolding card_completes_def by (intro exI [of _ c] exI [of _ k] exI [of _ "card_done k"]) (cases k; auto simp: card_work_def card_done_def card_pending_def fun_eq_iff)

end
