(* ===== verification/Traffic.thy ===== *)
theory Traffic
  imports Card
begin

text \<open>
  A send communicator over its whole life: sends and tests of requests in any order, interleaved with the work of the
  card.  The functions are those of Sending and Completion.  A call that returns an error ends the traffic: RCCL then gives
  the communicator up.
\<close>

subsection \<open>Runs\<close>

definition fresh_traffic :: "xcfg \<Rightarrow> ('w \<Rightarrow> cq_ptr \<Rightarrow> work multiset) \<Rightarrow> ('w \<Rightarrow> cq_ptr \<Rightarrow> ibv_wc list) \<Rightarrow> (ibv_qp \<Rightarrow> cq_ptr) \<Rightarrow> ncclIbSendComm \<Rightarrow> 'w \<Rightarrow> bool" where
  "fresh_traffic C P Q cqo comm w \<longleftrightarrow> send_comm_ok C comm \<and> cqs_wired cqo comm \<and> idle P Q (SendComm comm) w"

text \<open>What the caller guarantees of the arguments of a send.\<close>

definition send_args_ok :: "xcfg \<Rightarrow> ncclIbSendComm \<Rightarrow> u64 \<Rightarrow> ncclIbMrHandle \<Rightarrow> bool" where
  "send_args_ok C comm sz mh \<longleftrightarrow> ndevs comm \<le> length (mrs mh) \<and> 0 \<le> to_int32 sz \<and> to_int32 sz + 128 * int (send_width C comm) < 2 ^ 31"

inductive traffic :: "xcfg \<Rightarrow> 'w data_verbs \<Rightarrow> ('w \<Rightarrow> cq_ptr \<Rightarrow> work multiset) \<Rightarrow> ('w \<Rightarrow> cq_ptr \<Rightarrow> ibv_wc list) \<Rightarrow> (ibv_qp \<Rightarrow> cq_ptr) \<Rightarrow> ncclIbSendComm \<Rightarrow> 'w xw \<Rightarrow> bool"
  for C V P Q cqo where
  fresh: "fresh_traffic C P Q cqo comm (xw_w x) \<Longrightarrow> traffic C V P Q cqo comm x"
| send: "traffic C V P Q cqo comm x \<Longrightarrow> send_args_ok C comm sz mh \<Longrightarrow> anpNetIsend C V data sz mh u comm x = Some (ncclSuccess, qo, comm', x') \<Longrightarrow>
    traffic C V P Q cqo comm' x'"
| test: "traffic C V P Q cqo comm x \<Longrightarrow> q < length (reqs comm) \<Longrightarrow> anpNetTest C V want q (SendComm comm) x = Some (ncclSuccess, dn, out, SendComm comm', x') \<Longrightarrow>
    traffic C V P Q cqo comm' x'"
| card: "traffic C V P Q cqo comm x \<Longrightarrow> card_completes P Q (xw_w x) w' \<Longrightarrow> traffic C V P Q cqo comm (x\<lparr>xw_w := w'\<rparr>)"

definition traffic_inv :: "xcfg \<Rightarrow> ('w \<Rightarrow> cq_ptr \<Rightarrow> work multiset) \<Rightarrow> ('w \<Rightarrow> cq_ptr \<Rightarrow> ibv_wc list) \<Rightarrow> (ibv_qp \<Rightarrow> cq_ptr) \<Rightarrow> ncclIbSendComm \<Rightarrow> 'w \<Rightarrow> bool" where
  "traffic_inv C P Q cqo comm w \<longleftrightarrow> send_comm_ok C comm \<and> cqs_wired cqo comm \<and> account P Q (SendComm comm) w"

lemma traffic_inv_fresh: "fresh_traffic C P Q cqo comm w \<Longrightarrow> traffic_inv C P Q cqo comm w"
  unfolding traffic_inv_def fresh_traffic_def by (auto simp: send_comm_ok_def intro: account_idle)

lemma traffic_test:
  assumes law: "card_law V P Q cqo" and inv: "traffic_inv C P Q cqo comm (xw_w x)" and q: "q < length (reqs comm)"
  shows "\<exists>dn out comm' x'. anpNetTest C V want q (SendComm comm) x = Some (ncclSuccess, dn, out, SendComm comm', x') \<and>
    traffic_inv C P Q cqo comm' (xw_w x') \<and> dn = (\<forall>d<2. outstanding (P (xw_w x) (cq (devBase comm ! d))) q = 0) \<and>
    (dn \<longrightarrow> rq_type (reqs comm' ! q) = REQ_UNUSED)"
proof -
  have acc: "account P Q (SendComm comm) (xw_w x)" using inv by (simp add: traffic_inv_def)
  obtain dn out rs sz x' where t: "anpNetTest C V want q (SendComm comm) x = Some (ncclSuccess, dn, out, SendComm (comm\<lparr>reqs := rs\<rparr>), x')"
      "account P Q (SendComm (comm\<lparr>reqs := rs\<rparr>)) (xw_w x')" "length rs = length (reqs comm)"
      "dn = (\<forall>d<2. outstanding (P (xw_w x) (cq (devBase comm ! d))) q = 0)" "dn \<Longrightarrow> rq_type (rs ! q) = REQ_UNUSED"
    by (rule account_test [OF law acc, of q C want, simplified]) (use q in auto)
  have "list_all req_ok rs" using t(2) by (auto simp: account_def live_req_def part_ok_iff list_all_iff)
  then have "traffic_inv C P Q cqo (comm\<lparr>reqs := rs\<rparr>) (xw_w x')" using inv t(2,3) by (simp add: traffic_inv_def send_comm_ok_def qps_ok_def cqs_wired_def)
  then show ?thesis using t by (intro exI [of _ dn] exI [of _ out] exI [of _ "comm\<lparr>reqs := rs\<rparr>"] exI [of _ x']) simp
qed

subsection \<open>A send keeps the account\<close>

lemma post_all_card:
  assumes "card_law V P Q cqo"
  shows "post_all V posts w = (ncclSuccess, w') \<Longrightarrow>
    Q w' = Q w \<and> P w' c = P w c + mset (map SendWork (concat (map (signalled_ids \<circ> snd) (filter (\<lambda>p. cqo (fst p) = c) posts))))"
proof (induction posts arbitrary: w)
  case (Cons p posts)
  obtain q ch where p: "p = (q, ch)" by (cases p)
  obtain w1 where w1: "v_post_send V q ch w = (ncclSuccess, w1)" "post_all V posts w1 = (ncclSuccess, w')"
    using Cons.prems by (auto simp: p split: prod.splits if_splits)
  have "Q w1 = Q w" "P w1 = (P w)(cqo q := P w (cqo q) + mset (map SendWork (signalled_ids ch)))" using assms w1(1) unfolding card_law_def by blast+
  then show ?case using Cons.IH [OF w1(2)] by (simp add: p)
qed simp

lemma posted_ids:
  assumes "\<And>i. signalled_ids (snd (F i)) = [k]"
  shows "mset (map SendWork (concat (map (signalled_ids \<circ> snd) (filter (\<lambda>p. cqo (fst p) = c) (map F js))))) =
    replicate_mset (length (filter (\<lambda>i. cqo (fst (F i)) = c) js)) (SendWork k)"
  by (induction js) (auto simp: assms)

text \<open>The queue pairs of a send that report to the queue of device \<open>d\<close> are those of the device.\<close>

lemma chunk_cq:
  assumes "qps_ok comm" "cqs_wired cqo comm" "cq (devBase comm ! 0) \<noteq> cq (devBase comm ! 1)" "d < 2"
  shows "cqo (fst (chunk_post wr0 rest s c comm i)) = cq (devBase comm ! d) \<longleftrightarrow> devIndex (qps comm ! ((qpIndex comm + i) mod nqps comm)) = d"
proof -
  let ?e = "qps comm ! ((qpIndex comm + i) mod nqps comm)"
  have m: "(qpIndex comm + i) mod nqps comm < nqps comm" using assms(1) by (simp add: qps_ok_def)
  have "devIndex ?e < ndevs comm" "ndevs comm \<le> 2" using assms(1) m unfolding qps_ok_def NCCL_IB_MAX_DEVS_PER_NIC_def by blast+
  then have "devIndex ?e < 2" by linarith
  moreover have "cqo (fst (chunk_post wr0 rest s c comm i)) = cq (devBase comm ! devIndex ?e)" using assms(2) m by (simp add: cqs_wired_def chunk_post_def Let_def)
  ultimately show ?thesis using assms(3,4) by (auto simp: less_2_cases_iff)
qed

lemma traffic_send:
  assumes law: "card_law V P Q cqo" and inv: "traffic_inv C P Q cqo comm (xw_w x)" and args: "send_args_ok C comm sz mh"
    and run: "anpNetIsend C V data sz mh u comm x = Some (ncclSuccess, qo, comm', x')"
  shows "traffic_inv C P Q cqo comm' (xw_w x')"
proof -
  have ok: "send_comm_ok C comm" "qps_ok comm" "cqs_wired cqo comm" "cq (devBase comm ! 0) \<noteq> cq (devBase comm ! 1)" "account P Q (SendComm comm) (xw_w x)"
    using inv by (auto simp: traffic_inv_def send_comm_ok_def account_def)
  have rdy: "ready comm" using isend_refused(1) [OF ok(1), of V data sz mh u x] run by fastforce
  show ?thesis
  proof (cases "fifoReqs comm ! send_slot C comm ! 0 = None")
    case False
    then have "comm' = comm \<and> x' = x" using isend_refused(2) [OF ok(1) rdy False, of V data sz mh u x] run by simp
    then show ?thesis using inv by simp
  next
    case True
    obtain q where q: "get_request_loop (reqs comm) 0 = Some q" using isend_refused(3) [OF ok(1) rdy True, of V data sz mh u x] run by fastforce
    let ?n = "send_width C comm"
    have a: "ndevs comm \<le> length (mrs mh)" "0 \<le> to_int32 sz" "to_int32 sz + 128 * int ?n < 2 ^ 31" using args by (simp_all add: send_args_ok_def)
    obtain wr0 rest s c r rs n where r: "\<And>i. signalled_ids (snd (chunk_post wr0 rest s c comm i)) = [word_of_nat q]"
        "(ncclSuccess, xw_w x') = post_all V (map (chunk_post wr0 rest s c comm) [0..<?n]) (xw_w x)"
        "req_ok r" "rq_type r = REQ_SEND" "nreqs r = 1" "\<forall>d<2. events r ! d = dev_posts (qps comm) (nqps comm) (qpIndex comm) ?n d"
        "comm' = comm\<lparr>remSizes_elems := rs, qpIndex := (qpIndex comm + ?n) mod nqps comm,
          reqs := (reqs comm)[q := r\<lparr>rq_part := SendPart (s\<lparr>snd_offset := n\<rparr>)\<rparr>],
          fifoReqs := (fifoReqs comm)[send_slot C comm := replicate NCCL_NET_IB_MAX_RECVS None], fifoHead := fifoHead comm + 1\<rparr>"
        "send_comm_ok C comm'" "q < length (reqs comm)" "rq_type (reqs comm ! q) = REQ_UNUSED"
      by (rule isend_success [OF ok(1) rdy a(1) True q a(2,3) run]) blast
    let ?r = "r\<lparr>rq_part := SendPart (s\<lparr>snd_offset := n\<rparr>)\<rparr>"
    let ?k = "\<lambda>d. length (filter (\<lambda>i. devIndex (qps comm ! ((qpIndex comm + i) mod nqps comm)) = d) [0..<?n])"
    have "account P Q (SendComm comm') (xw_w x')"
    proof (rule account_post [OF ok(5), where q = q and r = ?r and N = "\<lambda>d. replicate_mset (?k d) (SendWork (word_of_nat q))"])
      fix d :: nat assume d: "d < 2"
      show "events ?r ! d = int (size (replicate_mset (?k d) (SendWork (word_of_nat q))))" using r(6) d by (simp add: dev_posts_def)
      show "P (xw_w x') (cq (net_bases (SendComm comm) ! d)) = P (xw_w x) (cq (net_bases (SendComm comm) ! d)) + replicate_mset (?k d) (SendWork (word_of_nat q)) \<and>
          Q (xw_w x') (cq (net_bases (SendComm comm) ! d)) = Q (xw_w x) (cq (net_bases (SendComm comm) ! d))"
        using post_all_card [OF law r(2) [symmetric], of "cq (devBase comm ! d)"] posted_ids [OF r(1), where cqo = cqo and c = "cq (devBase comm ! d)" and js = "[0..<?n]"]
        by (simp add: chunk_cq [OF ok(2-4) d])
    qed (use r(3-5,7,9,10) in \<open>simp_all add: live_req_def part_ok_iff split: if_splits\<close>)
    then show ?thesis using r(8) ok(3) unfolding r(7) traffic_inv_def by (simp add: cqs_wired_def)
  qed
qed

lemma traffic_reaches:
  assumes law: "card_law V P Q cqo"
  shows "traffic C V P Q cqo comm x \<Longrightarrow> traffic_inv C P Q cqo comm (xw_w x)"
proof (induction rule: traffic.induct)
  case (fresh comm x)
  then show ?case by (rule traffic_inv_fresh)
next
  case (send comm x sz mh data u qo comm' x')
  show ?case by (rule traffic_send [OF law send.IH send.hyps(2,3)])
next
  case (test comm x q want dn out comm' x')
  then show ?case using traffic_test [OF law test.IH test.hyps(2), of want] by auto
next
  case (card comm x w')
  then show ?case using account_card by (auto simp: traffic_inv_def)
qed

lemma isend_defined:
  assumes "send_comm_ok C comm" "send_args_ok C comm sz mh"
  shows "\<exists>res qo comm' x'. anpNetIsend C V data sz mh u comm x = Some (res, qo, comm', x')"
proof (cases "ready comm \<and> fifoReqs comm ! send_slot C comm ! 0 = None \<and> get_request_loop (reqs comm) 0 \<noteq> None")
  case False
  then show ?thesis using isend_refused [OF assms(1), of V data sz mh u x] 
    by (cases "ready comm"; cases "fifoReqs comm ! send_slot C comm ! 0 = None") auto
next
  case True
  then obtain q where q: "get_request_loop (reqs comm) 0 = Some q" by auto
  have a: "ndevs comm \<le> length (mrs mh)" "0 \<le> to_int32 sz" "to_int32 sz + 128 * int (send_width C comm) < 2 ^ 31"
    using assms(2) by (simp_all add: send_args_ok_def)
  obtain wr0 rest nw where pw: "prepare_wrs C u (ar comm) (to_int32 sz) (word_of_nat q) = (wr0, rest, nw)"
    by (cases "prepare_wrs C u (ar comm) (to_int32 sz) (word_of_nat q)")
  have n: "1 \<le> int (send_width C comm)" using assms(1) by (auto simp: send_comm_ok_def qps_ok_def send_width_def)
  obtain c where c: "chunk_size (to_int32 sz) (int (send_width C comm)) = Some c" "0 \<le> c" "int (send_width C comm) * c < to_int32 sz + 128 * int (send_width C comm)"
    using chunk_size_ok [OF a(2) n a(3)] by blast
  show ?thesis
    by (rule isend_runs [OF assms(1) _ a(1) _ q a(2,3) pw c, where V = V and data = data and x = x]) (use True in \<open>blast+\<close>)
qed

subsection \<open>The life of a send communicator\<close>


lemma card_fresh: "fresh_traffic demo_cfg card_pending snd qp_ptr demo_send (xw_w card_xw)"
  unfolding fresh_traffic_def idle_def
proof (intro conjI)
  show "cqs_wired qp_ptr demo_send" by code_simp
  show "list_all (\<lambda>r. rq_type r = REQ_UNUSED \<and> events r = [0, 0]) (fst (net_state (SendComm demo_send)))" by code_simp
  show "length (net_bases (SendComm demo_send)) = 2" "cq (net_bases (SendComm demo_send) ! 0) \<noteq> cq (net_bases (SendComm demo_send) ! 1)" by code_simp+
qed (simp_all add: demo_send_ok card_pending_def card_xw_def)


end
