(* ===== verification/Arrivals.thy ===== *)
theory Arrivals
  imports Card
begin

text \<open>
  A receive communicator over its whole life: receives of both kinds, flushes and tests of requests in any order, interleaved
  with the work of the card.  The functions are those of Receive and Completion.  The communicator is over one device, the case
  in which a clear-to-send stays inside its element.  A call that returns an error, or a receive that hands out no request,
  ends the run: its request is freed with events left.
\<close>

subsection \<open>Runs\<close>

text \<open>The queue pair for flushes is created and reports to the queue of its device.\<close>

definition flush_wired :: "xcfg \<Rightarrow> (ibv_qp \<Rightarrow> cq_ptr) \<Rightarrow> ncclIbRecvComm \<Rightarrow> bool" where
  "flush_wired C cqo comm \<longleftrightarrow> (flushEnabled comm \<longrightarrow> (\<exists>g gs p. gpuFlush comm = g # gs \<and> qp (fl_qp g) = Some p \<and> cqo p = cq (devBase comm ! 0) \<and>
     (flushNoRelaxed C \<longrightarrow> gpuMr g \<noteq> None)))"

definition fresh_arrivals :: "xcfg \<Rightarrow> ('w \<Rightarrow> cq_ptr \<Rightarrow> work multiset) \<Rightarrow> ('w \<Rightarrow> cq_ptr \<Rightarrow> ibv_wc list) \<Rightarrow> (ibv_qp \<Rightarrow> cq_ptr) \<Rightarrow> ncclIbRecvComm \<Rightarrow> 'w \<Rightarrow> bool" where
  "fresh_arrivals C P Q cqo comm w \<longleftrightarrow> recv_comm_ok C comm \<and> ndevs comm = 1 \<and> cqs_wired cqo comm \<and> flush_wired C cqo comm \<and> idle P Q (RecvComm comm) w"

text \<open>What the caller guarantees of the arguments of a flush.\<close>

definition flush_args_ok :: "u64 list \<Rightarrow> int list \<Rightarrow> ncclIbMrHandle list \<Rightarrow> bool" where
  "flush_args_ok data sizes mhs \<longleftrightarrow> length sizes \<le> length data \<and> length sizes \<le> length mhs \<and> (\<forall>j<length mhs. mrs (mhs ! j) \<noteq> [])"

inductive arrivals :: "xcfg \<Rightarrow> 'w data_verbs \<Rightarrow> ('w \<Rightarrow> cq_ptr \<Rightarrow> work multiset) \<Rightarrow> ('w \<Rightarrow> cq_ptr \<Rightarrow> ibv_wc list) \<Rightarrow> (ibv_qp \<Rightarrow> cq_ptr) \<Rightarrow> ncclIbRecvComm \<Rightarrow> 'w xw \<Rightarrow> bool"
  for C V P Q cqo where
  fresh: "fresh_arrivals C P Q cqo comm (xw_w x) \<Longrightarrow> arrivals C V P Q cqo comm x"
| receive: "arrivals C V P Q cqo comm x \<Longrightarrow> recv_args_ok n data sizes tags mhs \<Longrightarrow>
    anpNetIrecv C V opt n data sizes tags mhs comm x = Some (ncclSuccess, Some q, comm', x') \<Longrightarrow> arrivals C V P Q cqo comm' x'"
| flush: "arrivals C V P Q cqo comm x \<Longrightarrow> flush_args_ok data fsizes mhs \<Longrightarrow>
    anpNetFlush C V data fsizes mhs comm x = Some (ncclSuccess, qo, comm', x') \<Longrightarrow> arrivals C V P Q cqo comm' x'"
| test: "arrivals C V P Q cqo comm x \<Longrightarrow> q < length (reqs comm) \<Longrightarrow> anpNetTest C V want q (RecvComm comm) x = Some (ncclSuccess, dn, out, RecvComm comm', x') \<Longrightarrow>
    arrivals C V P Q cqo comm' x'"
| card: "arrivals C V P Q cqo comm x \<Longrightarrow> card_completes P Q (xw_w x) w' \<Longrightarrow> arrivals C V P Q cqo comm (x\<lparr>xw_w := w'\<rparr>)"

definition arrivals_inv :: "xcfg \<Rightarrow> ('w \<Rightarrow> cq_ptr \<Rightarrow> work multiset) \<Rightarrow> ('w \<Rightarrow> cq_ptr \<Rightarrow> ibv_wc list) \<Rightarrow> (ibv_qp \<Rightarrow> cq_ptr) \<Rightarrow> ncclIbRecvComm \<Rightarrow> 'w \<Rightarrow> bool" where
  "arrivals_inv C P Q cqo comm w \<longleftrightarrow> recv_comm_ok C comm \<and> ndevs comm = 1 \<and> cqs_wired cqo comm \<and> flush_wired C cqo comm \<and> account P Q (RecvComm comm) w"

lemma arrivals_inv_fresh: "fresh_arrivals C P Q cqo comm w \<Longrightarrow> arrivals_inv C P Q cqo comm w"
  unfolding arrivals_inv_def fresh_arrivals_def by (auto simp: recv_comm_ok_def intro: account_idle)

subsection \<open>A test\<close>

lemma lengths_eq: "map length xs = map length ys \<Longrightarrow> list_all (\<lambda>r. length r = k) xs = list_all (\<lambda>r. length r = k) ys"
  using list.pred_map [of "\<lambda>n. n = k" length xs] list.pred_map [of "\<lambda>n. n = k" length ys] by (simp add: comp_def)

lemma arrivals_test:
  assumes law: "card_law V P Q cqo" and inv: "arrivals_inv C P Q cqo comm (xw_w x)" and q: "q < length (reqs comm)"
  shows "\<exists>dn out comm' x'. anpNetTest C V want q (RecvComm comm) x = Some (ncclSuccess, dn, out, RecvComm comm', x') \<and>
    arrivals_inv C P Q cqo comm' (xw_w x') \<and> dn = (\<forall>d<2. outstanding (P (xw_w x) (cq (devBase comm ! d))) q = 0) \<and>
    (dn \<longrightarrow> rq_type (reqs comm' ! q) = REQ_UNUSED)"
proof -
  have acc: "account P Q (RecvComm comm) (xw_w x)" using inv by (simp add: arrivals_inv_def)
  obtain dn out rs sz x' where t: "anpNetTest C V want q (RecvComm comm) x = Some (ncclSuccess, dn, out, RecvComm (comm\<lparr>reqs := rs, sizesFifo := sz\<rparr>), x')"
      "account P Q (RecvComm (comm\<lparr>reqs := rs, sizesFifo := sz\<rparr>)) (xw_w x')" "length rs = length (reqs comm)" "map length sz = map length (sizesFifo comm)"
      "dn = (\<forall>d<2. outstanding (P (xw_w x) (cq (devBase comm ! d))) q = 0)" "dn \<Longrightarrow> rq_type (rs ! q) = REQ_UNUSED"
    by (rule account_test [OF law acc, of q C want, simplified]) (use q in auto)
  let ?c = "comm\<lparr>reqs := rs, sizesFifo := sz\<rparr>"
  have "list_all req_ok rs" using t(2) by (auto simp: account_def live_req_def part_ok_iff list_all_iff)
  moreover have "length sz = length (sizesFifo comm)" using t(4) by (rule map_eq_imp_length_eq)
  ultimately have "recv_comm_ok C ?c" using inv t(3) lengths_eq [OF t(4)] by (auto simp: arrivals_inv_def recv_comm_ok_def qps_ok_def)
  then have "arrivals_inv C P Q cqo ?c (xw_w x')" using inv t(2) by (simp add: arrivals_inv_def cqs_wired_def flush_wired_def)
  then show ?thesis using t by (intro exI [of _ dn] exI [of _ out] exI [of _ ?c] exI [of _ x']) simp
qed

subsection \<open>A receive\<close>

lemma irecv_steps:
  assumes run: "anpNetIrecv C V opt n data sizes tags mhs comm x = Some (ncclSuccess, Some q, comm', x')" and nd: "ndevs comm = 1"
  obtains comm2 x1 where "get_request_loop (reqs comm) 0 = Some q"
    and "post_recvs C V q (if opt then 0 else send_width C comm) (comm\<lparr>reqs := (reqs comm)[q := fresh_recv n 1 (reqs comm ! q)]\<rparr>) x = Some (True, comm2, x1)"
    and "ncclIbPostFifo C V n data sizes tags mhs q comm2 x1 = Some (ncclSuccess, comm', x')"
proof -
  have g: "ready comm" "n \<le> NCCL_NET_IB_MAX_RECVS" "get_request_loop (reqs comm) 0 \<noteq> None"
    using run by (auto simp: anpNetIrecv_def anpNetIrecvDefault_def anpNetIrecvPostCTS_def ncclIbGetRequest_def split: if_splits option.splits)
  then obtain q0 where q0: "get_request_loop (reqs comm) 0 = Some q0" by blast
  let ?comm1 = "comm\<lparr>reqs := (reqs comm)[q0 := fresh_recv n 1 (reqs comm ! q0)]\<rparr>"
  obtain comm0 where st: "ncclIbGetRequest comm = (ncclSuccess, Some q0, comm0)" "set_req q0 (new_recv n (ndevs comm0)) comm0 = Some ?comm1"
    using start_recv [OF q0, of n] nd by auto
  have sw: "send_width C ?comm1 = send_width C comm" by (simp add: send_width_def)
  show thesis
  proof (cases opt)
    case True
    then have "ncclIbPostFifo C V n data sizes tags mhs q0 ?comm1 x = Some (ncclSuccess, comm', x') \<and> q = q0"
      using run g(1,2) st by (auto simp: anpNetIrecv_def anpNetIrecvPostCTS_def split: Option.bind_splits if_splits)
    then show thesis using that q0 True by auto
  next
    case False
    then obtain comm2 x1 where "post_recvs C V q0 (send_width C comm) ?comm1 x = Some (True, comm2, x1)"
        "ncclIbPostFifo C V n data sizes tags mhs q0 comm2 x1 = Some (ncclSuccess, comm', x')" "q = q0"
      using run g(1,2) st sw by (auto simp: anpNetIrecv_def anpNetIrecvDefault_def split: Option.bind_splits if_splits)
    then show thesis using that q0 False by auto
  qed
qed

lemma post_recvs_card:
  assumes law: "card_law V P Q cqo"
  shows "post_recvs C V q n comm x = Some (True, comm', x') \<Longrightarrow> qpIndex comm < length (qps comm) \<Longrightarrow> qp (cur_qp comm) = Some p \<Longrightarrow>
    Q (xw_w x') = Q (xw_w x) \<and> P (xw_w x') = (P (xw_w x))(cqo p := P (xw_w x) (cqo p) + replicate_mset n (RecvWork (word_of_nat q)))"
proof (induction n arbitrary: comm x)
  case 0
  then show ?case by simp
next
  case (Suc n)
  obtain comm1 where c1: "set_req q (ncclIbAddEvent (devIndex (cur_qp comm))) comm = Some comm1"
    using Suc.prems by (auto simp: ub_simps cur_qp_def split: Option.bind_splits)
  obtain res w where w: "v_post_recv V p (word_of_nat q) (xw_w x) = (res, w)" by fastforce
  let ?x = "tele C [T_increment_num_recv_wqe (qp_num p)] (Sending.count C (\<lambda>d. d\<lparr>num_recv_wqe := num_recv_wqe d + 1\<rparr>) (x\<lparr>xw_w := w\<rparr>))"
  have r: "res = ncclSuccess" "post_recvs C V q n comm1 ?x = Some (True, comm', x')"
    using Suc.prems c1 w by (auto simp: ub_simps cur_qp_def Let_def split: if_splits)
  have "Q w = Q (xw_w x) \<and> P w = (P (xw_w x))(cqo p := P (xw_w x) (cqo p) + {#RecvWork (word_of_nat q)#})"
    using law w unfolding card_law_def r(1) by blast
  moreover have "qpIndex comm1 < length (qps comm1)" "qp (cur_qp comm1) = Some p" using set_req_frame [OF c1] Suc.prems(2,3) by (auto simp: cur_qp_def)
  note Suc.IH [OF r(2) this]
  ultimately show ?case by (simp add: fun_eq_iff)
qed

text \<open>The events of a request that was posted: its receives and its clear-to-send, all on the only device.\<close>

lemma recv_events: "devIndex e = 0 \<Longrightarrow> events (cts_req C comm e (expect 0 k (fresh_recv n 1 r))) = [int k + (if cts_signalled C comm e then 1 else 0), 0]"
  by (simp add: cts_req_def Let_def expect_def fresh_recv_def)

lemma cts_wr_ids: "signalled_ids [cts_wr C comm e q] = (if cts_signalled C comm e then [word_of_nat q] else [])"
  by (simp add: signalled_ids_def cts_wr_def Let_def zero_wr_def)

definition recv_work :: "nat \<Rightarrow> bool \<Rightarrow> nat \<Rightarrow> nat \<Rightarrow> work multiset" where
  "recv_work k sig q d = (if d = 0 then replicate_mset k (RecvWork (word_of_nat q)) + (if sig then {#SendWork (word_of_nat q)#} else {#}) else {#})"

lemma irecv_effect:
  assumes law: "card_law V P Q cqo" and ok: "recv_comm_ok C comm" "ndevs comm = 1" and wired: "cqs_wired cqo comm" "cq (devBase comm ! 0) \<noteq> cq (devBase comm ! 1)"
    and args: "recv_args_ok n data sizes tags mhs" and run: "anpNetIrecv C V opt n data sizes tags mhs comm x = Some (ncclSuccess, Some q, comm', x')"
  obtains r k sig srow row g where "get_request_loop (reqs comm) 0 = Some q"
    and "comm' = comm\<lparr>reqs := (reqs comm)[q := r], sizesFifo := (sizesFifo comm)[cts_slot C comm := srow], remFifo_elems := (remFifo_elems comm)[cts_slot C comm := row],
      fifoSge := (fifoSge comm)[0 := g], fifoTail := fifoTail comm + 1, qpIndex := (qpIndex comm + 1) mod nqps comm\<rparr>"
    and "length srow = 8" "length row = 8" "list_all (\<lambda>e. length (f_rkeys e) = 1) row"
    and "req_ok r" "rq_type r = REQ_RECV" "nreqs r = int n" "rq_part r = RecvPart (cts_slot C comm)" "events r = [int k + (if sig then 1 else 0), 0]"
    and "\<forall>d<2. P (xw_w x') (cq (devBase comm ! d)) = P (xw_w x) (cq (devBase comm ! d)) + recv_work k sig q d" "Q (xw_w x') = Q (xw_w x)"
proof -
  define k where "k = (if opt then 0 else send_width C comm)"
  let ?r = "fresh_recv n 1 (reqs comm ! q)" and ?e = "cur_qp comm"
  let ?comm1 = "comm\<lparr>reqs := (reqs comm)[q := ?r]\<rparr>" and ?comm2 = "comm\<lparr>reqs := (reqs comm)[q := expect 0 k ?r]\<rparr>"
  obtain comm2 x1 where s: "get_request_loop (reqs comm) 0 = Some q" "post_recvs C V q k ?comm1 x = Some (True, comm2, x1)"
      "ncclIbPostFifo C V n data sizes tags mhs q comm2 x1 = Some (ncclSuccess, comm', x')"
    by (rule irecv_steps [OF run ok(2)]) (simp add: k_def)
  have q: "q < length (reqs comm)" "q < MAX_REQUESTS C" using get_request_loop_SomeD [OF s(1)] ok(1) by (auto simp: recv_comm_ok_def)
  have e: "qpIndex comm < length (qps comm)" "devIndex ?e = 0" "qp ?e \<noteq> None" "cqo (the (qp ?e)) = cq (devBase comm ! 0)"
    using ok wired(1) by (auto simp: recv_comm_ok_def qps_ok_def cur_qp_def cqs_wired_def)
  then obtain p where p: "qp ?e = Some p" "cqo p = cq (devBase comm ! 0)" by auto
  have ev0: "events ?r = [0, 0]" "length (devBases ?r) = 2" by (simp_all add: fresh_recv_def)
  have "comm2 = ?comm1\<lparr>reqs := (reqs ?comm1)[q := expect 0 k (reqs ?comm1 ! q)]\<rparr>"
    using post_recvs_runs [of ?comm1 ?e p q C V k x] s(2) e p q ev0 by (auto simp: cur_qp_def)
  then have c2: "comm2 = ?comm2" using q by simp
  have rok: "req_ok (expect 0 k ?r)" using ev0 fresh_recv_ok [of 1 n "reqs comm ! q"] by (intro expect_ok) auto
  have ok2: "recv_comm_ok C ?comm2" by (rule recv_comm_ok_reqs [OF ok(1) rok])
  have f: "qps ?comm2 ! qpIndex ?comm2 = ?e" "cts_slot C ?comm2 = cts_slot C comm" "cts_signalled C ?comm2 ?e = cts_signalled C comm ?e"
    by (simp_all add: cur_qp_def cts_slot_def cts_signalled_def)
  obtain res w where w: "v_post_send V (the (qp ?e)) [cts_wr C ?comm2 ?e q] (xw_w x1) = (res, w)" by fastforce
  have nd2: "ndevs ?comm2 = 1" using ok(2) by simp
  obtain comm3 x2 row srow g where pf: "ncclIbPostFifo C V n data sizes tags mhs q ?comm2 x1 = Some (res, comm3, x2)" "xw_w x2 = w"
     "comm3 = ?comm2\<lparr>reqs := (reqs ?comm2)[q := cts_req C ?comm2 ?e (reqs ?comm2 ! q)], sizesFifo := (sizesFifo ?comm2)[cts_slot C comm := srow],
        remFifo_elems := (remFifo_elems ?comm2)[cts_slot C comm := row], fifoSge := (fifoSge ?comm2)[devIndex ?e := g],
        fifoTail := (if res = ncclSuccess then fifoTail ?comm2 + 1 else fifoTail ?comm2),
        qpIndex := (if res = ncclSuccess then (qpIndex ?comm2 + 1) mod nqps ?comm2 else qpIndex ?comm2)\<rparr>"
     "length srow = NCCL_NET_IB_MAX_RECVS" "length row = NCCL_NET_IB_MAX_RECVS" "list_all (\<lambda>e. length (f_rkeys e) = 1) row"
    using post_fifo_runs [OF ok2 nd2 args q(2), unfolded f(1,2), OF w] by blast
  have eq: "res = ncclSuccess" "comm3 = comm'" "x2 = x'" using pf(1) s(3) c2 by auto
  let ?R = "cts_req C ?comm2 ?e (expect 0 k ?r)"
  have w1: "Q w = Q (xw_w x1) \<and> P w = (P (xw_w x1))(cqo p := P (xw_w x1) (cqo p) + mset (map SendWork (signalled_ids [cts_wr C ?comm2 ?e q])))"
    using law w unfolding card_law_def eq(1) p(1) option.sel by blast
  have w0: "Q (xw_w x1) = Q (xw_w x) \<and> P (xw_w x1) = (P (xw_w x))(cqo p := P (xw_w x) (cqo p) + replicate_mset k (RecvWork (word_of_nat q)))"
    using post_recvs_card [OF law s(2), of p] e(1) p(1) by (simp add: cur_qp_def)
  show thesis
  proof (rule that [where r = ?R and srow = srow and row = row and g = g and k = k and sig = "cts_signalled C comm ?e"])
    show "req_ok ?R" using rok e(2) by (intro cts_req_ok) auto
    show "rq_type ?R = REQ_RECV" "nreqs ?R = int n" by (simp_all add: fresh_recv_def)
    show "events ?R = [int k + (if cts_signalled C comm ?e then 1 else 0), 0]" using recv_events [OF e(2), of C ?comm2 k n "reqs comm ! q"] f(3) by simp
    show "\<forall>d<2. P (xw_w x') (cq (devBase comm ! d)) = P (xw_w x) (cq (devBase comm ! d)) + recv_work k (cts_signalled C comm ?e) q d"
      using w0 w1 pf(2) eq(3) p(2) wired(2) f(3) by (auto simp: recv_work_def cts_wr_ids less_2_cases_iff)
  qed (use s(1) pf eq q e(2) f(2) w0 w1 in \<open>simp_all add: NCCL_NET_IB_MAX_RECVS_def\<close>)
qed

lemma arrivals_receive:
  assumes law: "card_law V P Q cqo" and inv: "arrivals_inv C P Q cqo comm (xw_w x)" and args: "recv_args_ok n data sizes tags mhs"
    and run: "anpNetIrecv C V opt n data sizes tags mhs comm x = Some (ncclSuccess, Some q, comm', x')"
  shows "arrivals_inv C P Q cqo comm' (xw_w x')"
proof -
  have ok: "recv_comm_ok C comm" "ndevs comm = 1" "cqs_wired cqo comm" "flush_wired C cqo comm" "account P Q (RecvComm comm) (xw_w x)"
    "cq (devBase comm ! 0) \<noteq> cq (devBase comm ! 1)" using inv by (auto simp: arrivals_inv_def account_def)
  obtain r k sig srow row g where e: "get_request_loop (reqs comm) 0 = Some q"
    "comm' = comm\<lparr>reqs := (reqs comm)[q := r], sizesFifo := (sizesFifo comm)[cts_slot C comm := srow], remFifo_elems := (remFifo_elems comm)[cts_slot C comm := row],
      fifoSge := (fifoSge comm)[0 := g], fifoTail := fifoTail comm + 1, qpIndex := (qpIndex comm + 1) mod nqps comm\<rparr>"
    "length srow = 8" "length row = 8" "list_all (\<lambda>e. length (f_rkeys e) = 1) row"
    "req_ok r" "rq_type r = REQ_RECV" "nreqs r = int n" "rq_part r = RecvPart (cts_slot C comm)" "events r = [int k + (if sig then 1 else 0), 0]"
    "\<forall>d<2. P (xw_w x') (cq (devBase comm ! d)) = P (xw_w x) (cq (devBase comm ! d)) + recv_work k sig q d" "Q (xw_w x') = Q (xw_w x)"
    by (rule irecv_effect [OF law ok(1-3,6) args run])
  have q: "q < length (reqs comm)" "rq_type (reqs comm ! q) = REQ_UNUSED" using get_request_loop_SomeD [OF e(1)] by auto
  have slot: "cts_slot C comm < length (sizesFifo comm)" using ok(1) cts_slot_less by (simp add: recv_comm_ok_def)
  have "length (sizesFifo comm ! cts_slot C comm) = 8" using ok(1) slot by (simp add: recv_comm_ok_def list_all_length NCCL_NET_IB_MAX_RECVS_def)
  then have ml: "map length ((sizesFifo comm)[cts_slot C comm := srow]) = map length (sizesFifo comm)" using e(3) slot by (simp add: map_update list_update_same_conv)
  have "account P Q (RecvComm comm') (xw_w x')"
  proof (rule account_post [OF ok(5), where q = q and r = r and N = "recv_work k sig q"])
    show "live_req (snd (net_state (RecvComm comm'))) r" using e(2,3,6-9) slot args by (simp add: live_req_def part_ok_iff recv_args_ok_def NCCL_NET_IB_MAX_RECVS_def)
    fix d :: nat assume d: "d < 2"
    show "events r ! d = int (size (recv_work k sig q d))" using d e(10) by (auto simp: recv_work_def less_2_cases_iff)
    show "belongs (fst (net_state (RecvComm comm'))) q k'" if "k' \<in># recv_work k sig q d" for k'
      using that e(2,7) q(1) by (cases k') (auto simp: recv_work_def split: if_splits)
  qed (use q ml e(2,11,12) in simp_all)
  moreover have "recv_comm_ok C comm'" unfolding e(2) using recv_comm_ok_posted [OF ok(1) e(6,3-5), where b = True] by simp
  ultimately show ?thesis using ok(2-4) unfolding arrivals_inv_def by (simp add: e(2) cqs_wired_def flush_wired_def)
qed

subsection \<open>A flush\<close>

text \<open>The request of a flush.\<close>

definition flush_req :: "ncclIbRequest \<Rightarrow> ncclIbRequest" where
  "flush_req r = r\<lparr>rq_type := REQ_FLUSH, events := [1, 0], devBases := [Some 0, None]\<rparr>"

lemma last_nonzero_bound: "(\<And>a. acc = Some a \<Longrightarrow> a < i + length ss) \<Longrightarrow> last_nonzero ss i acc = Some l \<Longrightarrow> l < i + length ss"
proof (induction ss arbitrary: i acc)
  case (Cons s ss)
  show ?case using Cons.IH [of "if s \<noteq> 0 then Some i else acc" "Suc i"] Cons.prems by (auto split: if_splits)
qed auto

text \<open>The two work requests of a flush, the first of which is unsignalled and only posted with relaxed ordering off.\<close>

definition flush_posts :: "xcfg \<Rightarrow> 'w data_verbs \<Rightarrow> ibv_qp \<Rightarrow> ibv_send_wr \<Rightarrow> 'w \<Rightarrow> ncclResult \<times> 'w" where
  "flush_posts C V p wr w = (case (if flushNoRelaxed C then v_post_send V p [wr] w else (ncclSuccess, w)) of (res, w) \<Rightarrow>
     if res \<noteq> ncclSuccess then (res, w) else v_post_send V p [wr\<lparr>opcode := IBV_WR_RDMA_READ, send_flags := [IBV_SEND_SIGNALED]\<rparr>] w)"

lemma flush_runs:
  assumes ok: "recv_comm_ok C comm" "ndevs comm = 1" "flush_wired C cqo comm" and args: "flush_args_ok data sizes mhs"
    and en: "last_nonzero sizes 0 None \<noteq> None" "flushEnabled comm" and q: "get_request_loop (reqs comm) 0 = Some q"
  obtains p wr c where "cqo p = cq (devBase comm ! 0)" "wr_id wr = word_of_nat q" "send_flags wr = []"
    and "anpNetFlush C V data sizes mhs comm x = (case flush_posts C V p wr (xw_w x) of (res, w) \<Rightarrow>
      if res \<noteq> ncclSuccess then Some (res, None, c, x\<lparr>xw_w := w\<rparr>)
      else Some (ncclSuccess, Some q, comm\<lparr>reqs := (reqs comm)[q := flush_req (reqs comm ! q)]\<rparr>, x\<lparr>xw_w := w\<rparr>))"
proof -
  obtain l where l: "last_nonzero sizes 0 None = Some l" using en(1) by blast
  have "l < length sizes" using last_nonzero_bound [of None 0 sizes l] l by simp
  then have m: "l < length data" "l < length mhs" "mrs (mhs ! l) \<noteq> []" using args by (auto simp: flush_args_ok_def)
  obtain g gs p where g: "gpuFlush comm = g # gs" "qp (fl_qp g) = Some p" "cqo p = cq (devBase comm ! 0)" "flushNoRelaxed C \<longrightarrow> gpuMr g \<noteq> None"
    using ok(3) en(2) by (auto simp: flush_wired_def)
  obtain a k where ak: "(if flushNoRelaxed C then do { m \<leftarrow> gpuMr g; Some (gpuFlushGpuMem g, rkey m) }
      else do { m \<leftarrow> arr_get (mrs (mhs ! l)) 0; Some (data ! l, rkey m) }) = Some (a, k)"
    using g(4) m(3) by (cases "flushNoRelaxed C") (auto simp: ub_simps)
  have qM: "q < length (reqs comm)" using get_request_loop_SomeD [OF q] by auto
  let ?comm1 = "comm\<lparr>reqs := (reqs comm)[q := (reqs comm ! q)\<lparr>devBases := [None, None], events := [0, 0], rq_type := REQ_FLUSH\<rparr>]\<rparr>"
  have g0: "ncclIbGetRequest comm = (ncclSuccess, Some q, comm\<lparr>reqs := (reqs comm)[q := (reqs comm ! q)\<lparr>devBases := [None, None], events := [0, 0]\<rparr>]\<rparr>)"
    using q by (simp add: ncclIbGetRequest_def)
  have ae: "set_req q (ncclIbAddEvent 0) ?comm1 = Some (comm\<lparr>reqs := (reqs comm)[q := flush_req (reqs comm ! q)]\<rparr>)"
    using qM by (simp add: set_req_def ub_simps ncclIbAddEvent_def flush_req_def)
  have fd: "flush_devs C V q (data ! l) (mhs ! l) 0 1 ?comm1 x = (case flush_posts C V p (flush_wr q g a k) (xw_w x) of (res, w) \<Rightarrow>
      if res \<noteq> ncclSuccess then Some (res, ?comm1, x\<lparr>xw_w := w\<rparr>) else Some (ncclSuccess, comm\<lparr>reqs := (reqs comm)[q := flush_req (reqs comm ! q)]\<rparr>, x\<lparr>xw_w := w\<rparr>))"
    using g ak ae by (auto simp: flush_posts_def ub_simps Let_def split: prod.splits if_splits)
  obtain res w where fp: "flush_posts C V p (flush_wr q g a k) (xw_w x) = (res, w)" by fastforce
  have "anpNetFlush C V data sizes mhs comm x = (case flush_posts C V p (flush_wr q g a k) (xw_w x) of (res, w) \<Rightarrow>
      if res \<noteq> ncclSuccess then Some (res, None, ?comm1, x\<lparr>xw_w := w\<rparr>)
      else Some (ncclSuccess, Some q, comm\<lparr>reqs := (reqs comm)[q := flush_req (reqs comm ! q)]\<rparr>, x\<lparr>xw_w := w\<rparr>))"
    using l en(2) g0 qM m(1,2) ok(2) fd [unfolded fp prod.case] unfolding fp prod.case
    by (cases "res = ncclSuccess") (simp_all add: anpNetFlush_def set_req_def ub_simps del: flush_devs.simps One_nat_def)
  then show thesis using g(3) by (rule that [rotated 3]) (simp_all add: flush_wr_def zero_wr_def)
qed

lemma flush_skipped:
  assumes "last_nonzero sizes 0 None = None \<or> \<not> flushEnabled comm \<or> get_request_loop (reqs comm) 0 = None"
  shows "\<exists>res. anpNetFlush C V data sizes mhs comm x = Some (res, None, comm, x)"
  using assms by (auto simp: anpNetFlush_def ncclIbGetRequest_def split: option.splits)

lemma flush_posts_card:
  assumes "card_law V P Q cqo" "flush_posts C V p wr w = (ncclSuccess, w')" "send_flags wr = []"
  shows "Q w' = Q w \<and> P w' = (P w)(cqo p := P w (cqo p) + {#SendWork (wr_id wr)#})"
proof -
  have ps: "v_post_send V p ch w0 = (ncclSuccess, w1) \<Longrightarrow> Q w1 = Q w0 \<and> P w1 = (P w0)(cqo p := P w0 (cqo p) + mset (map SendWork (signalled_ids ch)))" for ch w0 w1
    using assms(1) unfolding card_law_def by blast
  show ?thesis using assms(2,3) by (auto simp: flush_posts_def signalled_ids_def dest!: ps split: prod.splits if_splits)
qed

lemma arrivals_flush:
  assumes law: "card_law V P Q cqo" and inv: "arrivals_inv C P Q cqo comm (xw_w x)" and args: "flush_args_ok data sizes mhs"
    and run: "anpNetFlush C V data sizes mhs comm x = Some (ncclSuccess, qo, comm', x')"
  shows "arrivals_inv C P Q cqo comm' (xw_w x')"
proof (cases "last_nonzero sizes 0 None = None \<or> \<not> flushEnabled comm \<or> get_request_loop (reqs comm) 0 = None")
  case True
  then show ?thesis using flush_skipped [OF True, of C V data mhs x] run inv by auto
next
  case False
  then obtain q where q: "get_request_loop (reqs comm) 0 = Some q" by blast
  have ok: "recv_comm_ok C comm" "ndevs comm = 1" "flush_wired C cqo comm" "cqs_wired cqo comm" "account P Q (RecvComm comm) (xw_w x)"
    "cq (devBase comm ! 0) \<noteq> cq (devBase comm ! 1)" using inv by (auto simp: arrivals_inv_def account_def)
  let ?r = "flush_req (reqs comm ! q)"
  obtain p wr c where f: "cqo p = cq (devBase comm ! 0)" "wr_id wr = word_of_nat q" "send_flags wr = []"
    "anpNetFlush C V data sizes mhs comm x = (case flush_posts C V p wr (xw_w x) of (res, w) \<Rightarrow>
      if res \<noteq> ncclSuccess then Some (res, None, c, x\<lparr>xw_w := w\<rparr>)
      else Some (ncclSuccess, Some q, comm\<lparr>reqs := (reqs comm)[q := ?r]\<rparr>, x\<lparr>xw_w := w\<rparr>))"
    by (rule flush_runs [OF ok(1-3) args _ _ q, of V x]) (use False in auto)
  then have e: "flush_posts C V p wr (xw_w x) = (ncclSuccess, xw_w x')" "comm' = comm\<lparr>reqs := (reqs comm)[q := ?r]\<rparr>" using run by (auto split: prod.splits if_splits)
  note w = flush_posts_card [OF law e(1) f(3), unfolded f(1,2)]
  have qr: "q < length (reqs comm)" "rq_type (reqs comm ! q) = REQ_UNUSED" using get_request_loop_SomeD [OF q] by auto
  have rok: "req_ok ?r" by (auto simp: flush_req_def req_ok_def less_2_cases_iff)
  have "account P Q (RecvComm comm') (xw_w x')"
    by (rule account_post [OF ok(5), where q = q and r = ?r and N = "\<lambda>d. if d = 0 then {#SendWork (word_of_nat q)#} else {#}"])
      (use e(2) w qr rok ok(6) in \<open>auto simp: live_req_def part_ok_iff flush_req_def less_2_cases_iff split: if_splits\<close>)
  moreover have "recv_comm_ok C comm'" unfolding e(2) by (rule recv_comm_ok_reqs [OF ok(1) rok])
  ultimately show ?thesis using ok(2-4) unfolding arrivals_inv_def by (simp add: e(2) cqs_wired_def flush_wired_def)
qed

subsection \<open>The life of a receive communicator\<close>

lemma arrivals_reaches:
  assumes law: "card_law V P Q cqo"
  shows "arrivals C V P Q cqo comm x \<Longrightarrow> arrivals_inv C P Q cqo comm (xw_w x)"
proof (induction rule: arrivals.induct)
  case (fresh comm x)
  then show ?case by (rule arrivals_inv_fresh)
next
  case (receive comm x n data sizes tags mhs opt q comm' x')
  show ?case by (rule arrivals_receive [OF law receive.IH receive.hyps(2,3)])
next
  case (flush comm x data fsizes mhs qo comm' x')
  show ?case by (rule arrivals_flush [OF law flush.IH flush.hyps(2,3)])
next
  case (test comm x q want dn out comm' x')
  then show ?case using arrivals_test [OF law test.IH test.hyps(2), of want] by auto
next
  case (card comm x w')
  then show ?case using account_card by (auto simp: arrivals_inv_def)
qed

lemma irecv_defined:
  assumes ok: "recv_comm_ok C comm" "ndevs comm = 1" and args: "recv_args_ok n data sizes tags mhs"
  shows "anpNetIrecv C V opt n data sizes tags mhs comm x \<noteq> None"
proof (cases "ready comm \<and> get_request_loop (reqs comm) 0 \<noteq> None")
  case False
  then show ?thesis by (auto simp: anpNetIrecv_def anpNetIrecvDefault_def anpNetIrecvPostCTS_def ncclIbGetRequest_def)
next
  case True
  then obtain q where q: "ready comm" "get_request_loop (reqs comm) 0 = Some q" by blast
  show ?thesis
  proof (cases opt)
    case False
    then show ?thesis using irecv_runs [OF ok(1) q(1) ok(2) args q(2), of V x] by (auto simp: anpNetIrecv_def)
  next
    case True
    let ?comm1 = "comm\<lparr>reqs := (reqs comm)[q := fresh_recv n 1 (reqs comm ! q)]\<rparr>"
    obtain comm0 where st: "ncclIbGetRequest comm = (ncclSuccess, Some q, comm0)" "set_req q (new_recv n (ndevs comm0)) comm0 = Some ?comm1"
      using start_recv [OF q(2), of n] ok(2) by auto
    have "q < MAX_REQUESTS C" using get_request_loop_SomeD [OF q(2)] ok(1) by (auto simp: recv_comm_ok_def)
    moreover have "recv_comm_ok C ?comm1" by (rule recv_comm_ok_reqs [OF ok(1) fresh_recv_ok]) simp
    moreover have "ndevs ?comm1 = 1" using ok(2) by simp
    ultimately obtain res comm2 x1 where "ncclIbPostFifo C V n data sizes tags mhs q ?comm1 x = Some (res, comm2, x1)"
      using post_fifo_runs [where comm = ?comm1 and x = x and V = V, OF _ _ args] by (metis surj_pair)
    then show ?thesis using True q(1) st args by (auto simp: anpNetIrecv_def anpNetIrecvPostCTS_def recv_args_ok_def)
  qed
qed

lemma flush_defined:
  assumes ok: "recv_comm_ok C comm" "ndevs comm = 1" "flush_wired C cqo comm" and args: "flush_args_ok data sizes mhs"
  shows "anpNetFlush C V data sizes mhs comm x \<noteq> None"
proof (cases "last_nonzero sizes 0 None = None \<or> \<not> flushEnabled comm \<or> get_request_loop (reqs comm) 0 = None")
  case True
  then show ?thesis using flush_skipped [OF True, of C V data mhs x] by auto
next
  case False
  then obtain q where q: "get_request_loop (reqs comm) 0 = Some q" by blast
  show ?thesis by (rule flush_runs [OF ok args _ _ q, of V x]) (use False in \<open>auto split: prod.splits\<close>)
qed

text \<open>
  C4: However receives, flushes, tests and the work of the card follow one another on an accepted connection over one device, no call is
  undefined, a test never reports an error, and it reports a request done exactly when the card has completed every receive, clear-to-send and
  flush that was posted for it; the request is then free.
\<close>

theorem receives_complete:
  assumes "card_law V P Q cqo" "arrivals C V P Q cqo comm x" "q < length (reqs comm)"
  shows "(\<exists>dn out comm' x'. anpNetTest C V want q (RecvComm comm) x = Some (ncclSuccess, dn, out, RecvComm comm', x') \<and>
      dn = (\<forall>d<2. outstanding (P (xw_w x) (cq (devBase comm ! d))) q = 0) \<and> (dn \<longrightarrow> rq_type (reqs comm' ! q) = REQ_UNUSED)) \<and>
    (\<forall>opt n data sizes tags mhs. recv_args_ok n data sizes tags mhs \<longrightarrow> anpNetIrecv C V opt n data sizes tags mhs comm x \<noteq> None) \<and>
    (\<forall>data fsizes mhs. flush_args_ok data fsizes mhs \<longrightarrow> anpNetFlush C V data fsizes mhs comm x \<noteq> None)"
proof -
  have inv: "arrivals_inv C P Q cqo comm (xw_w x)" by (rule arrivals_reaches [OF assms(1,2)])
  then have ok: "recv_comm_ok C comm" "ndevs comm = 1" "flush_wired C cqo comm" by (simp_all add: arrivals_inv_def)
  show ?thesis using arrivals_test [OF assms(1) inv assms(3), of want] irecv_defined [OF ok(1,2)] flush_defined [OF ok] by blast
qed

text \<open>A receive communicator with one queue pair that flushes.\<close>

definition demo_arrive :: ncclIbRecvComm where
  "demo_arrive = demo_recv\<lparr>nqps := 1, devBase := [demo_base 0, demo_base 1], flushEnabled := True,
     gpuFlush := [\<lparr>hostMr = None, gpuMr = Some (hd (mrs demo_mrh)), gpuFlushGpuMem = 0, fl_sge = \<lparr>sge_addr = 0, sge_length = 1, sge_lkey = 5\<rparr>, fl_qp = demo_qp 0 0\<rparr>]\<rparr>"

lemma arrive_fresh: "fresh_arrivals demo_cfg card_pending snd qp_ptr demo_arrive (xw_w card_xw)"
  unfolding fresh_arrivals_def idle_def
proof (intro conjI)
  show "recv_comm_ok demo_cfg demo_arrive" "ndevs demo_arrive = 1" "cqs_wired qp_ptr demo_arrive" by code_simp+
  show "flush_wired demo_cfg qp_ptr demo_arrive" by (simp add: flush_wired_def demo_arrive_def demo_qp_def demo_base_def demo_cfg_def)
  show "list_all (\<lambda>r. rq_type r = REQ_UNUSED \<and> events r = [0, 0]) (fst (net_state (RecvComm demo_arrive)))" by code_simp
  show "length (net_bases (RecvComm demo_arrive)) = 2" "cq (net_bases (RecvComm demo_arrive) ! 0) \<noteq> cq (net_bases (RecvComm demo_arrive) ! 1)" by code_simp+
qed (simp_all add: card_pending_def card_xw_def)

theorem receives_complete_witness:
  "\<exists>comm x y out comm' x'. anpNetIrecv demo_cfg card_verbs False 1 [0x9000] [64] [3] [demo_mrh] demo_arrive card_xw = Some (ncclSuccess, Some 0, comm, x) \<and>
    y = x\<lparr>xw_w := card_work 0 (SendWork 0) (card_work 0 (RecvWork 0) (xw_w x))\<rparr> \<and>
    anpNetTest demo_cfg card_verbs True 0 (RecvComm comm) y = Some (ncclSuccess, True, out, RecvComm comm', x')"
proof -
  have "map_option (\<lambda>(res, q, c, x). (res, q, fst (xw_w x) 0, fst (xw_w x) 1, map cq (devBase c), length (reqs c)))
      (anpNetIrecv demo_cfg card_verbs False 1 [0x9000] [64] [3] [demo_mrh] demo_arrive card_xw) = Some (ncclSuccess, Some 0, [RecvWork 0, SendWork 0], [], [0, 1], 16)" by code_simp
  then obtain comm x where r: "anpNetIrecv demo_cfg card_verbs False 1 [0x9000] [64] [3] [demo_mrh] demo_arrive card_xw = Some (ncclSuccess, Some 0, comm, x)"
      "fst (xw_w x) 0 = [RecvWork 0, SendWork 0]" "fst (xw_w x) 1 = []" "map cq (devBase comm) = [0, 1]" "length (reqs comm) = 16"
    by auto
  let ?w = "card_work 0 (RecvWork 0) (xw_w x)" let ?y = "x\<lparr>xw_w := card_work 0 (SendWork 0) ?w\<rparr>"
  have a: "recv_args_ok 1 [0x9000] [64] [3] [demo_mrh]" by code_simp
  have t: "arrivals demo_cfg card_verbs card_pending snd qp_ptr comm x" by (rule arrivals.receive [OF arrivals.fresh [OF arrive_fresh] a r(1)])
  then have t1: "arrivals demo_cfg card_verbs card_pending snd qp_ptr comm (x\<lparr>xw_w := ?w\<rparr>)" by (rule arrivals.card) (simp add: card_work_step r(2))
  have "SendWork 0 \<in> set (fst ?w 0)" using r(2) by (simp add: card_work_def)
  from card_work_step [OF this] have w: "card_completes card_pending snd (xw_w (x\<lparr>xw_w := ?w\<rparr>)) (card_work 0 (SendWork 0) ?w)" by simp
  have t2: "arrivals demo_cfg card_verbs card_pending snd qp_ptr comm ?y" using arrivals.card [OF t1 w] by simp
  obtain b0 b1 where b: "devBase comm = [b0, b1]" "cq b0 = 0" "cq b1 = 1" using r(4) by auto
  have "\<forall>d<2. outstanding (card_pending (xw_w ?y) (cq (devBase comm ! d))) 0 = 0"
    using b r(2,3) by (auto simp: less_2_cases_iff card_pending_def card_work_def)
  then show ?thesis using receives_complete [OF card_verbs_law t2, of 0 True] r(1,5) by auto
qed

end
