(* ===== verification/Sessions.thy ===== *)
theory Sessions
  imports Connection Traffic Arrivals
begin

text \<open>
  From a connection to the traffic on it: the communicator \<open>anpNetConnect\<close> hands out is one on which traffic can start.  Of the
  verbs library it is relied on that a queue pair reports to the completion queue named when it was created.
\<close>

definition qp_law :: "'w setup_verbs \<Rightarrow> (ibv_qp \<Rightarrow> cq_ptr) \<Rightarrow> bool" where
  "qp_law V cqo \<longleftrightarrow> (\<forall>pd a w p w'. s_create_qp V pd a w = ((ncclSuccess, p), w') \<longrightarrow> cqo p = ia_cq a)"

lemma create_qp_cq:
  assumes "qp_law V cqo" "ncclIbCreateQp C V port b acc ch data idx (e, n) = Some (Inr u, (e', n'))"
  shows "\<exists>p. e' = e\<lparr>qp := Some p, ctsQpSlot := (if data then ANP_CTS_QP_SLOT_INVALID else idx)\<rparr> \<and> cqo p = cq b"
proof -
  have law: "s_create_qp V pd a w = ((ncclSuccess, p), w') \<Longrightarrow> cqo p = ia_cq a" for pd a w p w' using assms(1) unfolding qp_law_def by blast
  show ?thesis using assms(2) unfolding ncclIbCreateQp_def
    by (auto elim!: nbind_SomeE simp: call_inv init_attr_def dest!: law split: prod.splits) blast+
qed

lemma connect_qp_cq:
  assumes "qp_law (k_v K) cqo" "connect_qp K ch q di ((c, m), n) = Some (Inr u, ((c', m'), n'))"
  shows "devBase c' = devBase c \<and> length (qps c') = length (qps c) \<and> cqo (the (qp (qps c' ! q))) = cq (devBase c ! di)"
proof -
  have cq: "ncclIbCreateQp (k_cfg K) (k_v K) (portNum dev) b acc ch True (word_of_nat q) (e, n1) = Some (Inr v, (e', n2)) \<Longrightarrow>
      \<exists>p. e' = e\<lparr>qp := Some p, ctsQpSlot := ANP_CTS_QP_SLOT_INVALID\<rparr> \<and> cqo p = cq b" for dev b acc e n1 v e' n2
    using create_qp_cq [OF assms(1), of "k_cfg K" "portNum dev" b acc ch True "word_of_nat q" e n1 v e' n2] by simp
  show ?thesis using assms(2) unfolding connect_qp_def
    by (auto elim!: nbind_SomeE simp: call_inv on_qp_inv set_qp_def dest!: arr_get_SomeD cq split: if_splits prod.splits)
qed

text \<open>The first \<open>q\<close> queue pairs report to the queues of their devices.\<close>

definition reports :: "(ibv_qp \<Rightarrow> cq_ptr) \<Rightarrow> nat \<Rightarrow> ('a) ncclIbNetCommBase_scheme \<Rightarrow> bool" where
  "reports cqo q c \<longleftrightarrow> (\<forall>j<q. cqo (the (qp (qps c ! j))) = cq (devBase c ! devIndex (qps c ! j)))"

lemma connect_qps_cq:
  assumes "qp_law (k_v K) cqo"
  shows "connect_qps K ch k q di ((c, m), n) = Some (Inr u, ((c', m'), n')) \<Longrightarrow> reports cqo q c \<Longrightarrow>
    reports cqo (q + k) c' \<and> devBase c' = devBase c \<and> length (qps c') = length (qps c)"
proof (induction k arbitrary: q di c m n)
  case 0
  then show ?case by (simp add: nc_inv)
next
  case (Suc k)
  obtain c1 m1 n1 where 1: "connect_qp K ch q di ((c, m), n) = Some (Inr (), ((c1, m1), n1))"
    and 2: "connect_qps K ch k (Suc q) ((di + 1) mod ndevs c1) ((c1, m1), n1) = Some (Inr u, ((c', m'), n'))"
    using Suc.prems(1) by (auto elim!: nbind_SomeE simp: nc_inv)
  define x where "x = qps c1 ! q"
  note e = connect_qp_effect [OF 1, folded x_def] and f = connect_qp_cq [OF assms 1, folded x_def]
  have "reports cqo (Suc q) c1" using Suc.prems(2) e f by (auto simp: reports_def nth_list_update less_Suc_eq)
  then show ?case using Suc.IH [OF 2] f by simp
qed

subsection \<open>The rest of connecting\<close>

text \<open>What \<open>reports\<close> reads of a communicator.\<close>

definition cq_frame :: "cq_ptr list \<Rightarrow> (ibv_qp option \<times> nat) list \<Rightarrow> ('a) ncclIbNetCommBase_scheme \<Rightarrow> bool" where
  "cq_frame B E c \<longleftrightarrow> map cq (devBase c) = B \<and> map (\<lambda>e. (qp e, devIndex e)) (qps c) = E"

lemma map_update_same: "f (g (xs ! i)) = f (xs ! i) \<Longrightarrow> map f (xs[i := g (xs ! i)]) = map f xs"
  by (cases "i < length xs") (simp_all add: map_update list_update_same_conv list_update_beyond)

lemma cq_frame_upd [simp]:
  "(\<And>b. cq (f b) = cq b) \<Longrightarrow> cq_frame B E (set_base i f c) = cq_frame B E c"
  "(\<And>e. qp (g e) = qp e \<and> devIndex (g e) = devIndex e) \<Longrightarrow> cq_frame B E (set_qp i g c) = cq_frame B E c"
  by (simp_all add: cq_frame_def set_base_def set_qp_def map_update_same)

lemma cq_frame_gid: "keeps (comm_frame (cq_frame B E)) (query_local_gid K i dev)"
  unfolding query_local_gid_def
  by (intro keeps_rules comm_frame_put) (auto simp: keeps_def comm_frame_def gid_index_call_def bind_eq_Some_conv)

lemma cq_connect_dev: "keeps (comm_frame (cq_frame B E)) (connect_dev K a i)"
  unfolding connect_dev_def
  by (intro keeps_rules comm_frame_put comm_frame_reg cq_frame_gid) (auto simp: comm_frame_def split: if_splits, auto simp: cq_frame_def)

lemma cq_finish:
  "keeps (comm_frame (cq_frame B E)) (check_link rem d0 i)" "keeps (comm_frame (cq_frame B E)) (keep_rem_dev rem i)" "keeps (comm_frame (cq_frame B E)) (reg_rem_sizes K a i)"
  unfolding check_link_def keep_rem_dev_def reg_rem_sizes_def copy_rem_dev_def
  by (intro comm_frame_rules; auto simp: comm_frame_def cq_frame_def bind_eq_Some_conv)+

lemma cq_finish_qp: "keeps (comm_frame (cq_frame B E)) (finish_qp K rem q)"
  unfolding finish_qp_def by (intro comm_frame_rules) simp_all

lemma cq_connect_finish: "keeps (comm_frame (cq_frame B E)) (connect_finish K rem a)"
  unfolding connect_finish_def by (intro comm_frame_rules cq_finish cq_finish_qp) (auto simp: comm_frame_def cq_frame_def)

lemma cq_frame_reports:
  assumes "cq_frame (map cq (devBase c)) (map (\<lambda>e. (qp e, devIndex e)) (qps c)) c'" "reports cqo k c"
    and "k \<le> length (qps c')" "\<forall>j<k. devIndex (qps c' ! j) < length (devBase c')"
  shows "reports cqo k c'"
proof -
  have m: "map cq (devBase c') = map cq (devBase c)" "map (\<lambda>e. (qp e, devIndex e)) (qps c') = map (\<lambda>e. (qp e, devIndex e)) (qps c)"
    using assms(1) by (simp_all add: cq_frame_def)
  note l = map_eq_imp_length_eq [OF m(1)] map_eq_imp_length_eq [OF m(2)]
  have "(qp (qps c' ! j), devIndex (qps c' ! j)) = (qp (qps c ! j), devIndex (qps c ! j))" if "j < k" for j
    using arg_cong [OF m(2), of "\<lambda>xs. xs ! j"] that assms(3) l by simp
  moreover have "cq (devBase c' ! i) = cq (devBase c ! i)" if "i < length (devBase c')" for i using arg_cong [OF m(1), of "\<lambda>xs. xs ! i"] that l by simp
  ultimately show ?thesis using assms(2,4) by (auto simp: reports_def)
qed

lemma connect_init_len: "keeps (comm_frame (\<lambda>c. length (devBase c) = 2 \<and> length (qps c) = k)) (connect_init_dev K dev md i)"
  unfolding connect_init_dev_def by (intro comm_frame_rules) (simp_all add: set_base_def)

lemma connected_reports:
  assumes law: "qp_law (k_v K) cqo" and con: "connect_setup K dev ch a ((zero_send_comm K, m0), n) = Some (Inr meta, ((c1, m1), n1))"
    and info: "length (qpInfo m0) = NCCL_IB_MAX_QPS" and fin: "connect_finish K rem a ((c1, m2), n2) = Some (Inr v, ((c, m3), n3))" and ok: "qps_ok c"
  shows "reports cqo (nqps c) c \<and> length (devBase c) = 2"
proof -
  obtain md u1 d1 e1 k1 u2 d2 e2 k2 u3 e3 k3 where md: "arr_get (mergedDevs n) dev = Some md"
    and s1: "nfor [0..<md_ndevs md] (connect_init_dev K dev md) (((zero_send_comm K)\<lparr>ndevs := md_ndevs md, nqps := nat (IbQpsPerConn (k_cfg K) * int (md_ndevs md)),
        isSend := True, ar := True\<rparr>, m0), n\<lparr>nx := tele (s_x (k_cfg K)) [T_set_device_name dev (md_devName md)] (nx n)\<rparr>) = Some (Inr u1, ((d1, e1), k1))"
    and s2: "connect_qps K ch (nqps d1) 0 0 ((d1, e1\<lparr>cm_ndevs := int (ndevs d1)\<rparr>), k1) = Some (Inr u2, ((d2, e2), k2))"
    and s3: "nfor [0..<ndevs d2] (connect_dev K a) ((d2, e2), k2) = Some (Inr u3, ((c1, e3), k3))"
    using con unfolding connect_setup_def by (auto elim!: nbind_SomeE simp: call_inv)
  have len: "length (devBase d1) = 2" "length (qps d1) = NCCL_IB_MAX_QPS"
    using keepsD [OF keeps_for [OF connect_init_len] _ s1, of NCCL_IB_MAX_QPS] by (simp_all add: comm_frame_def zero_send_comm_def Let_def)
  have "qp_frame (qps (zero_send_comm K)) (md_ndevs md) (nat (IbQpsPerConn (k_cfg K) * int (md_ndevs md))) (qpInfo m0) (cm_ndevs m0) ((d1, e1), k1)"
    by (rule keepsD [OF keeps_for [OF frame_connect_init] _ s1]) (simp add: qp_frame_def)
  then have "nqps d1 = nqps c1" using connect_setup_wires [OF con] info md by (simp add: qp_frame_def zero_send_comm_def Let_def)
  moreover have "nqps c = nqps c1" using connect_finish_peers [OF fin] by (simp add: peers_upto_def)
  ultimately have r: "reports cqo (nqps c) d2" "devBase d2 = devBase d1" using connect_qps_cq [OF law s2] by (simp_all add: reports_def)
  let ?F = "cq_frame (map cq (devBase d2)) (map (\<lambda>e. (qp e, devIndex e)) (qps d2))"
  have "comm_frame ?F ((c1, e3), k3)" by (rule keepsD [OF keeps_for [OF cq_connect_dev] _ s3]) (simp add: comm_frame_def cq_frame_def)
  then have "comm_frame ?F ((c1, m2), n2)" by (simp add: comm_frame_def)
  from keepsD [OF cq_connect_finish this fin] have f: "?F c" by (simp add: comm_frame_def)
  have l: "length (devBase c) = 2" using f len(1) r(2) by (metis cq_frame_def length_map)
  have "nqps c \<le> length (qps c)" "\<forall>j<nqps c. devIndex (qps c ! j) < length (devBase c)"
    using ok unfolding l qps_ok_def NCCL_IB_MAX_DEVS_PER_NIC_def by (auto intro: less_le_trans)
  from cq_frame_reports [OF f r(1) this] l show ?thesis by blast
qed

text \<open>A new connection on which the card has nothing outstanding is the start of traffic.\<close>

lemma connected_fresh:
  assumes "qp_law (k_v K) cqo" "connect_setup K dev ch a ((zero_send_comm K, m0), n) = Some (Inr meta, ((c1, m1), n1))" "length (qpInfo m0) = NCCL_IB_MAX_QPS"
    and "connect_finish K rem a ((c1, m2), n2) = Some (Inr v, ((c, m3), n3))" "send_comm_ok C c"
    and "cq (devBase c ! 0) \<noteq> cq (devBase c ! 1)" "\<forall>d<2. P w (cq (devBase c ! d)) = {#} \<and> Q w (cq (devBase c ! d)) = []"
  shows "fresh_traffic C P Q cqo c w"
proof -
  have "qps_ok c" using assms(5) by (simp add: send_comm_ok_def)
  note r = connected_reports [OF assms(1-4) this]
  have "send_rest (zero_send_comm K) c1" using keepsD [OF connect_setup_rest _ assms(2), of "zero_send_comm K"] by (simp add: comm_frame_def send_rest_def)
  then have "send_rest (zero_send_comm K) c" using keepsD [OF connect_finish_rest _ assms(4), of "zero_send_comm K"] by (simp add: comm_frame_def)
  then have "reqs c = replicate (MAX_REQUESTS (s_x (k_cfg K))) zero_req" by (simp add: send_rest_def zero_send_comm_def Let_def)
  then show ?thesis using r assms(5-7) by (simp add: fresh_traffic_def idle_def cqs_wired_def reports_def zero_req_def list_all_iff)
qed

subsection \<open>Accepting\<close>

lemma accept_qp_cq:
  assumes "qp_law (k_v K) cqo" "accept_qp K ch rem q di ((c, m), n) = Some (Inr u, ((c', m'), n'))"
  shows "devBase c' = devBase c \<and> length (qps c') = length (qps c) \<and> cqo (the (qp (qps c' ! q))) = cq (devBase c ! di)"
proof -
  have cq: "ncclIbCreateQp (k_cfg K) (k_v K) (portNum dev) b acc ch False (word_of_nat q) (e, n1) = Some (Inr v, (e', n2)) \<Longrightarrow>
      \<exists>p. e' = e\<lparr>qp := Some p, ctsQpSlot := word_of_nat q\<rparr> \<and> cqo p = cq b" for dev b acc e n1 v e' n2
    using create_qp_cq [OF assms(1), of "k_cfg K" "portNum dev" b acc ch False "word_of_nat q" e n1 v e' n2] by simp
  show ?thesis using assms(2) unfolding accept_qp_def accept_ece_def ncclIbRtrQp_def ncclIbRtsQp_def nwhen_def
    by (auto elim!: nbind_SomeE simp: call_inv on_qp_inv set_qp_def dest!: arr_get_SomeD cq split: if_splits prod.splits)
qed

lemma accept_qps_cq:
  assumes "qp_law (k_v K) cqo"
  shows "accept_qps K ch rem k q di ((c, m), n) = Some (Inr u, ((c', m'), n')) \<Longrightarrow> reports cqo q c \<Longrightarrow>
    reports cqo (q + k) c' \<and> devBase c' = devBase c \<and> length (qps c') = length (qps c)"
proof (induction k arbitrary: q di c m n)
  case 0
  then show ?case by (simp add: nc_inv)
next
  case (Suc k)
  obtain c1 m1 n1 where 1: "accept_qp K ch rem q di ((c, m), n) = Some (Inr (), ((c1, m1), n1))"
    and 2: "accept_qps K ch rem k (Suc q) ((di + 1) mod ndevs c1) ((c1, m1), n1) = Some (Inr u, ((c', m'), n'))"
    using Suc.prems(1) by (auto elim!: nbind_SomeE simp: nc_inv)
  define x where "x = qps c1 ! q"
  note e = accept_qp_effect [OF 1, folded x_def] and f = accept_qp_cq [OF assms 1, folded x_def]
  have "reports cqo (Suc q) c1" using Suc.prems(2) e f by (auto simp: reports_def nth_list_update less_Suc_eq)
  then show ?case using Suc.IH [OF 2] f by simp
qed

lemma cq_frame_flush [simp]: "cq_frame B E (set_flush i h c) = cq_frame B E c"
  by (simp add: cq_frame_def set_flush_def)

lemma cq_accept_flush: "keeps (comm_frame (cq_frame B E)) (accept_flush K ch a i b dev)"
  unfolding accept_flush_def by (intro comm_frame_rules) simp_all

lemma cq_accept_dev: "keeps (comm_frame (cq_frame B E)) (accept_dev K ch rem a i)"
  unfolding accept_dev_def
  by (intro comm_frame_rules cq_accept_flush) (auto simp: comm_frame_def split: if_splits, auto simp: cq_frame_def)

lemma reg_mr_inv: "reg_mr_into K p a len acc put (x, n) = Some (Inr mr, t) \<Longrightarrow> \<exists>w. t = put (Some mr) (x, n\<lparr>nx := (nx n)\<lparr>xw_w := w\<rparr>\<rparr>)"
  unfolding reg_mr_into_def by (auto elim!: nbind_SomeE simp: call_inv split: prod.splits)

text \<open>The queue pair to itself on which a device is flushed.\<close>

definition flush_ready :: "'w conn_env \<Rightarrow> (ibv_qp \<Rightarrow> cq_ptr) \<Rightarrow> cq_ptr \<Rightarrow> nat \<Rightarrow> ncclIbRecvComm \<Rightarrow> bool" where
  "flush_ready K cqo q i c \<longleftrightarrow> i < length (gpuFlush c) \<and> (\<exists>p. qp (fl_qp (gpuFlush c ! i)) = Some p \<and> cqo p = q) \<and>
     (k_IbGdrFlushGpuMemNoRelaxedOrdering K \<noteq> 0 \<longrightarrow> gpuMr (gpuFlush c ! i) \<noteq> None)"

lemma accept_flush_ready:
  assumes "qp_law (k_v K) cqo" "accept_flush K ch a i b dev ((c, m), n) = Some (Inr u, ((c', m'), n'))"
  shows "flush_ready K cqo (cq b) i c' \<and> flushEnabled c' = flushEnabled c"
proof -
  have cq: "ncclIbCreateQp (k_cfg K) (k_v K) port b acc ch True idx (e, n1) = Some (Inr v, (e', n2)) \<Longrightarrow> \<exists>p. qp e' = Some p \<and> cqo p = cq b" for port acc idx e n1 v e' n2
    using create_qp_cq [OF assms(1)] by fastforce
  show ?thesis using assms(2) unfolding accept_flush_def ncclIbRtrQp_def ncclIbRtsQp_def
    by (auto elim!: nbind_SomeE simp: call_inv on_flush_qp_def in_comm_def set_flush_def flush_ready_def dest!: arr_get_SomeD reg_mr_inv cq split: if_splits prod.splits)
qed

lemma accept_dev_flush:
  assumes "qp_law (k_v K) cqo" "accept_dev K ch rem a i ((c, m), n) = Some (Inr u, ((c', m'), n'))"
  shows "flushEnabled c' \<longrightarrow> flush_ready K cqo (cq (devBase c ! i)) i c'"
proof -
  note fl = accept_flush_ready [OF assms(1)]
  show ?thesis using assms(2) unfolding accept_dev_def nwhen_def
    by (auto elim!: nbind_SomeE simp: call_inv in_comm_def in_meta_def set_base_def dest!: arr_get_SomeD reg_mr_inv split: if_splits prod.splits)
      (auto simp: flush_ready_def dest!: fl)
qed

lemma accept_pre_len:
  "keeps (comm_frame (\<lambda>c. length (devBase c) = 2)) (accept_init_dev K md i)" "keeps (comm_frame (\<lambda>c. length (devBase c) = 2)) (copy_rem_dev rem i)"
  unfolding accept_init_dev_def copy_rem_dev_def by (intro comm_frame_rules; auto simp: set_base_def comm_frame_def bind_eq_Some_conv)+

lemma accept_info_frame: "keeps (comm_frame P) (accept_qp_info q)"
  unfolding accept_qp_info_def by (intro comm_frame_rules) (auto simp: comm_frame_def split: if_splits)

lemma accepted_reports:
  assumes law: "qp_law (k_v K) cqo" and acc: "accept_setup K dev ch rem a ((zero_recv_comm K a, m0), n) = Some (Inr meta, ((c, m), n'))"
    and one: "ndevs c = 1" and ok: "qps_ok c"
  shows "reports cqo (nqps c) c \<and> length (devBase c) = 2 \<and> (flushEnabled c \<longrightarrow> flush_ready K cqo (cq (devBase c ! 0)) 0 c)"
proof -
  obtain md u1 s1 u2 c2 m2 n2 u3 c3 m3 n3 u4 c4 m4 n4 u5 m5 n5 L where
    md: "arr_get (mergedDevs n) dev = Some md"
    and s1: "nfor [0..<md_ndevs md] (accept_init_dev K md) (((zero_recv_comm K a)\<lparr>ndevs := md_ndevs md, nqps := nat (IbQpsPerConn (k_cfg K) * int (md_ndevs md)), isSend := False,
        nRemDevs := cm_ndevs rem\<rparr>, m0), n) = Some (Inr u1, s1)"
    and s2: "nfor [0..<nat (cm_ndevs rem)] (copy_rem_dev rem) s1 = Some (Inr u2, ((c2, m2), n2))"
    and s3: "accept_qps K ch rem (nqps c2) 0 0 ((c2, m2), n2) = Some (Inr u3, ((c3, m3), n3))"
    and s4: "nfor [0..<md_ndevs md] (accept_dev K ch rem a) ((c3\<lparr>flushEnabled := L\<rparr>, m3), n3) = Some (Inr u4, ((c4, m4), n4))"
    and s5: "nfor [0..<nqps c2] accept_qp_info ((c4, m4\<lparr>fifoAddr := a + k_off_sizes K\<rparr>), n4) = Some (Inr u5, ((c, m5), n5))"
    using acc unfolding accept_setup_def by (auto elim!: nbind_SomeE simp: call_inv in_comm_def in_meta_def split_beta)
  have c: "c = c4" using keepsD [OF keeps_for [OF accept_info_frame] _ s5, of "\<lambda>c. c = c4"] by (simp add: comm_frame_def)
  have d1: "md_ndevs md = 1" using accept_setup_wires [OF acc] md one by simp
  have "comm_frame (\<lambda>c. length (devBase c) = 2) s1" by (rule keepsD [OF keeps_for [OF accept_pre_len(1)] _ s1]) (simp add: comm_frame_def zero_recv_comm_def Let_def)
  from keepsD [OF keeps_for [OF accept_pre_len(2)] this s2] have len: "length (devBase c2) = 2" by (simp add: comm_frame_def)
  define d3 where "d3 = c3\<lparr>flushEnabled := L\<rparr>"
  have s4': "accept_dev K ch rem a 0 ((d3, m3), n3) = Some (Inr (), ((c, m4), n4))" using s4 d1 c by (auto elim!: nbind_SomeE simp: nc_inv d3_def)
  have r: "reports cqo (nqps c2) d3" "devBase d3 = devBase c2" using accept_qps_cq [OF law s3] by (simp_all add: reports_def d3_def)
  let ?F = "cq_frame (map cq (devBase d3)) (map (\<lambda>e. (qp e, devIndex e)) (qps d3))"
  have "comm_frame ?F ((c, m4), n4)" by (rule keepsD [OF cq_accept_dev _ s4']) (simp add: comm_frame_def cq_frame_def)
  then have f: "?F c" by (simp add: comm_frame_def)
  then have m: "map cq (devBase c) = map cq (devBase d3)" by (simp add: cq_frame_def)
  have l: "length (devBase c) = 2" using map_eq_imp_length_eq [OF m] len r(2) by simp
  let ?k = "nat (IbQpsPerConn (k_cfg K) * int (md_ndevs md))"
  have "qp_frame (qps (zero_recv_comm K a)) (md_ndevs md) ?k (qpInfo m0) (cm_ndevs m0) ((c2, m2), n2)"
    by (rule keepsD [OF keeps_for [OF frame_copy] _ s2], rule keepsD [OF keeps_for [OF frame_accept_init] _ s1]) (simp add: qp_frame_def)
  then have k: "nqps c = nqps c2" using accept_setup_wires [OF acc] md by (auto simp: qp_frame_def)
  have "nqps c \<le> length (qps c)" "\<forall>j<nqps c. devIndex (qps c ! j) < length (devBase c)"
    using ok unfolding l qps_ok_def NCCL_IB_MAX_DEVS_PER_NIC_def by (auto intro: less_le_trans)
  from cq_frame_reports [OF f r(1) [folded k] this] have "reports cqo (nqps c) c" .
  moreover have "cq (devBase d3 ! 0) = cq (devBase c ! 0)" using arg_cong [OF m, of "\<lambda>xs. xs ! 0"] l len r(2) by simp
  then have "flushEnabled c \<longrightarrow> flush_ready K cqo (cq (devBase c ! 0)) 0 c" using accept_dev_flush [OF law s4'] by simp
  ultimately show ?thesis using l by blast
qed

text \<open>An accepted connection over one device on which the card has nothing outstanding is the start of arrivals.\<close>

lemma accepted_fresh:
  assumes "qp_law (k_v K) cqo" "accept_setup K dev ch rem a ((zero_recv_comm K a, m0), n) = Some (Inr meta, ((c, m), n'))" "ndevs c = 1"
    and "recv_comm_ok C c" "flushNoRelaxed C \<longleftrightarrow> k_IbGdrFlushGpuMemNoRelaxedOrdering K \<noteq> 0"
    and "cq (devBase c ! 0) \<noteq> cq (devBase c ! 1)" "\<forall>d<2. P w (cq (devBase c ! d)) = {#} \<and> Q w (cq (devBase c ! d)) = []"
  shows "fresh_arrivals C P Q cqo c w"
proof -
  have "qps_ok c" using assms(4) by (simp add: recv_comm_ok_def)
  note r = accepted_reports [OF assms(1-3) this]
  have "recv_rest (zero_recv_comm K a) c" using keepsD [OF accept_setup_rest _ assms(2), of "zero_recv_comm K a"] by (simp add: comm_frame_def recv_rest_def)
  then have "reqs c = replicate (MAX_REQUESTS (s_x (k_cfg K))) zero_req" by (simp add: recv_rest_def zero_recv_comm_def Let_def)
  moreover have "flush_wired C cqo c" using r assms(5) unfolding flush_wired_def flush_ready_def by (cases "gpuFlush c") auto
  ultimately show ?thesis using r assms(3,4,6,7) by (simp add: fresh_arrivals_def idle_def cqs_wired_def reports_def zero_req_def list_all_iff)
qed

end
