(* ===== verification/Metrics.thy ===== *)
theory Metrics
  imports Text "HOL-Library.Multiset"
begin

text \<open>
  The containers of \<open>anp_metrics.h\<close>: buckets, the ring buffer of samples and its histograms, and the
  histogram of completion times.  The template parameter is \<open>uint64_t\<close> throughout, which is what the plugin instantiates.
  \<open>ANP_LOG_*\<close> only print.  The binning of \<open>generate_histogram\<close> is boost's, a parameter.
\<close>

subsection \<open>Buckets\<close>

record bucket_s =
  b_min :: u64
  b_max :: u64
  b_count :: u64

definition contains :: "bucket_s \<Rightarrow> u64 \<Rightarrow> bool" where
  "contains b v \<longleftrightarrow> b_min b \<le> v \<and> v < b_max b"

definition reset_counts :: "bucket_s list \<Rightarrow> bucket_s list" where
  "reset_counts bs = map (\<lambda>b. b\<lparr>b_count := 0\<rparr>) bs"

subsection \<open>The ring buffer\<close>

record buffer_s =
  bf_size :: u64
  bf_count :: u64
  bf_write_index :: u64
  bf_rollover :: u64
  bf_buffer :: "u64 list"

definition new_buffer :: "u64 \<Rightarrow> buffer_s" where
  "new_buffer n = \<lparr>bf_size = n, bf_count = 0, bf_write_index = 0, bf_rollover = 0, bf_buffer = replicate (unat n) 0\<rparr>"

definition push :: "u64 \<Rightarrow> buffer_s \<Rightarrow> buffer_s option" where
  "push v b = do {
     bs \<leftarrow> arr_set (bf_buffer b) (unat (bf_write_index b)) v;
     if bf_size b = 0 then None
     else let b = b\<lparr>bf_buffer := bs, bf_write_index := (bf_write_index b + 1) mod bf_size b\<rparr> in
       Some (if bf_count b = bf_size b then b\<lparr>bf_rollover := bf_rollover b + 1\<rparr> else b\<lparr>bf_count := bf_count b + 1\<rparr>) }"

definition get_values :: "buffer_s \<Rightarrow> u64 list option" where
  "get_values b = (if unat (bf_count b) \<le> length (bf_buffer b) then Some (take (unat (bf_count b)) (bf_buffer b)) else None)"

text \<open>The index is an \<open>int\<close>; for no buckets at all it is \<open>-1\<close>.\<close>

fun find_bucket_loop :: "bucket_s list \<Rightarrow> u64 \<Rightarrow> nat \<Rightarrow> nat option" where
  "find_bucket_loop [] v i = None"
| "find_bucket_loop (b # bs) v i = (if contains b v then Some i else find_bucket_loop bs v (Suc i))"

definition find_bucket_index :: "bucket_s list \<Rightarrow> u64 \<Rightarrow> int" where
  "find_bucket_index bs v = (case find_bucket_loop bs v 0 of Some i \<Rightarrow> int i | None \<Rightarrow> int (length bs) - 1)"

definition count_bucket :: "int \<Rightarrow> bucket_s list \<Rightarrow> bucket_s list option" where
  "count_bucket i bs = (if i < 0 then None else do { b \<leftarrow> arr_get bs (nat i); arr_set bs (nat i) (b\<lparr>b_count := b_count b + 1\<rparr>) })"

fun process_values :: "u64 list \<Rightarrow> bucket_s list \<Rightarrow> bucket_s list option" where
  "process_values [] bs = Some bs"
| "process_values (v # vs) bs = do { bs \<leftarrow> count_bucket (find_bucket_index bs v) bs; process_values vs bs }"

definition process_ring_buffer :: "buffer_s \<Rightarrow> bucket_s list \<Rightarrow> bucket_s list option" where
  "process_ring_buffer b bs = do { vs \<leftarrow> get_values b; process_values vs bs }"

text \<open>\<open>std::ceil(std::sqrt(n))\<close>: the least \<open>k\<close> with \<open>n \<le> k * k\<close>.\<close>

fun ceil_sqrt_from :: "nat \<Rightarrow> nat \<Rightarrow> nat \<Rightarrow> nat" where
  "ceil_sqrt_from 0 k n = k"
| "ceil_sqrt_from (Suc f) k n = (if n \<le> k * k then k else ceil_sqrt_from f (Suc k) n)"

definition ceil_sqrt :: "nat \<Rightarrow> nat" where
  "ceil_sqrt n = ceil_sqrt_from n 0 n"

text \<open>
  \<open>regular_axis nb lo hi vs\<close> stands for boost's histogram of \<open>vs\<close> over \<open>nb\<close> equal bins from \<open>lo\<close> to \<open>hi + 1\<close>: for each
  bin its bounds, truncated to integers, and its count.
\<close>

definition generate_histogram :: "(nat \<Rightarrow> u64 \<Rightarrow> u64 \<Rightarrow> u64 list \<Rightarrow> bucket_s list) \<Rightarrow> buffer_s \<Rightarrow> bucket_s list \<Rightarrow> bucket_s list option" where
  "generate_histogram regular_axis b bs = do {
     data \<leftarrow> get_values b;
     if data = [] then Some bs
     else let lo = Min (set data); hi = Max (set data); nb = ceil_sqrt (length data) in
       if nb \<le> 0 then Some bs
       else if hi \<le> lo then Some bs
       else Some (bs @ regular_axis nb lo hi data) }"

subsection \<open>Completion times\<close>

record time_histogram_s =
  bucket_sz_log2 :: u32
  max_buckets :: int
  th_buckets :: "(u64 \<times> u64) list"

definition new_time_histogram :: "int \<Rightarrow> u32 \<Rightarrow> time_histogram_s" where
  "new_time_histogram mb l = \<lparr>bucket_sz_log2 = l, max_buckets = mb, th_buckets = []\<rparr>"

text \<open>The comparison with \<open>int max_buckets\<close> is in \<open>uint64_t\<close>; a shift by 64 or more is undefined.\<close>

definition bucket_index :: "time_histogram_s \<Rightarrow> u64 \<Rightarrow> u64 option" where
  "bucket_index h t = (if 64 \<le> unat (bucket_sz_log2 h) then None
     else let i = drop_bit (unat (bucket_sz_log2 h)) t in
       Some (if i < word_of_int (max_buckets h) then i else word_of_int (max_buckets h - 1)))"

definition log_time :: "u64 \<Rightarrow> time_histogram_s \<Rightarrow> time_histogram_s option" where
  "log_time t h = do { i \<leftarrow> bucket_index h t; Some (h\<lparr>th_buckets := map_bump i (th_buckets h)\<rparr>) }"

subsection \<open>What the containers compute\<close>

fun push_all :: "u64 list \<Rightarrow> buffer_s \<Rightarrow> buffer_s option" where
  "push_all [] b = Some b"
| "push_all (v # vs) b = do { b \<leftarrow> push v b; push_all vs b }"

text \<open>The buffer read from its write index on holds the last values, oldest first, preceded by the initial zeros.\<close>

definition ring_holds :: "u64 \<Rightarrow> u64 list \<Rightarrow> buffer_s \<Rightarrow> bool" where
  "ring_holds n vs b \<longleftrightarrow> (let N = unat n; k = length vs mod N in
     bf_size b = n \<and> length (bf_buffer b) = N \<and> unat (bf_write_index b) = k \<and> unat (bf_count b) = min (length vs) N \<and>
     bf_rollover b = word_of_nat (length vs - N) \<and> drop k (bf_buffer b) @ take k (bf_buffer b) = drop (length vs) (replicate N 0 @ vs))"

lemma ring_holds_new: "0 < n \<Longrightarrow> ring_holds n [] (new_buffer n)"
  by (simp add: ring_holds_def new_buffer_def Let_def)

lemma rotate_write:
  assumes "k < length b"
  shows "drop (Suc k mod length b) (b[k := v]) @ take (Suc k mod length b) (b[k := v]) = tl (drop k b @ take k b) @ [v]"
proof (cases "Suc k = length b")
  case True
  then have "drop k b = [b ! k]" using Cons_nth_drop_Suc [OF assms] by simp
  moreover have "b[k := v] = take k b @ [v]" using assms True by (simp add: upd_conv_take_nth_drop)
  ultimately show ?thesis using True by simp
next
  case False
  then have "Suc k < length b" using assms by simp
  then show ?thesis using Cons_nth_drop_Suc [OF assms, symmetric] by (simp add: take_Suc_conv_app_nth)
qed

lemma drop_Suc_snoc: "n < length xs \<Longrightarrow> drop (Suc n) (xs @ [v]) = tl (drop n xs) @ [v]"
  by (simp add: tl_drop drop_Suc [symmetric])

lemma push_holds:
  assumes "ring_holds n vs b" "0 < n"
  shows "\<exists>b'. push v b = Some b' \<and> ring_holds n (vs @ [v]) b'"
proof -
  define N k where "N = unat n" and "k = length vs mod N"
  have N: "0 < N" using assms(2) by (simp add: N_def unat_gt_0 word_gt_0)
  have h: "bf_size b = n" "length (bf_buffer b) = N" "unat (bf_write_index b) = k" "unat (bf_count b) = min (length vs) N"
      "bf_rollover b = word_of_nat (length vs - N)" "drop k (bf_buffer b) @ take k (bf_buffer b) = drop (length vs) (replicate N 0 @ vs)"
    using assms(1) by (simp_all add: ring_holds_def Let_def N_def k_def)
  have k: "k < length (bf_buffer b)" using N h(2) by (simp add: k_def)
  have wi: "unat ((bf_write_index b + 1) mod n) = Suc k mod N"
  proof -
    have "unat (bf_write_index b + 1) = Suc k" using k h(2,3) unat_Suc_below [of "bf_write_index b" n] by (simp add: N_def)
    then show ?thesis by (simp add: unat_mod_distrib N_def)
  qed
  have full: "bf_count b = n \<longleftrightarrow> N \<le> length vs" using h(4) by (auto simp: N_def word_unat_eq_iff)
  have cnt: "unat (bf_count b + 1) = Suc (length vs)" if "length vs < N"
    using that h(4) unat_Suc_below [of "bf_count b" n] by (simp add: N_def)
  have rot: "drop (Suc k mod N) ((bf_buffer b)[k := v]) @ take (Suc k mod N) ((bf_buffer b)[k := v]) = drop (Suc (length vs)) (replicate N 0 @ vs @ [v])"
    using rotate_write [OF k, of v] h(2,6) N drop_Suc_snoc [of "length vs" "replicate N 0 @ vs" v] by simp
  have sk: "length (vs @ [v]) mod N = Suc k mod N" by (simp add: k_def mod_Suc_eq)
  show ?thesis
  proof (cases "N \<le> length vs")
    case True
    then show ?thesis using h k wi full rot assms(2) sk
      by (simp add: push_def ub_simps ring_holds_def Let_def N_def [symmetric] Suc_diff_le)
  next
    case False
    then show ?thesis using h k wi full rot assms(2) sk cnt
      by (simp add: push_def ub_simps ring_holds_def Let_def N_def [symmetric])
  qed
qed

lemma push_all_holds: "ring_holds n us b \<Longrightarrow> 0 < n \<Longrightarrow> \<exists>b'. push_all vs b = Some b' \<and> ring_holds n (us @ vs) b'"
proof (induction vs arbitrary: us b)
  case (Cons v vs)
  obtain b1 where b1: "push v b = Some b1" "ring_holds n (us @ [v]) b1" using push_holds [OF Cons.prems] by blast
  show ?case using Cons.IH [OF b1(2) Cons.prems(2)] b1(1) by simp
qed simp

text \<open>
  The ring buffer holds the latest samples: after any sequence of pushes into a buffer of capacity \<open>n > 0\<close> its values
  are the last \<open>n\<close> pushed, or all of them while it is not full, and the overwritten ones are counted.
\<close>

theorem ring_keeps_latest:
  assumes "0 < n"
  shows "\<exists>b xs. push_all vs (new_buffer n) = Some b \<and> get_values b = Some xs \<and> mset xs = mset (drop (length vs - unat n) vs) \<and>
    bf_rollover b = word_of_nat (length vs - unat n)"
proof -
  obtain b where b: "push_all vs (new_buffer n) = Some b" "ring_holds n vs b"
    using push_all_holds [OF ring_holds_new [OF assms] assms, of vs] by auto
  define N k where "N = unat n" and "k = length vs mod N"
  have h: "length (bf_buffer b) = N" "unat (bf_count b) = min (length vs) N" "bf_rollover b = word_of_nat (length vs - N)"
      "drop k (bf_buffer b) @ take k (bf_buffer b) = drop (length vs) (replicate N 0 @ vs)"
    using b(2) by (simp_all add: ring_holds_def Let_def N_def k_def)
  have g: "get_values b = Some (take (min (length vs) N) (bf_buffer b))" using h(1,2) by (simp add: get_values_def)
  show ?thesis
  proof (cases "length vs < N")
    case True
    then have "take k (bf_buffer b) = drop (N - k) (drop (length vs) (replicate N 0 @ vs))" using h(1) arg_cong [OF h(4), of "drop (N - k)"] by (simp add: k_def)
    then have "take (length vs) (bf_buffer b) = vs" using True by (simp add: k_def)
    then show ?thesis using True b(1) g h(3) by (simp add: N_def [symmetric])
  next
    case False
    have "mset (bf_buffer b) = mset (drop k (bf_buffer b) @ take k (bf_buffer b))" by (metis append_take_drop_id mset_append union_commute)
    also have "\<dots> = mset (drop (length vs - N) vs)" using False h(4) by simp
    finally show ?thesis using False b(1) g h(1,3) by (simp add: N_def [symmetric])
  qed
qed

theorem ring_keeps_latest_witness:
  "\<exists>b xs. push_all [5, 6, 7, 8, 9] (new_buffer 3) = Some b \<and> get_values b = Some xs \<and> mset xs = {#7, 8, 9#} \<and> bf_rollover b = 2"
  using ring_keeps_latest [of 3 "[5, 6, 7, 8, 9]"] by simp

text \<open>The counts of a histogram: bucket \<open>i\<close> gains the samples whose first containing bucket it is; the last one also the strays.\<close>

lemma find_bucket_loop_bounds: "find_bucket_loop bs v i = Some j \<Longrightarrow> i \<le> j \<and> j < i + length bs"
  by (induction bs v i rule: find_bucket_loop.induct) (auto split: if_splits)

lemma find_bucket_index_bounds: "bs \<noteq> [] \<Longrightarrow> 0 \<le> find_bucket_index bs v \<and> nat (find_bucket_index bs v) < length bs"
  using find_bucket_loop_bounds [of bs v 0] by (cases bs) (auto simp: find_bucket_index_def split: option.splits)

definition add_samples :: "u64 list \<Rightarrow> bucket_s list \<Rightarrow> bucket_s list" where
  "add_samples vs bs = map (\<lambda>i. (bs ! i)\<lparr>b_count := b_count (bs ! i) + word_of_nat (length (filter (\<lambda>v. find_bucket_index bs v = int i) vs))\<rparr>) [0..<length bs]"

lemma find_bucket_loop_cong:
  "map (\<lambda>b. (b_min b, b_max b)) bs = map (\<lambda>b. (b_min b, b_max b)) cs \<Longrightarrow> find_bucket_loop bs v i = find_bucket_loop cs v i"
proof (induction bs arbitrary: cs i)
  case (Cons b bs)
  then obtain c cs' where c: "cs = c # cs'" by (cases cs) auto
  then have "contains c v = contains b v" using Cons.prems by (simp add: contains_def)
  then show ?case using Cons.IH [of cs'] Cons.prems c by simp
qed simp

lemma find_bucket_index_cong:
  assumes "map (\<lambda>b. (b_min b, b_max b)) bs = map (\<lambda>b. (b_min b, b_max b)) cs"
  shows "find_bucket_index bs v = find_bucket_index cs v"
  using find_bucket_loop_cong [OF assms, of v 0] map_eq_imp_length_eq [OF assms] by (simp add: find_bucket_index_def split: option.split)

lemma bounds_kept: "i < length bs \<Longrightarrow> map (\<lambda>b. (b_min b, b_max b)) (bs[i := (bs ! i)\<lparr>b_count := c\<rparr>]) = map (\<lambda>b. (b_min b, b_max b)) bs"
  by (simp add: map_update list_update_same_conv)

lemma process_values_counts: "bs \<noteq> [] \<Longrightarrow> process_values vs bs = Some (add_samples vs bs)"
proof (induction vs arbitrary: bs)
  case Nil
  then show ?case by (simp add: add_samples_def map_nth)
next
  case (Cons v vs)
  let ?i = "nat (find_bucket_index bs v)"
  let ?b = "bs[?i := (bs ! ?i)\<lparr>b_count := b_count (bs ! ?i) + 1\<rparr>]"
  have i: "0 \<le> find_bucket_index bs v" "?i < length bs" using find_bucket_index_bounds [OF Cons.prems] by auto
  have c: "find_bucket_index ?b u = find_bucket_index bs u" for u using find_bucket_index_cong [OF bounds_kept [OF i(2)]] .
  have "process_values (v # vs) bs = process_values vs ?b" using i by (simp add: count_bucket_def ub_simps)
  also have "\<dots> = Some (add_samples vs ?b)" using Cons by simp
  also have "add_samples vs ?b = add_samples (v # vs) bs"
  proof (rule nth_equalityI)
    fix j assume "j < length (add_samples vs ?b)"
    then have j: "j < length bs" by (simp add: add_samples_def)
    show "add_samples vs ?b ! j = add_samples (v # vs) bs ! j"
      using i j by (cases "j = ?i") (auto simp: add_samples_def c)
  qed (simp add: add_samples_def)
  finally show ?case .
qed

fun log_times :: "u64 list \<Rightarrow> time_histogram_s \<Rightarrow> time_histogram_s option" where
  "log_times [] h = Some h"
| "log_times (t # ts) h = do { h \<leftarrow> log_time t h; log_times ts h }"

lemma map_get_bump: "map_get 0 i (map_bump k m) = map_get 0 i m + (if i = k then 1 else 0)"
  by (simp add: map_get_def map_bump_def map_of_map_put)

text \<open>The bucket of a time, in unbounded arithmetic.\<close>

definition time_bucket :: "nat \<Rightarrow> nat \<Rightarrow> u64 \<Rightarrow> nat" where
  "time_bucket mb l t = min (unat t div 2 ^ l) (mb - 1)"

lemma bucket_index_time:
  assumes "0 < max_buckets h" "max_buckets h < 2 ^ 31" "unat (bucket_sz_log2 h) < 64"
  shows "bucket_index h t = Some (word_of_nat (time_bucket (nat (max_buckets h)) (unat (bucket_sz_log2 h)) t))"
proof -
  let ?i = "drop_bit (unat (bucket_sz_log2 h)) t"
  have i: "unat ?i = unat t div 2 ^ unat (bucket_sz_log2 h)" unfolding unsigned_drop_bit_eq
    using take_bit_nat_eq_self [of "unat t" 64] unat_lt [of t] by (simp add: drop_bit_eq_div)
  have m: "uint (word_of_int (max_buckets h) :: u64) = max_buckets h" using assms(1,2) by (simp add: unsigned_of_int take_bit_int_eq_self)
  have lt: "?i < word_of_int (max_buckets h) \<longleftrightarrow> unat ?i < nat (max_buckets h)"
    unfolding word_less_def m zless_nat_eq_int_zless by (simp only: uint_nat)
  have last: "(word_of_int (max_buckets h - 1) :: u64) = word_of_nat (nat (max_buckets h) - 1)"
  proof -
    have "int (nat (max_buckets h) - 1) = max_buckets h - 1" using assms(1) by simp
    then show ?thesis by (metis of_int_of_nat_eq)
  qed
  show ?thesis
  proof (cases "unat ?i < nat (max_buckets h)")
    case True
    then have "time_bucket (nat (max_buckets h)) (unat (bucket_sz_log2 h)) t = unat ?i" unfolding time_bucket_def i [symmetric] by simp
    moreover have "bucket_index h t = Some ?i" using True lt assms(3) by (simp add: bucket_index_def Let_def del: drop_bit_eq_div)
    ultimately show ?thesis by simp
  next
    case False
    then have "time_bucket (nat (max_buckets h)) (unat (bucket_sz_log2 h)) t = nat (max_buckets h) - 1" unfolding time_bucket_def i [symmetric] by simp
    moreover have "bucket_index h t = Some (word_of_int (max_buckets h - 1))" using False lt assms(3) by (simp add: bucket_index_def Let_def)
    ultimately show ?thesis using last by simp
  qed
qed

lemma log_times_counts:
  assumes "0 < mb" "mb < 2 ^ 31" "unat l < 64"
  defines "idx t \<equiv> word_of_nat (time_bucket (nat mb) (unat l) t)"
  shows "max_buckets h = mb \<Longrightarrow> bucket_sz_log2 h = l \<Longrightarrow> \<exists>h'. log_times ts h = Some h' \<and>
    (\<forall>i. map_get 0 i (th_buckets h') = map_get 0 i (th_buckets h) + word_of_nat (length (filter (\<lambda>t. idx t = i) ts)))"
proof (induction ts arbitrary: h)
  case (Cons t ts)
  let ?h = "h\<lparr>th_buckets := map_bump (idx t) (th_buckets h)\<rparr>"
  have "log_time t h = Some ?h" using bucket_index_time [of h t] assms(1-3) Cons.prems by (simp add: log_time_def idx_def)
  moreover obtain h' where "log_times ts ?h = Some h'"
      "\<forall>i. map_get 0 i (th_buckets h') = map_get 0 i (th_buckets ?h) + word_of_nat (length (filter (\<lambda>t. idx t = i) ts))"
    using Cons.IH [of ?h] Cons.prems by auto
  ultimately show ?case by (auto simp: map_get_bump)
qed simp

text \<open>
  C31: The histogram of completion times counts, for each bucket \<open>i\<close>, the times \<open>t\<close> with \<open>t div 2^l = i\<close>; the last bucket
  also counts everything beyond it, and there are no other buckets.
\<close>

theorem time_histogram_counts:
  assumes "0 < mb" "mb < 2 ^ 31" "unat l < 64"
  shows "\<exists>h. log_times ts (new_time_histogram mb l) = Some h \<and>
    (\<forall>i. map_get 0 i (th_buckets h) = word_of_nat (length (filter (\<lambda>t. word_of_nat (time_bucket (nat mb) (unat l) t) = i) ts))) \<and>
    (\<forall>t. time_bucket (nat mb) (unat l) t < nat mb)"
  using log_times_counts [OF assms, of "new_time_histogram mb l" ts] assms(1)
  by (auto simp: new_time_histogram_def map_get_def time_bucket_def)

theorem time_histogram_counts_witness:
  "\<exists>h. log_times [100, 1500, 9999, 2000] (new_time_histogram 5 10) = Some h \<and> map_get 0 1 (th_buckets h) = 2 \<and> map_get 0 4 (th_buckets h) = 1"
proof -
  have f: "word_of_nat (length (filter (\<lambda>t. word_of_nat (time_bucket (nat 5) (unat (10 :: u32)) t) = (1 :: u64)) [100, 1500, 9999, 2000])) = (2 :: u64)"
    "word_of_nat (length (filter (\<lambda>t. word_of_nat (time_bucket (nat 5) (unat (10 :: u32)) t) = (4 :: u64)) [100, 1500, 9999, 2000])) = (1 :: u64)"
    by code_simp+
  have "unat (10 :: u32) < 64" by code_simp
  then obtain h where "log_times [100, 1500, 9999, 2000] (new_time_histogram 5 10) = Some h"
      "\<forall>i. map_get 0 i (th_buckets h) = word_of_nat (length (filter (\<lambda>t. word_of_nat (time_bucket (nat 5) (unat (10 :: u32)) t) = i) [100, 1500, 9999, 2000]))"
    using time_histogram_counts [of 5 10 "[100, 1500, 9999, 2000]"] by auto
  then show ?thesis using f by simp
qed

end
