(* ===== verification/Telemetry.thy ===== *)
theory Telemetry
  imports Metrics
begin

text \<open>
  The telemetry state of \<open>anp_state.h\<close>: devices, channels and queue pairs, the counters the data path updates, the
  configuration and the JSON report.

  \<open>devices\<close>, \<open>channels\<close>, \<open>queue_pairs\<close> and \<open>queue_state\<close> are \<open>unordered_map\<close>s; the order in which such a map is
  traversed is a parameter \<open>iter\<close>, a function of its keys.  \<open>queue_state[id]\<close> creates a null pointer for an unknown
  identifier, as \<open>operator[]\<close> does: it maps to \<open>None\<close>.  The property tree of the report is a \<open>jtree\<close>; its rendering, the
  clock and the file system are outside the repository.
\<close>

subsection \<open>State\<close>

record qp_stats_s =
  num_wqe_sent :: u64
  num_wqe_rcvd :: u64
  num_wqe_completed :: u64
  num_wqe_errors :: u64
  num_slot_miss :: u64
  q_cts_sent :: u64
  q_cts_unsignalled :: u64
  q_cts_signalled :: u64
  q_recv_wqe :: u64
  q_write_wqe :: u64
  q_write_imm_wqe :: u64
  time_min :: u64
  time_max :: u64

definition zero_stats :: qp_stats_s where
  "zero_stats = \<lparr>num_wqe_sent = 0, num_wqe_rcvd = 0, num_wqe_completed = 0, num_wqe_errors = 0, num_slot_miss = 0, q_cts_sent = 0,
     q_cts_unsignalled = 0, q_cts_signalled = 0, q_recv_wqe = 0, q_write_wqe = 0, q_write_imm_wqe = 0, time_min = 0, time_max = 0\<rparr>"

text \<open>\<open>status.data_qp\<close> has no initialiser: \<open>None\<close> until it is assigned.\<close>

record qp_info_s =
  qi_stats :: qp_stats_s
  qi_data_qp :: "bool option"
  qi_completion :: time_histogram_s
  qi_tracker :: "(u64 \<times> u64) list"

definition new_qp_info :: "int \<Rightarrow> u32 \<Rightarrow> qp_info_s" where
  "new_qp_info mb l = \<lparr>qi_stats = zero_stats, qi_data_qp = None, qi_completion = new_time_histogram mb l, qi_tracker = []\<rparr>"

record channel_s =
  queue_pairs :: "(int \<times> qp_info_s) list"

record device_s =
  wqe_size_metrics :: "(u32 \<times> u64) list"
  cq_poll_count :: u64
  eth_device :: string
  roce_device :: string
  channels :: "(int \<times> channel_s) list"

definition new_device :: device_s where
  "new_device = \<lparr>wqe_size_metrics = [], cq_poll_count = 0, eth_device = [], roce_device = [], channels = []\<rparr>"

datatype anp_log_level_e = LOG_NONE | LOG_ERROR | LOG_INFO | LOG_DEBUG | LOG_VERBOSE

record anp_state =
  st_device_id :: "int option"
  st_process_id :: int
  st_host_name :: string
  st_output_dir :: string
  st_process_name :: string
  st_config_path :: string
  st_start_time :: int
  st_end_time :: int
  st_max_buckets :: int
  st_bucket_log2 :: u32
  devices :: "(int \<times> device_s) list"
  queue_state :: "(int \<times> qp_info_s option) list"
  st_log_level :: anp_log_level_e

subsection \<open>Devices and queue pairs\<close>

definition set_device_name :: "int \<Rightarrow> string \<Rightarrow> string \<Rightarrow> anp_state \<Rightarrow> anp_state" where
  "set_device_name d eth roce st = (if map_of (devices st) d = None
     then st\<lparr>devices := map_put d (new_device\<lparr>eth_device := eth, roce_device := roce\<rparr>) (devices st), st_device_id := Some d\<rparr>
     else st)"

definition add_queue_pair :: "int \<Rightarrow> int \<Rightarrow> int \<Rightarrow> bool \<Rightarrow> anp_state \<Rightarrow> anp_state" where
  "add_queue_pair d ch q data_qp st =
     (let i = new_qp_info (st_max_buckets st) (st_bucket_log2 st);
          dev = map_get new_device d (devices st);
          chan = map_get \<lparr>queue_pairs = []\<rparr> ch (channels dev);
          chan = chan\<lparr>queue_pairs := map_put q i (queue_pairs chan)\<rparr>;
          dev = dev\<lparr>channels := map_put ch chan (channels dev)\<rparr>
      in st\<lparr>devices := map_put d dev (devices st), queue_state := map_put q (Some (i\<lparr>qi_data_qp := Some data_qp\<rparr>)) (queue_state st)\<rparr>)"

definition remove_queue_pair :: "int \<Rightarrow> int \<Rightarrow> int \<Rightarrow> anp_state \<Rightarrow> anp_state" where
  "remove_queue_pair d ch q st = (case map_of (devices st) d of
     None \<Rightarrow> st
   | Some dev \<Rightarrow>
     let chans = (case map_of (channels dev) ch of
           None \<Rightarrow> channels dev
         | Some chan \<Rightarrow> let qs = map_erase q (queue_pairs chan) in
             if qs = [] then map_erase ch (channels dev) else map_put ch (chan\<lparr>queue_pairs := qs\<rparr>) (channels dev))
     in if chans = [] then st\<lparr>devices := map_erase d (devices st)\<rparr>
        else st\<lparr>devices := map_put d (dev\<lparr>channels := chans\<rparr>) (devices st)\<rparr>)"

subsection \<open>Counters\<close>

text \<open>\<open>auto& qp_info = queue_state[qp_id]; if (!qp_info) return;\<close> and then the update.\<close>

definition with_qp :: "int \<Rightarrow> (qp_info_s \<Rightarrow> qp_info_s option) \<Rightarrow> anp_state \<Rightarrow> anp_state option" where
  "with_qp q f st = (case map_of (queue_state st) q of
     None \<Rightarrow> Some (st\<lparr>queue_state := map_put q None (queue_state st)\<rparr>)
   | Some None \<Rightarrow> Some st
   | Some (Some i) \<Rightarrow> do { i \<leftarrow> f i; Some (st\<lparr>queue_state := map_put q (Some i) (queue_state st)\<rparr>) })"

definition stats_op :: "(qp_stats_s \<Rightarrow> qp_stats_s) \<Rightarrow> qp_info_s \<Rightarrow> qp_info_s option" where
  "stats_op f i = Some (i\<lparr>qi_stats := f (qi_stats i)\<rparr>)"

definition track_send :: "u64 \<Rightarrow> u64 \<Rightarrow> qp_info_s \<Rightarrow> qp_info_s option" where
  "track_send wid t i = Some (i\<lparr>qi_stats := (qi_stats i)\<lparr>num_wqe_sent := num_wqe_sent (qi_stats i) + 1\<rparr>, qi_tracker := map_put wid t (qi_tracker i)\<rparr>)"

definition update_wqe_send_metrics :: "int \<Rightarrow> u64 \<Rightarrow> u64 \<Rightarrow> anp_state \<Rightarrow> anp_state option" where
  "update_wqe_send_metrics q wid t = with_qp q (track_send wid t)"

definition update_recv_wqe_metrics :: "int \<Rightarrow> u64 \<Rightarrow> u64 \<Rightarrow> anp_state \<Rightarrow> anp_state option" where
  "update_recv_wqe_metrics q wid t = with_qp q (track_send wid t)"

definition record_time :: "u64 \<Rightarrow> qp_stats_s \<Rightarrow> qp_stats_s" where
  "record_time t s = s\<lparr>num_wqe_completed := num_wqe_completed s + 1,
     time_max := (if time_max s < t then t else time_max s),
     time_min := (if t < time_min s \<or> time_min s = 0 then t else time_min s)\<rparr>"

definition complete_wqe :: "u64 \<Rightarrow> u64 \<Rightarrow> qp_info_s \<Rightarrow> qp_info_s option" where
  "complete_wqe wid now i =
     (let i = i\<lparr>qi_stats := (qi_stats i)\<lparr>num_wqe_rcvd := num_wqe_rcvd (qi_stats i) + 1\<rparr>\<rparr> in
      case map_of (qi_tracker i) wid of
        None \<Rightarrow> Some i
      | Some start \<Rightarrow> do {
          h \<leftarrow> log_time (now - start) (qi_completion i);
          Some (i\<lparr>qi_stats := record_time (now - start) (qi_stats i), qi_completion := h, qi_tracker := map_erase wid (qi_tracker i)\<rparr>) })"

definition update_wqe_rcvd_metrics :: "int \<Rightarrow> u64 \<Rightarrow> u64 \<Rightarrow> anp_state \<Rightarrow> anp_state option" where
  "update_wqe_rcvd_metrics q wid now = with_qp q (complete_wqe wid now)"

definition update_slot_miss_metrics :: "int \<Rightarrow> anp_state \<Rightarrow> anp_state option" where
  "update_slot_miss_metrics q = with_qp q (stats_op (\<lambda>s. s\<lparr>num_slot_miss := num_slot_miss s + 1\<rparr>))"

definition update_cts_send_metrics :: "int \<Rightarrow> anp_state \<Rightarrow> anp_state option" where
  "update_cts_send_metrics q = with_qp q (stats_op (\<lambda>s. s\<lparr>q_cts_sent := q_cts_sent s + 1, num_wqe_sent := num_wqe_sent s + 1\<rparr>))"

definition increment_num_cts_sent :: "int \<Rightarrow> anp_state \<Rightarrow> anp_state option" where
  "increment_num_cts_sent q = with_qp q (stats_op (\<lambda>s. s\<lparr>q_cts_sent := q_cts_sent s + 1\<rparr>))"

definition increment_num_cts_sent_unsignalled :: "int \<Rightarrow> anp_state \<Rightarrow> anp_state option" where
  "increment_num_cts_sent_unsignalled q = with_qp q (stats_op (\<lambda>s. s\<lparr>q_cts_unsignalled := q_cts_unsignalled s + 1\<rparr>))"

definition increment_num_cts_sent_signalled :: "int \<Rightarrow> anp_state \<Rightarrow> anp_state option" where
  "increment_num_cts_sent_signalled q = with_qp q (stats_op (\<lambda>s. s\<lparr>q_cts_signalled := q_cts_signalled s + 1\<rparr>))"

definition increment_num_recv_wqe :: "int \<Rightarrow> anp_state \<Rightarrow> anp_state option" where
  "increment_num_recv_wqe q = with_qp q (stats_op (\<lambda>s. s\<lparr>q_recv_wqe := q_recv_wqe s + 1\<rparr>))"

definition increment_num_write_wqe :: "int \<Rightarrow> u32 \<Rightarrow> anp_state \<Rightarrow> anp_state option" where
  "increment_num_write_wqe q n = with_qp q (stats_op (\<lambda>s. s\<lparr>q_write_wqe := q_write_wqe s + ucast n\<rparr>))"

definition increment_num_write_imm_wqe :: "int \<Rightarrow> anp_state \<Rightarrow> anp_state option" where
  "increment_num_write_imm_wqe q = with_qp q (stats_op (\<lambda>s. s\<lparr>q_write_imm_wqe := q_write_imm_wqe s + 1\<rparr>))"

text \<open>The device counters go to \<open>devices.begin()\<close>, whichever device that is.\<close>

definition first_device :: "(int list \<Rightarrow> int list) \<Rightarrow> (device_s \<Rightarrow> device_s) \<Rightarrow> anp_state \<Rightarrow> anp_state option" where
  "first_device iter f st = (if devices st = [] then Some st
     else case iter (map fst (devices st)) of
       [] \<Rightarrow> None
     | d # _ \<Rightarrow> do { dev \<leftarrow> map_of (devices st) d; Some (st\<lparr>devices := map_put d (f dev) (devices st)\<rparr>) })"

definition update_wqe_size_metrics :: "(int list \<Rightarrow> int list) \<Rightarrow> u32 \<Rightarrow> anp_state \<Rightarrow> anp_state option" where
  "update_wqe_size_metrics iter len = first_device iter (\<lambda>dev. dev\<lparr>wqe_size_metrics := map_bump len (wqe_size_metrics dev)\<rparr>)"

definition update_cq_poll_metrics :: "(int list \<Rightarrow> int list) \<Rightarrow> anp_state \<Rightarrow> anp_state option" where
  "update_cq_poll_metrics iter = first_device iter (\<lambda>dev. dev\<lparr>cq_poll_count := cq_poll_count dev + 1\<rparr>)"

subsection \<open>The report\<close>

datatype jtree = JInt int | JNat u64 | JStr string | JBool bool | JObj "(string \<times> jtree) list"

definition int_str :: "int \<Rightarrow> string" where
  "int_str v = (if v < 0 then ''-'' @ dec_of_nat (nat (- v)) else dec_of_nat (nat v))"

record totals =
  t_sent :: u64
  t_rcvd :: u64
  t_data_qp :: u64
  t_cts_qp :: u64
  t_cts_sent :: u64

definition zero_totals :: totals where
  "zero_totals = \<lparr>t_sent = 0, t_rcvd = 0, t_data_qp = 0, t_cts_qp = 0, t_cts_sent = 0\<rparr>"

definition add_totals :: "totals \<Rightarrow> totals \<Rightarrow> totals" where
  "add_totals a b = \<lparr>t_sent = t_sent a + t_sent b, t_rcvd = t_rcvd a + t_rcvd b, t_data_qp = t_data_qp a + t_data_qp b,
     t_cts_qp = t_cts_qp a + t_cts_qp b, t_cts_sent = t_cts_sent a + t_cts_sent b\<rparr>"

text \<open>The buckets in the order of their index; the last one reports the largest time.\<close>

fun json_buckets :: "int \<Rightarrow> u32 \<Rightarrow> u64 \<Rightarrow> (u64 \<times> u64) list \<Rightarrow> (string \<times> jtree) list option" where
  "json_buckets mb l tmax [] = Some []"
| "json_buckets mb l tmax ((k, n) # bs) = do {
     lat \<leftarrow> (if k < word_of_int (mb - 1) then (if 64 \<le> unat l then None else Some (push_bit (unat l) (k + 1) - 1)) else Some tmax);
     rest \<leftarrow> json_buckets mb l tmax bs;
     Some (([], JObj [(''latency_in_ns'', JNat lat), (''num_wqe'', JNat n)]) # rest) }"

definition json_qp_stats :: "qp_stats_s \<Rightarrow> (string \<times> jtree) list" where
  "json_qp_stats s = [(''num_wqe_sent'', JNat (num_wqe_sent s)), (''num_wqe_rcvd'', JNat (num_wqe_rcvd s)),
     (''num_wqe_completed'', JNat (num_wqe_completed s)), (''num_slot_miss'', JNat (num_slot_miss s)), (''num_cts_sent'', JNat (q_cts_sent s)),
     (''num_cts_sent_unsignalled'', JNat (q_cts_unsignalled s)), (''num_cts_sent_signalled'', JNat (q_cts_signalled s)),
     (''num_recv_wqe'', JNat (q_recv_wqe s)), (''num_write_wqe'', JNat (q_write_wqe s)), (''num_wirte_imm_wqe'', JNat (q_write_imm_wqe s)),
     (''wqe_completion_ns_min'', JNat (time_min s)), (''wqe_completion_ns_max'', JNat (time_max s))]"

definition json_qp :: "anp_state \<Rightarrow> int \<Rightarrow> (jtree \<times> totals) option" where
  "json_qp st q = (case map_of (queue_state st) q of
     None \<Rightarrow> Some (JObj [(''id'', JStr (int_str q)), (''status'', JObj []), (''stats'', JObj [])], zero_totals)
   | Some None \<Rightarrow> None
   | Some (Some i) \<Rightarrow> do {
       dq \<leftarrow> qi_data_qp i;
       let s = qi_stats i;
       bs \<leftarrow> json_buckets (st_max_buckets st) (bucket_sz_log2 (qi_completion i)) (time_max s) (sort_key fst (th_buckets (qi_completion i)));
       Some (JObj [(''id'', JStr (int_str q)), (''status'', JObj [(''data_qp'', JBool dq)]),
                   (''stats'', JObj (json_qp_stats s @ [(''wqe_completion_metrics'', JObj bs)]))],
             \<lparr>t_sent = num_wqe_sent s, t_rcvd = num_wqe_rcvd s, t_data_qp = (if dq then 1 else 0), t_cts_qp = (if dq then 0 else 1),
              t_cts_sent = (if dq then 0 else num_wqe_sent s)\<rparr>) })"

text \<open>A loop that collects the entries of an array and adds up their totals.\<close>

fun json_list :: "('k \<Rightarrow> (jtree \<times> totals) option) \<Rightarrow> 'k list \<Rightarrow> ((string \<times> jtree) list \<times> totals) option" where
  "json_list f [] = Some ([], zero_totals)"
| "json_list f (k # ks) = do {
     (e, t) \<leftarrow> f k;
     (es, ts) \<leftarrow> json_list f ks;
     Some (([], e) # es, add_totals t ts) }"

definition json_channel :: "(int list \<Rightarrow> int list) \<Rightarrow> anp_state \<Rightarrow> (int \<times> channel_s) list \<Rightarrow> int \<Rightarrow> (jtree \<times> totals) option" where
  "json_channel iter st chans ch = do {
     chan \<leftarrow> map_of chans ch;
     (qps, t) \<leftarrow> json_list (json_qp st) (iter (map fst (queue_pairs chan)));
     Some (JObj [(''id'', JStr (int_str ch)), (''num_queue_pairs'', JInt (int (length (queue_pairs chan)))), (''queue_pairs'', JObj qps),
                 (''status'', JStr []),
                 (''stats'', JObj [(''num_wqe_sent'', JNat (t_sent t - t_cts_sent t)), (''num_wqe_rcvd'', JNat (t_rcvd t)),
                    (''num_cts_sent'', JNat (t_cts_sent t)), (''num_data_qp'', JNat (t_data_qp t)), (''num_cts_qp'', JNat (t_cts_qp t))])], t) }"

definition json_wqe_sizes :: "(u32 \<times> u64) list \<Rightarrow> jtree" where
  "json_wqe_sizes m = JObj (map (\<lambda>(sz, n). ([], JObj [(''wqe_size'', JInt (uint sz)), (''num_wqe'', JNat n)])) (sort_key fst m))"

definition json_device :: "(int \<Rightarrow> string) \<Rightarrow> (int list \<Rightarrow> int list) \<Rightarrow> anp_state \<Rightarrow> int \<Rightarrow> (jtree \<times> totals) option" where
  "json_device time_to_str iter st d = do {
     dev \<leftarrow> map_of (devices st) d;
     (chans, t) \<leftarrow> json_list (json_channel iter st (channels dev)) (iter (map fst (channels dev)));
     let status = JObj [(''host_name'', JStr (st_host_name st)), (''process_name'', JStr (st_process_name st)), (''process_id'', JInt (st_process_id st)),
           (''start_time'', JStr (time_to_str (st_start_time st))), (''end_time'', JStr (time_to_str (st_end_time st))), (''device_id'', JInt d),
           (''eth_device'', JStr (eth_device dev)), (''roce_device'', JStr (roce_device dev)), (''num_channels'', JInt (int (length (channels dev))))];
     let stats = JObj [(''wqe_size_stats'', json_wqe_sizes (wqe_size_metrics dev)), (''num_wqe_sent'', JNat (t_sent t - t_cts_sent t)),
           (''num_wqe_rcvd'', JNat (t_rcvd t)), (''num_cts_sent'', JNat (t_cts_sent t)), (''num_data_qp'', JNat (t_data_qp t)),
           (''num_cts_qp'', JNat (t_cts_qp t)), (''cq_poll_count'', JNat (cq_poll_count dev))];
     Some (JObj [(''status'', status), (''channels'', JObj chans), (''stats'', stats)], t) }"

definition to_json :: "(int \<Rightarrow> string) \<Rightarrow> (int list \<Rightarrow> int list) \<Rightarrow> anp_state \<Rightarrow> jtree option" where
  "to_json time_to_str iter st = do {
     (ds, t) \<leftarrow> json_list (json_device time_to_str iter st) (iter (map fst (devices st)));
     Some (JObj [(''devices'', JObj ds)]) }"

subsection \<open>Writing the report\<close>

text \<open>The file operations the source calls; \<open>tmp\<close> is the unique suffix of the temporary file.\<close>

record 'f files =
  f_open :: "string \<Rightarrow> 'f \<Rightarrow> bool \<times> 'f"
  f_write :: "string \<Rightarrow> jtree \<Rightarrow> 'f \<Rightarrow> 'f"
  f_rename :: "string \<Rightarrow> string \<Rightarrow> 'f \<Rightarrow> bool \<times> 'f"

definition report_file :: "anp_state \<Rightarrow> string option" where
  "report_file st = map_option (\<lambda>d. st_output_dir st @ ''/device_status_'' @ int_str d @ ''.json'') (st_device_id st)"

definition write_json_to_file :: "'f files \<Rightarrow> string \<Rightarrow> (int \<Rightarrow> string) \<Rightarrow> (int list \<Rightarrow> int list) \<Rightarrow> anp_state \<Rightarrow> 'f \<Rightarrow> 'f option" where
  "write_json_to_file F tmp time_to_str iter st fs = do {
     filename \<leftarrow> report_file st;
     let tmp_path = filename @ tmp;
     if st_output_dir st = [] then Some fs
     else do {
       root \<leftarrow> to_json time_to_str iter st;
       case f_open F tmp_path fs of (ok, fs) \<Rightarrow>
       if \<not> ok then Some fs
       else Some (snd (f_rename F tmp_path filename (f_write F tmp_path root fs))) } }"

text \<open>
  The names in the report.  \<open>link\<close> is the target of \<open>/proc/self/exe\<close>, of which \<open>readlink\<close> stores at most 255 bytes; \<open>name\<close> is the
  buffer of \<open>HOST_NAME_MAX\<close> bytes after a \<open>gethostname\<close> that succeeded, terminated or not.
\<close>

definition HOST_NAME_MAX :: nat where "HOST_NAME_MAX = 64"

definition update_process_name :: "string option \<Rightarrow> anp_state \<Rightarrow> anp_state" where
  "update_process_name link st = st\<lparr>st_process_name := (case link of Some l \<Rightarrow> take 255 l | None \<Rightarrow> ''unknown'')\<rparr>"

definition update_host_name :: "byte list option \<Rightarrow> anp_state \<Rightarrow> anp_state" where
  "update_host_name name st = st\<lparr>st_host_name :=
     (case name of Some b \<Rightarrow> map char_of_byte (cstr (b[HOST_NAME_MAX - 1 := 0])) | None \<Rightarrow> ''unknown'')\<rparr>"

lemma host_name_bounded: "name \<noteq> None \<Longrightarrow> length (the name) = HOST_NAME_MAX \<Longrightarrow> length (st_host_name (update_host_name name st)) < HOST_NAME_MAX"
proof -
  assume a: "name \<noteq> None" "length (the name) = HOST_NAME_MAX"
  let ?b = "(the name)[HOST_NAME_MAX - 1 := 0]"
  have z: "?b ! (HOST_NAME_MAX - 1) = 0" "HOST_NAME_MAX - 1 < length ?b" using a(2) by (simp_all add: HOST_NAME_MAX_def)
  then have "length (takeWhile (\<lambda>b. b \<noteq> 0) ?b) \<le> HOST_NAME_MAX - 1" by (metis (mono_tags) length_takeWhile_le not_le nth_mem set_takeWhileD takeWhile_nth)
  then show ?thesis using a by (auto simp: update_host_name_def cstr_def HOST_NAME_MAX_def)
qed

definition anp_shutdown :: "'f files \<Rightarrow> string \<Rightarrow> (int \<Rightarrow> string) \<Rightarrow> (int list \<Rightarrow> int list) \<Rightarrow> int \<Rightarrow> byte list option \<Rightarrow> string option \<Rightarrow> int \<Rightarrow> anp_state \<Rightarrow> 'f \<Rightarrow> (anp_state \<times> 'f) option" where
  "anp_shutdown F tmp time_to_str iter pid name link now st fs =
     do {
       let st = update_process_name link (update_host_name name (st\<lparr>st_process_id := pid\<rparr>));
       d \<leftarrow> (if devices st = [] then Some (st_device_id st) else case iter (map fst (devices st)) of [] \<Rightarrow> None | d # _ \<Rightarrow> Some (Some d));
       let st = st\<lparr>st_device_id := d, st_end_time := now\<rparr>;
       fs \<leftarrow> write_json_to_file F tmp time_to_str iter st fs;
       Some (st, fs) }"

subsection \<open>Configuration\<close>

definition IS_POWER_OF_2 :: "u64 \<Rightarrow> bool" where
  "IS_POWER_OF_2 n \<longleftrightarrow> n > 0 \<and> n AND (n - 1) = 0"

definition power_of_2 :: "u64 \<Rightarrow> u64" where
  "power_of_2 n = (if n = 0 then 1
     else let n = n - 1;
              n = n OR drop_bit 1 n;
              n = n OR drop_bit 2 n;
              n = n OR drop_bit 4 n;
              n = n OR drop_bit 8 n;
              n = n OR drop_bit 16 n;
              n = n OR drop_bit 32 n
          in n + 1)"

text \<open>\<open>(uint32_t) log2(n)\<close>; the logarithm of 0 does not fit.\<close>

fun log2_loop :: "nat \<Rightarrow> nat \<Rightarrow> nat" where
  "log2_loop f n = (if n < 2 \<or> f = 0 then 0 else Suc (log2_loop (f - 1) (n div 2)))"

declare log2_loop.simps [simp del]

definition log2_u32 :: "u64 \<Rightarrow> u32 option" where
  "log2_u32 n = (if n = 0 then None else Some (word_of_nat (log2_loop 64 (unat n))))"

text \<open>The values read from the configuration file, with the defaults where a key is missing or ill-typed.\<close>

record config_json =
  cj_log_level :: string
  cj_output_dir :: string
  cj_bucket_interval_ns :: u64
  cj_max_buckets :: u64

definition parse_level :: "string \<Rightarrow> anp_log_level_e" where
  "parse_level s = (if s = ''NONE'' then LOG_NONE else if s = ''INFO'' then LOG_INFO else if s = ''DEBUG'' then LOG_DEBUG
     else if s = ''VERBOSE'' then LOG_VERBOSE else LOG_ERROR)"

definition bucket_log2_of :: "u64 \<Rightarrow> u32 option" where
  "bucket_log2_of n = log2_u32 (if \<not> IS_POWER_OF_2 n then power_of_2 n else n)"

text \<open>
  \<open>read path\<close> is the outcome of opening and parsing the file: \<open>None\<close> when it cannot be opened, \<open>Some None\<close> when \<open>read_json\<close>
  throws.
\<close>

definition load_config :: "string option \<Rightarrow> (string \<Rightarrow> config_json option option) \<Rightarrow> anp_state \<Rightarrow> anp_state option" where
  "load_config env read st =
     (let path = (case env of None \<Rightarrow> [] | Some p \<Rightarrow> p);
          st = st\<lparr>st_config_path := path, st_log_level := LOG_ERROR, st_output_dir := ''/tmp'', st_bucket_log2 := 10, st_max_buckets := 5\<rparr>
      in case read path of
        None \<Rightarrow> Some st
      | Some None \<Rightarrow> Some st
      | Some (Some j) \<Rightarrow> do {
          l \<leftarrow> bucket_log2_of (cj_bucket_interval_ns j);
          Some (st\<lparr>st_log_level := parse_level (cj_log_level j), st_output_dir := cj_output_dir j, st_bucket_log2 := l,
                   st_max_buckets := to_int32 (cj_max_buckets j)\<rparr>) })"

subsection \<open>The invariant of the telemetry state\<close>

definition iter_law :: "(int list \<Rightarrow> int list) \<Rightarrow> bool" where
  "iter_law iter \<longleftrightarrow> (\<forall>ks. set (iter ks) = set ks)"

text \<open>A queue pair's information: every completed work request is in its histogram.\<close>

definition qp_ok :: "qp_info_s \<Rightarrow> bool" where
  "qp_ok i \<longleftrightarrow> qi_data_qp i \<noteq> None \<and> unat (bucket_sz_log2 (qi_completion i)) < 64 \<and> distinct (map fst (th_buckets (qi_completion i))) \<and>
     num_wqe_completed (qi_stats i) = sum_list (map snd (th_buckets (qi_completion i)))"

definition qp_ids :: "channel_s \<Rightarrow> int list" where
  "qp_ids chan = map fst (queue_pairs chan)"

definition dev_lists :: "(int \<times> channel_s) list \<Rightarrow> int \<Rightarrow> bool" where
  "dev_lists chans q \<longleftrightarrow> (\<exists>ch chan. map_of chans ch = Some chan \<and> q \<in> set (qp_ids chan))"

definition listed_in :: "(int \<times> device_s) list \<Rightarrow> int \<Rightarrow> bool" where
  "listed_in devs q \<longleftrightarrow> (\<exists>d dev. map_of devs d = Some dev \<and> dev_lists (channels dev) q)"

abbreviation listed :: "anp_state \<Rightarrow> int \<Rightarrow> bool" where
  "listed st \<equiv> listed_in (devices st)"

lemma dev_lists_put: "dev_lists (map_put ch chan chans) q \<Longrightarrow> q \<in> set (qp_ids chan) \<or> dev_lists chans q"
  by (auto simp: dev_lists_def map_of_map_put split: if_splits)

lemma dev_lists_erase: "dev_lists (map_erase ch chans) q \<Longrightarrow> dev_lists chans q"
  by (auto simp: dev_lists_def map_of_map_erase split: if_splits)

lemma listed_put: "listed_in (map_put d dev devs) q \<Longrightarrow> dev_lists (channels dev) q \<or> listed_in devs q"
  by (auto simp: listed_in_def map_of_map_put split: if_splits)

lemma listed_erase: "listed_in (map_erase d devs) q \<Longrightarrow> listed_in devs q"
  by (auto simp: listed_in_def map_of_map_erase split: if_splits)

lemma listedI: "map_of devs d = Some dev \<Longrightarrow> dev_lists (channels dev) q \<Longrightarrow> listed_in devs q"
  by (auto simp: listed_in_def)

lemma dev_listsI: "map_of chans ch = Some chan \<Longrightarrow> q \<in> set (qp_ids chan) \<Longrightarrow> dev_lists chans q"
  by (auto simp: dev_lists_def)

lemma new_device_lists: "\<not> dev_lists (channels (new_device\<lparr>eth_device := e, roce_device := r\<rparr>)) q" "\<not> dev_lists (channels new_device) q"
  by (simp_all add: dev_lists_def new_device_def)

definition tele_ok :: "anp_state \<Rightarrow> bool" where
  "tele_ok st \<longleftrightarrow> unat (st_bucket_log2 st) < 64 \<and> (\<forall>q i. map_of (queue_state st) q = Some (Some i) \<longrightarrow> qp_ok i) \<and>
     (\<forall>q. listed st q \<longrightarrow> (\<exists>i. map_of (queue_state st) q = Some (Some i)))"

lemma tele_ok_frame:
  assumes "tele_ok st" "queue_state st' = queue_state st" "st_bucket_log2 st' = st_bucket_log2 st" "\<And>q. listed st' q \<Longrightarrow> listed st q"
  shows "tele_ok st'"
  using assms by (simp add: tele_ok_def)

lemma with_qp_ok:
  assumes "tele_ok st" "\<And>i. qp_ok i \<Longrightarrow> \<exists>i'. f i = Some i' \<and> qp_ok i'"
  shows "\<exists>st'. with_qp q f st = Some st' \<and> tele_ok st'"
proof -
  consider "map_of (queue_state st) q = None" | "map_of (queue_state st) q = Some None" | i where "map_of (queue_state st) q = Some (Some i)"
    by (metis option.exhaust)
  then show ?thesis
  proof cases
    case 1
    then have "\<not> listed st q" using assms(1) by (auto simp: tele_ok_def)
    then show ?thesis using 1 assms(1) by (auto simp: with_qp_def tele_ok_def map_of_map_put)
  next
    case 2
    then show ?thesis using assms(1) by (simp add: with_qp_def)
  next
    case (3 i)
    then have "qp_ok i" using assms(1) by (simp add: tele_ok_def)
    then obtain i' where "f i = Some i'" "qp_ok i'" using assms(2) by blast
    then show ?thesis using 3 assms(1) by (auto simp: with_qp_def tele_ok_def map_of_map_put)
  qed
qed

lemma stats_op_ok: "(\<And>s. num_wqe_completed (f s) = num_wqe_completed s) \<Longrightarrow> qp_ok i \<Longrightarrow> \<exists>i'. stats_op f i = Some i' \<and> qp_ok i'"
  by (simp add: stats_op_def qp_ok_def)

lemma track_send_ok: "qp_ok i \<Longrightarrow> \<exists>i'. track_send wid t i = Some i' \<and> qp_ok i'"
  by (simp add: track_send_def qp_ok_def)

lemma map_bump_sum:
  "distinct (map fst m) \<Longrightarrow> distinct (map fst (map_bump k m)) \<and> sum_list (map snd (map_bump k m)) = sum_list (map snd m) + 1"
  using sum_map_bump [of m k] distinct_map_put [of m k] by (simp add: map_bump_def)

lemma complete_wqe_ok: "qp_ok i \<Longrightarrow> \<exists>i'. complete_wqe wid now i = Some i' \<and> qp_ok i'"
proof -
  assume i: "qp_ok i"
  show ?thesis
  proof (cases "map_of (qi_tracker i) wid")
    case None
    then show ?thesis using i by (simp add: complete_wqe_def qp_ok_def)
  next
    case (Some start)
    obtain k where k: "bucket_index (qi_completion i) (now - start) = Some k" using i by (simp add: bucket_index_def qp_ok_def Let_def)
    show ?thesis using i Some k map_bump_sum [of "th_buckets (qi_completion i)" k]
      by (simp add: complete_wqe_def log_time_def qp_ok_def record_time_def)
  qed
qed

lemma first_device_ok:
  assumes "tele_ok st" "iter_law iter" "\<And>dev. channels (f dev) = channels dev"
  shows "\<exists>st'. first_device iter f st = Some st' \<and> tele_ok st'"
proof (cases "devices st = []")
  case True
  then show ?thesis using assms(1) by (simp add: first_device_def)
next
  case False
  then obtain d ds where d: "iter (map fst (devices st)) = d # ds" using assms(2) by (cases "iter (map fst (devices st))") (auto simp: iter_law_def dest: spec [of _ "map fst (devices st)"])
  then have "d \<in> set (map fst (devices st))" using assms(2) unfolding iter_law_def by (metis list.set_intros(1))
  then obtain dev where dev: "map_of (devices st) d = Some dev" by (metis map_of_eq_None_iff not_None_eq set_map)
  let ?st = "st\<lparr>devices := map_put d (f dev) (devices st)\<rparr>"
  have "listed ?st q \<Longrightarrow> listed st q" for q
    using listed_put [of d "f dev" "devices st" q] listedI [OF dev] assms(3) by auto
  then have "tele_ok ?st" by (intro tele_ok_frame [OF assms(1)]) simp_all
  then show ?thesis using False d dev by (simp add: first_device_def)
qed

lemma set_device_name_ok: "tele_ok st \<Longrightarrow> tele_ok (set_device_name d e r st)"
  by (rule tele_ok_frame [of st]) (auto simp: set_device_name_def new_device_lists dest: listed_put split: if_splits)

lemma add_queue_pair_listed:
  assumes "listed (add_queue_pair d ch q b st) p"
  shows "p = q \<or> listed st p"
proof -
  let ?i = "new_qp_info (st_max_buckets st) (st_bucket_log2 st)"
  let ?dev = "map_get new_device d (devices st)"
  let ?chan = "map_get \<lparr>queue_pairs = []\<rparr> ch (channels ?dev)"
  have "listed_in (map_put d (?dev\<lparr>channels := map_put ch (?chan\<lparr>queue_pairs := map_put q ?i (queue_pairs ?chan)\<rparr>) (channels ?dev)\<rparr>) (devices st)) p"
    using assms by (simp add: add_queue_pair_def Let_def)
  then consider "p \<in> set (qp_ids (?chan\<lparr>queue_pairs := map_put q ?i (queue_pairs ?chan)\<rparr>))" | "dev_lists (channels ?dev) p" | "listed st p"
    by (auto dest!: listed_put dev_lists_put)
  then show ?thesis
  proof cases
    case 1
    then have "p = q \<or> p \<in> set (qp_ids ?chan)" using keys_map_put [of q ?i "queue_pairs ?chan"] by (simp add: qp_ids_def)
    then have "p = q \<or> dev_lists (channels ?dev) p"
      by (auto simp: map_get_def [of _ ch] qp_ids_def dev_lists_def split: option.splits)
    then show ?thesis by (auto simp: map_get_def new_device_lists intro: listedI split: option.splits)
  next
    case 2
    then show ?thesis by (auto simp: map_get_def new_device_lists intro: listedI split: option.splits)
  qed simp
qed

lemma add_queue_pair_state:
  "map_of (queue_state (add_queue_pair d ch q b st)) = (map_of (queue_state st))(q \<mapsto> Some ((new_qp_info (st_max_buckets st) (st_bucket_log2 st))\<lparr>qi_data_qp := Some b\<rparr>))"
  by (simp add: add_queue_pair_def Let_def map_of_map_put)

lemma new_qp_ok: "unat l < 64 \<Longrightarrow> qp_ok ((new_qp_info mb l)\<lparr>qi_data_qp := Some b\<rparr>)"
  by (simp add: qp_ok_def new_qp_info_def new_time_histogram_def zero_stats_def)

lemma add_queue_pair_ok:
  assumes "tele_ok st"
  shows "tele_ok (add_queue_pair d ch q b st)"
proof -
  have l: "st_bucket_log2 (add_queue_pair d ch q b st) = st_bucket_log2 st" by (simp add: add_queue_pair_def Let_def)
  show ?thesis using assms new_qp_ok [where l = "st_bucket_log2 st"]
    unfolding tele_ok_def l add_queue_pair_state by (auto split: if_splits dest!: add_queue_pair_listed)
qed

lemma remove_queue_pair_listed:
  assumes l: "listed (remove_queue_pair d ch q st) p"
  shows "listed st p"
proof (cases "map_of (devices st) d")
  case None
  then show ?thesis using l by (simp add: remove_queue_pair_def)
next
  case (Some dev)
  define chans where "chans = (case map_of (channels dev) ch of
           None \<Rightarrow> channels dev
         | Some chan \<Rightarrow> let qs = map_erase q (queue_pairs chan) in
             if qs = [] then map_erase ch (channels dev) else map_put ch (chan\<lparr>queue_pairs := qs\<rparr>) (channels dev))"
  have c: "dev_lists (channels dev) p" if chans: "dev_lists chans p"
  proof (cases "map_of (channels dev) ch")
    case None
    then show ?thesis using chans by (simp add: chans_def)
  next
    case (Some chan)
    have "p \<in> set (qp_ids (chan\<lparr>queue_pairs := map_erase q (queue_pairs chan)\<rparr>)) \<Longrightarrow> p \<in> set (qp_ids chan)"
      by (auto simp: qp_ids_def map_erase_def)
    then show ?thesis using chans Some by (auto simp: chans_def Let_def dest!: dev_lists_put dev_lists_erase intro: dev_listsI split: if_splits)
  qed
  have "devices (remove_queue_pair d ch q st) = (if chans = [] then map_erase d (devices st) else map_put d (dev\<lparr>channels := chans\<rparr>) (devices st))"
    using Some by (simp add: remove_queue_pair_def chans_def Let_def)
  then show ?thesis using l c listedI [OF Some] by (auto dest!: listed_put listed_erase split: if_splits)
qed

lemma remove_queue_pair_ok: "tele_ok st \<Longrightarrow> tele_ok (remove_queue_pair d ch q st)"
  by (rule tele_ok_frame [of st]) (simp_all add: remove_queue_pair_listed, simp_all add: remove_queue_pair_def Let_def split: option.split)

subsection \<open>Sequences of telemetry calls\<close>

datatype tele_op =
    O_set_device_name int string string
  | O_add_queue_pair int int int bool
  | O_remove_queue_pair int int int
  | O_wqe_send int u64 u64
  | O_recv_wqe int u64 u64
  | O_wqe_rcvd int u64 u64
  | O_slot_miss int
  | O_cts_send int
  | O_num_cts_sent int
  | O_cts_unsignalled int
  | O_cts_signalled int
  | O_num_recv_wqe int
  | O_num_write_wqe int u32
  | O_num_write_imm_wqe int
  | O_wqe_size u32
  | O_cq_poll

fun apply_op :: "(int list \<Rightarrow> int list) \<Rightarrow> tele_op \<Rightarrow> anp_state \<Rightarrow> anp_state option" where
  "apply_op iter (O_set_device_name d e r) st = Some (set_device_name d e r st)"
| "apply_op iter (O_add_queue_pair d ch q b) st = Some (add_queue_pair d ch q b st)"
| "apply_op iter (O_remove_queue_pair d ch q) st = Some (remove_queue_pair d ch q st)"
| "apply_op iter (O_wqe_send q w t) st = update_wqe_send_metrics q w t st"
| "apply_op iter (O_recv_wqe q w t) st = update_recv_wqe_metrics q w t st"
| "apply_op iter (O_wqe_rcvd q w t) st = update_wqe_rcvd_metrics q w t st"
| "apply_op iter (O_slot_miss q) st = update_slot_miss_metrics q st"
| "apply_op iter (O_cts_send q) st = update_cts_send_metrics q st"
| "apply_op iter (O_num_cts_sent q) st = increment_num_cts_sent q st"
| "apply_op iter (O_cts_unsignalled q) st = increment_num_cts_sent_unsignalled q st"
| "apply_op iter (O_cts_signalled q) st = increment_num_cts_sent_signalled q st"
| "apply_op iter (O_num_recv_wqe q) st = increment_num_recv_wqe q st"
| "apply_op iter (O_num_write_wqe q n) st = increment_num_write_wqe q n st"
| "apply_op iter (O_num_write_imm_wqe q) st = increment_num_write_imm_wqe q st"
| "apply_op iter (O_wqe_size n) st = update_wqe_size_metrics iter n st"
| "apply_op iter O_cq_poll st = update_cq_poll_metrics iter st"

fun apply_ops :: "(int list \<Rightarrow> int list) \<Rightarrow> tele_op list \<Rightarrow> anp_state \<Rightarrow> anp_state option" where
  "apply_ops iter [] st = Some st"
| "apply_ops iter (x # xs) st = do { st \<leftarrow> apply_op iter x st; apply_ops iter xs st }"

lemmas counter_defs = update_wqe_send_metrics_def update_recv_wqe_metrics_def update_wqe_rcvd_metrics_def update_slot_miss_metrics_def
  update_cts_send_metrics_def increment_num_cts_sent_def increment_num_cts_sent_unsignalled_def increment_num_cts_sent_signalled_def
  increment_num_recv_wqe_def increment_num_write_wqe_def increment_num_write_imm_wqe_def

lemma apply_op_ok: "tele_ok st \<Longrightarrow> iter_law iter \<Longrightarrow> \<exists>st'. apply_op iter x st = Some st' \<and> tele_ok st'"
  by (cases x) (simp_all add: counter_defs update_wqe_size_metrics_def update_cq_poll_metrics_def set_device_name_ok add_queue_pair_ok
      remove_queue_pair_ok with_qp_ok stats_op_ok track_send_ok complete_wqe_ok first_device_ok)

lemma apply_ops_ok: "tele_ok st \<Longrightarrow> iter_law iter \<Longrightarrow> \<exists>st'. apply_ops iter xs st = Some st' \<and> tele_ok st'"
proof (induction xs arbitrary: st)
  case (Cons x xs)
  obtain st1 where "apply_op iter x st = Some st1" "tele_ok st1" using apply_op_ok [OF Cons.prems] by blast
  then show ?case using Cons.IH [of st1] Cons.prems(2) by simp
qed simp

subsection \<open>The report is defined and adds up\<close>

definition qp_totals :: "anp_state \<Rightarrow> int \<Rightarrow> totals" where
  "qp_totals st q = (case map_of (queue_state st) q of
     Some (Some i) \<Rightarrow> \<lparr>t_sent = num_wqe_sent (qi_stats i), t_rcvd = num_wqe_rcvd (qi_stats i),
        t_data_qp = (if qi_data_qp i = Some True then 1 else 0), t_cts_qp = (if qi_data_qp i = Some True then 0 else 1),
        t_cts_sent = (if qi_data_qp i = Some True then 0 else num_wqe_sent (qi_stats i))\<rparr>
   | _ \<Rightarrow> zero_totals)"

definition sum_totals :: "totals list \<Rightarrow> totals" where
  "sum_totals ts = foldr add_totals ts zero_totals"

lemma json_list_ok:
  assumes "\<And>k. k \<in> set ks \<Longrightarrow> \<exists>e. f k = Some (e, g k)"
  shows "\<exists>es. json_list f ks = Some (es, sum_totals (map g ks)) \<and> length es = length ks \<and> (\<forall>n<length ks. \<exists>e. es ! n = ([], e) \<and> f (ks ! n) = Some (e, g (ks ! n)))"
  using assms
proof (induction ks)
  case (Cons k ks)
  obtain e where e: "f k = Some (e, g k)" using Cons.prems by auto
  obtain es where es: "json_list f ks = Some (es, sum_totals (map g ks))" "length es = length ks" "\<forall>n<length ks. \<exists>e. es ! n = ([], e) \<and> f (ks ! n) = Some (e, g (ks ! n))"
    using Cons by auto
  have "\<forall>n<length (k # ks). \<exists>e'. (([], e) # es) ! n = ([], e') \<and> f ((k # ks) ! n) = Some (e', g ((k # ks) ! n))"
    using e es(3) by (auto simp: less_Suc_eq_0_disj)
  then show ?case using e es(1,2) by (auto simp: sum_totals_def)
qed (simp add: sum_totals_def)

lemma json_buckets_ok: "unat l < 64 \<Longrightarrow> \<exists>bs'. json_buckets mb l tmax bs = Some bs'"
  by (induction bs rule: json_buckets.induct [of _ mb l tmax]) auto

lemma json_qp_ok:
  assumes "tele_ok st" "listed st q"
  shows "\<exists>e. json_qp st q = Some (e, qp_totals st q)"
proof -
  obtain i where i: "map_of (queue_state st) q = Some (Some i)" "qp_ok i" using assms by (auto simp: tele_ok_def)
  obtain dq where dq: "qi_data_qp i = Some dq" using i(2) by (auto simp: qp_ok_def)
  have l: "unat (bucket_sz_log2 (qi_completion i)) < 64" using i(2) by (simp add: qp_ok_def)
  obtain bs where "json_buckets (st_max_buckets st) (bucket_sz_log2 (qi_completion i)) (time_max (qi_stats i)) (sort_key fst (th_buckets (qi_completion i))) = Some bs"
    using json_buckets_ok [OF l] by blast
  then show ?thesis using i(1) dq by (simp add: json_qp_def qp_totals_def Let_def)
qed

definition channel_totals :: "(int list \<Rightarrow> int list) \<Rightarrow> anp_state \<Rightarrow> (int \<times> channel_s) list \<Rightarrow> int \<Rightarrow> totals" where
  "channel_totals iter st chans ch = sum_totals (map (qp_totals st) (iter (map fst (queue_pairs (the (map_of chans ch))))))"

definition device_totals :: "(int list \<Rightarrow> int list) \<Rightarrow> anp_state \<Rightarrow> int \<Rightarrow> totals" where
  "device_totals iter st d = (let chans = channels (the (map_of (devices st) d)) in
     sum_totals (map (channel_totals iter st chans) (iter (map fst chans))))"

lemma map_of_key: "k \<in> set (map fst m) \<Longrightarrow> \<exists>v. map_of m k = Some v"
  by (metis map_of_eq_None_iff not_None_eq set_map)

lemma json_channel_ok:
  assumes "tele_ok st" "iter_law iter" "map_of (devices st) d = Some dev" "ch \<in> set (map fst (channels dev))"
  shows "\<exists>e. json_channel iter st (channels dev) ch = Some (e, channel_totals iter st (channels dev) ch)"
proof -
  obtain chan where c: "map_of (channels dev) ch = Some chan" using map_of_key [OF assms(4)] by blast
  have "listed st q" if "q \<in> set (iter (map fst (queue_pairs chan)))" for q
  proof -
    have "q \<in> set (qp_ids chan)" using that assms(2) unfolding iter_law_def qp_ids_def by blast
    then show ?thesis by (rule listedI [OF assms(3) dev_listsI [OF c]])
  qed
  then have "\<exists>es. json_list (json_qp st) (iter (map fst (queue_pairs chan))) = Some (es, sum_totals (map (qp_totals st) (iter (map fst (queue_pairs chan)))))"
    using json_list_ok [of "iter (map fst (queue_pairs chan))" "json_qp st" "qp_totals st"] json_qp_ok [OF assms(1)] by blast
  then show ?thesis using c by (auto simp: json_channel_def channel_totals_def)
qed

lemma json_device_ok:
  assumes "tele_ok st" "iter_law iter" "d \<in> set (map fst (devices st))"
  shows "\<exists>e. json_device tstr iter st d = Some (e, device_totals iter st d)"
proof -
  obtain dev where dev: "map_of (devices st) d = Some dev" using map_of_key [OF assms(3)] by blast
  let ?cs = "iter (map fst (channels dev))" and ?f = "json_channel iter st (channels dev)" and ?g = "channel_totals iter st (channels dev)"
  have "\<exists>e. ?f ch = Some (e, ?g ch)" if "ch \<in> set ?cs" for ch
    using that assms(2) json_channel_ok [OF assms(1,2) dev, of ch] by (simp add: iter_law_def)
  then have "\<exists>es. json_list ?f ?cs = Some (es, sum_totals (map ?g ?cs))" using json_list_ok [of ?cs ?f ?g] by blast
  then show ?thesis using dev by (auto simp: json_device_def device_totals_def Let_def)
qed

lemma to_json_ok:
  assumes "tele_ok st" "iter_law iter"
  defines "ks \<equiv> iter (map fst (devices st))"
  shows "\<exists>es. to_json tstr iter st = Some (JObj [(''devices'', JObj es)]) \<and> length es = length ks \<and>
    (\<forall>n<length ks. \<exists>e. es ! n = ([], e) \<and> json_device tstr iter st (ks ! n) = Some (e, device_totals iter st (ks ! n)))"
proof -
  have "\<exists>e. json_device tstr iter st d = Some (e, device_totals iter st d)" if "d \<in> set ks" for d
    using that assms(2) json_device_ok [OF assms(1,2), of d] by (simp add: iter_law_def ks_def)
  then have "\<exists>es. json_list (json_device tstr iter st) ks = Some (es, sum_totals (map (device_totals iter st) ks)) \<and> length es = length ks \<and>
      (\<forall>n<length ks. \<exists>e. es ! n = ([], e) \<and> json_device tstr iter st (ks ! n) = Some (e, device_totals iter st (ks ! n)))"
    by (rule json_list_ok)
  then show ?thesis by (auto simp: to_json_def ks_def)
qed

lemma sum_totals_fields:
  "t_sent (sum_totals ts) = sum_list (map t_sent ts)" "t_cts_sent (sum_totals ts) = sum_list (map t_cts_sent ts)"
  "t_data_qp (sum_totals ts) = sum_list (map t_data_qp ts)"
  by (induction ts) (simp_all add: sum_totals_def zero_totals_def add_totals_def)

text \<open>The queue pairs of a device, and what its report says of them.\<close>

definition device_qps :: "(int list \<Rightarrow> int list) \<Rightarrow> anp_state \<Rightarrow> int \<Rightarrow> int list" where
  "device_qps iter st d = (let chans = channels (the (map_of (devices st) d)) in
     concat (map (\<lambda>ch. iter (map fst (queue_pairs (the (map_of chans ch))))) (iter (map fst chans))))"

definition sent_by :: "bool \<Rightarrow> anp_state \<Rightarrow> int \<Rightarrow> u64" where
  "sent_by dq st q = (case map_of (queue_state st) q of Some (Some i) \<Rightarrow> if (qi_data_qp i = Some True) = dq then num_wqe_sent (qi_stats i) else 0 | _ \<Rightarrow> 0)"

lemma sum_list_nested: "sum_list (concat xss) = sum_list (map sum_list (xss :: u64 list list))"
  by (induction xss) simp_all

lemma device_totals_sum:
  "t_sent (device_totals iter st d) = sum_list (map (\<lambda>q. t_sent (qp_totals st q)) (device_qps iter st d))"
  "t_cts_sent (device_totals iter st d) = sum_list (map (\<lambda>q. t_cts_sent (qp_totals st q)) (device_qps iter st d))"
  by (simp_all add: device_totals_def channel_totals_def device_qps_def sum_totals_fields Let_def map_concat comp_def sum_list_nested)

lemma device_sent:
  "t_sent (device_totals iter st d) - t_cts_sent (device_totals iter st d) = sum_list (map (sent_by True st) (device_qps iter st d))"
  "t_cts_sent (device_totals iter st d) = sum_list (map (sent_by False st) (device_qps iter st d))"
proof -
  have q: "t_sent (qp_totals st q) = sent_by True st q + sent_by False st q" "t_cts_sent (qp_totals st q) = sent_by False st q" for q
    by (simp_all add: qp_totals_def sent_by_def zero_totals_def split: option.splits)
  show "t_cts_sent (device_totals iter st d) = sum_list (map (sent_by False st) (device_qps iter st d))"
    unfolding device_totals_sum q by simp
  show "t_sent (device_totals iter st d) - t_cts_sent (device_totals iter st d) = sum_list (map (sent_by True st) (device_qps iter st d))"
    unfolding device_totals_sum q by (simp add: sum_list_addf)
qed

fun jget :: "string list \<Rightarrow> jtree \<Rightarrow> jtree option" where
  "jget [] t = Some t"
| "jget (k # ks) (JObj m) = do { t \<leftarrow> map_of m k; jget ks t }"
| "jget (k # ks) t = None"

lemma json_device_fields:
  assumes "json_device tstr iter st d = Some (e, t)"
  shows "jget [''status'', ''device_id''] e = Some (JInt d)" "jget [''stats'', ''num_wqe_sent''] e = Some (JNat (t_sent t - t_cts_sent t))"
    "jget [''stats'', ''num_cts_sent''] e = Some (JNat (t_cts_sent t))"
  using assms by (auto simp: json_device_def Let_def bind_eq_Some_conv)

lemma log2_loop_bound: "n < 2 ^ k \<Longrightarrow> 0 < k \<Longrightarrow> log2_loop f n < k"
proof (induction f n arbitrary: k rule: log2_loop.induct)
  case (1 f n)
  show ?case
  proof (cases "n < 2 \<or> f = 0")
    case False
    then obtain m where k: "k = Suc m" "0 < m" using 1(2,3) by (cases k; cases "k = 1") auto
    then have "log2_loop (f - 1) (n div 2) < m" using 1(1) [OF False, of m] 1(2) by (simp add: less_mult_imp_div_less)
    then show ?thesis using False k by (subst log2_loop.simps) simp
  qed (use 1 in \<open>simp add: log2_loop.simps\<close>)
qed

lemma bucket_log2_bound: "bucket_log2_of n = Some l \<Longrightarrow> unat l < 64"
proof -
  assume "bucket_log2_of n = Some l"
  then obtain m :: u64 where l: "l = word_of_nat (log2_loop 64 (unat m))" by (auto simp: bucket_log2_of_def log2_u32_def split: if_splits)
  have "log2_loop 64 (unat m) < 64" using unat_lt [of m] by (intro log2_loop_bound) simp_all
  then show ?thesis by (simp add: l unsigned_of_nat take_bit_nat_eq_self)
qed

lemma load_config_ok:
  assumes "load_config env read st0 = Some st" "devices st0 = []" "queue_state st0 = []"
  shows "tele_ok st"
proof -
  have "devices st = []" "queue_state st = []" "unat (st_bucket_log2 st) < 64"
    using assms bucket_log2_bound by (auto simp: load_config_def Let_def bind_eq_Some_conv split: option.splits)
  then show ?thesis by (simp add: tele_ok_def listed_in_def)
qed

text \<open>A configuration, and a short session of one device with a data and a clear-to-send queue pair.\<close>

definition demo_state :: anp_state where
  "demo_state = \<lparr>st_device_id = None, st_process_id = 0, st_host_name = [], st_output_dir = [], st_process_name = [], st_config_path = [], st_start_time = 0,
     st_end_time = 0, st_max_buckets = 0, st_bucket_log2 = 0, devices = [], queue_state = [], st_log_level = LOG_NONE\<rparr>"

definition demo_json :: config_json where
  "demo_json = \<lparr>cj_log_level = ''INFO'', cj_output_dir = ''/var/anp'', cj_bucket_interval_ns = 1000, cj_max_buckets = 5\<rparr>"

definition demo_ops :: "tele_op list" where
  "demo_ops = [O_set_device_name 0 [] ''ionic_0'', O_add_queue_pair 0 3 100 True, O_add_queue_pair 0 3 101 False, O_wqe_send 100 7 50,
     O_cts_send 101, O_wqe_send 100 8 60, O_wqe_rcvd 100 7 5000, O_cq_poll, O_slot_miss 555]"

definition demo_config :: anp_state where
  "demo_config = the (load_config (Some ''cfg'') (\<lambda>p. Some (Some demo_json)) demo_state)"

definition demo_run :: anp_state where
  "demo_run = the (apply_ops (\<lambda>ks. ks) demo_ops demo_config)"

lemma demo_config_loaded: "load_config (Some ''cfg'') (\<lambda>p. Some (Some demo_json)) demo_state = Some demo_config"
  by code_simp

lemma iter_id: "iter_law (\<lambda>ks. ks)"
  by (simp add: iter_law_def)

lemma demo_empty: "devices demo_state = []" "queue_state demo_state = []"
  by (simp_all add: demo_state_def)

lemma demo_run_ok: "tele_ok demo_run"
  using apply_ops_ok [OF load_config_ok [OF demo_config_loaded demo_empty] iter_id, of demo_ops] by (auto simp: demo_run_def)

text \<open>
  C21: The telemetry state stays consistent: from any configuration, every sequence of calls on it runs without undefined
  behaviour, each queue pair's completed work requests are exactly those in its histogram, and the report can be written.
\<close>

theorem telemetry_stays_consistent:
  assumes "load_config env read st0 = Some st" "devices st0 = []" "queue_state st0 = []" "iter_law iter"
  shows "\<exists>st' t. apply_ops iter ops st = Some st' \<and> to_json tstr iter st' = Some t \<and>
    (\<forall>q i. map_of (queue_state st') q = Some (Some i) \<longrightarrow> num_wqe_completed (qi_stats i) = sum_list (map snd (th_buckets (qi_completion i))))"
proof -
  obtain st' where st': "apply_ops iter ops st = Some st'" "tele_ok st'" using apply_ops_ok [OF load_config_ok [OF assms(1-3)] assms(4)] by blast
  then show ?thesis using to_json_ok [OF st'(2) assms(4), of tstr] by (auto simp: tele_ok_def qp_ok_def)
qed

theorem telemetry_stays_consistent_witness:
  "\<exists>st' t. apply_ops (\<lambda>ks. ks) demo_ops demo_config = Some st' \<and> to_json (\<lambda>v. []) (\<lambda>ks. ks) st' = Some t \<and>
    (\<forall>q i. map_of (queue_state st') q = Some (Some i) \<longrightarrow> num_wqe_completed (qi_stats i) = sum_list (map snd (th_buckets (qi_completion i))))"
  by (rule telemetry_stays_consistent [OF demo_config_loaded demo_empty iter_id])

text \<open>
  C32: The report adds up: for every device it lists the work requests sent by its data queue pairs as \<open>num_wqe_sent\<close> and those
  of its clear-to-send queue pairs as \<open>num_cts_sent\<close>, whatever the order in which the maps are traversed.
\<close>

theorem report_adds_up:
  assumes "tele_ok st" "iter_law iter" "d \<in> set (map fst (devices st))"
  shows "\<exists>es e. to_json tstr iter st = Some (JObj [(''devices'', JObj es)]) \<and> ([], e) \<in> set es \<and> jget [''status'', ''device_id''] e = Some (JInt d) \<and>
    jget [''stats'', ''num_wqe_sent''] e = Some (JNat (sum_list (map (sent_by True st) (device_qps iter st d)))) \<and>
    jget [''stats'', ''num_cts_sent''] e = Some (JNat (sum_list (map (sent_by False st) (device_qps iter st d))))"
proof -
  let ?ks = "iter (map fst (devices st))"
  obtain es where es: "to_json tstr iter st = Some (JObj [(''devices'', JObj es)])" "length es = length ?ks"
      "\<forall>n<length ?ks. \<exists>e. es ! n = ([], e) \<and> json_device tstr iter st (?ks ! n) = Some (e, device_totals iter st (?ks ! n))"
    using to_json_ok [OF assms(1,2), of tstr] by blast
  have "d \<in> set ?ks" using assms(2,3) by (simp add: iter_law_def)
  then obtain n where n: "n < length ?ks" "?ks ! n = d" by (auto simp: in_set_conv_nth)
  then obtain e where e: "es ! n = ([], e)" "json_device tstr iter st d = Some (e, device_totals iter st d)" using es(3) by auto
  then have "([], e) \<in> set es" using n(1) es(2) by (metis nth_mem)
  then show ?thesis using es(1) json_device_fields(1,3) [OF e(2)] json_device_fields(2) [OF e(2), unfolded device_sent(1)] unfolding device_sent(2) by blast
qed

theorem report_adds_up_witness:
  "\<exists>es e. to_json (\<lambda>v. []) (\<lambda>ks. ks) demo_run = Some (JObj [(''devices'', JObj es)]) \<and> ([], e) \<in> set es \<and>
    jget [''stats'', ''num_wqe_sent''] e = Some (JNat 2) \<and> jget [''stats'', ''num_cts_sent''] e = Some (JNat 1)"
proof -
  have f: "(0 :: int) \<in> set (map fst (devices demo_run))" "sum_list (map (sent_by True demo_run) (device_qps (\<lambda>ks. ks) demo_run 0)) = 2"
    "sum_list (map (sent_by False demo_run) (device_qps (\<lambda>ks. ks) demo_run 0)) = 1"
    by code_simp+
  show ?thesis using report_adds_up [OF demo_run_ok iter_id f(1), of "\<lambda>v. []"] unfolding f(2,3) by blast
qed

subsection \<open>The bucket width\<close>

text \<open>Or-ing a word with its shifts spreads the highest bit downwards.\<close>

definition spread :: "nat \<Rightarrow> u64 \<Rightarrow> u64 \<Rightarrow> bool" where
  "spread w m x \<longleftrightarrow> (\<forall>i. bit x i \<longleftrightarrow> (\<exists>j<w. bit m (i + j)))"

lemma spread_double: "spread w m x \<Longrightarrow> spread (2 * w) m (x OR drop_bit w x)"
  unfolding spread_def
proof (intro allI)
  fix i assume x: "\<forall>i. bit x i \<longleftrightarrow> (\<exists>j<w. bit m (i + j))"
  have "(\<exists>j<2 * w. bit m (i + j)) \<longleftrightarrow> (\<exists>j<w. bit m (i + j)) \<or> (\<exists>j<w. bit m (i + w + j))"
  proof
    assume "\<exists>j<2 * w. bit m (i + j)"
    then obtain j where j: "j < 2 * w" "bit m (i + j)" by blast
    show "(\<exists>j<w. bit m (i + j)) \<or> (\<exists>j<w. bit m (i + w + j))"
    proof (cases "j < w")
      case False
      then have "j - w < w" "i + w + (j - w) = i + j" using j(1) by auto
      then show ?thesis using j(2) by metis
    qed (use j in blast)
  next
    assume "(\<exists>j<w. bit m (i + j)) \<or> (\<exists>j<w. bit m (i + w + j))"
    then show "\<exists>j<2 * w. bit m (i + j)"
    proof
      assume "\<exists>j<w. bit m (i + w + j)"
      then obtain j where "j < w" "bit m (i + (w + j))" by (auto simp: add.assoc)
      then show ?thesis by (intro exI [of _ "w + j"]) simp
    qed (metis trans_less_add1 mult_2)
  qed
  then show "bit (x OR drop_bit w x) i \<longleftrightarrow> (\<exists>j<2 * w. bit m (i + j))"
    using x by (simp add: bit_or_iff bit_drop_bit_eq add.commute)
qed

lemma spread_all:
  assumes "spread 64 m x" "bit m b" "\<And>i. b < i \<Longrightarrow> \<not> bit m i"
  shows "x = mask (Suc b)"
proof (rule bit_word_eqI)
  fix i assume "i < LENGTH(64)"
  have "(\<exists>j<64. bit m (i + j)) \<longleftrightarrow> i \<le> b"
  proof
    assume "\<exists>j<64. bit m (i + j)"
    then show "i \<le> b" using assms(3) by (metis le_add1 leI order_trans)
  next
    assume "i \<le> b"
    moreover have "b < 64" using assms(2) bit_imp_le_length [of m b] by simp
    ultimately show "\<exists>j<64. bit m (i + j)" using assms(2) by (intro exI [of _ "b - i"]) simp
  qed
  then show "bit x i \<longleftrightarrow> bit (mask (Suc b) :: u64) i" using assms(1) \<open>i < LENGTH(64)\<close> by (simp add: spread_def bit_mask_iff less_Suc_eq_le)
qed

lemma highest_bit:
  fixes m :: u64
  assumes "m \<noteq> 0"
  shows "\<exists>b<64. bit m b \<and> (\<forall>i>b. \<not> bit m i) \<and> 2 ^ b \<le> unat m \<and> unat m < 2 ^ Suc b"
proof -
  have "0 < unat m" using assms by (simp add: unat_gt_0)
  then obtain b where b: "2 ^ b \<le> unat m" "unat m < 2 ^ Suc b" using ex_power_ivl1 [of 2 "unat m"] by auto
  have "(2 :: nat) ^ b < 2 ^ 64" using b(1) unat_lt [of m] by (simp add: order_le_less_trans)
  then have lt: "b < 64" by (simp only: power_strict_increasing_iff) 
  have "unat m div 2 ^ b = 1" using b by (simp add: Suc_leI div_nat_eqI)
  then have "bit (unat m) b" by (simp add: bit_iff_odd)
  then have "bit m b" by (simp add: bit_unsigned_iff)
  moreover have "\<not> bit m i" if "b < i" for i
  proof -
    have "(2 :: nat) ^ Suc b \<le> 2 ^ i" using that by (intro power_increasing) auto
    then have "unat m div 2 ^ i = 0" using b(2) by simp
    then have "\<not> bit (unat m) i" by (simp add: bit_iff_odd)
    moreover have "i < 64 \<Longrightarrow> bit (unat m) i = bit m i" by (simp add: bit_unsigned_iff)
    ultimately show ?thesis using bit_imp_le_length [of m i] by auto
  qed
  ultimately show ?thesis using lt b by blast
qed

lemma power_of_2_cases:
  fixes n :: u64
  assumes "1 < unat n"
  shows "\<exists>b<64. power_of_2 n = 2 ^ Suc b \<and> 2 ^ b < unat n \<and> unat n \<le> 2 ^ Suc b"
proof -
  have n: "n \<noteq> 0" "unat (n - 1) = unat n - 1" using assms by (auto simp: unat_sub_if_size word_gt_0_no unat_eq_0)
  then obtain b where b: "b < 64" "bit (n - 1) b" "\<forall>i>b. \<not> bit (n - 1) i" "2 ^ b \<le> unat (n - 1)" "unat (n - 1) < 2 ^ Suc b"
    using highest_bit [of "n - 1"] assms by (metis diff_is_0_eq leD unat_0)
  have 1: "spread 1 (n - 1) (n - 1)" by (simp add: spread_def)
  note s = spread_double [OF spread_double [OF spread_double [OF spread_double [OF spread_double [OF spread_double [OF 1]]]]]]
  have "power_of_2 n = mask (Suc b) + 1"
    using spread_all [OF s [simplified] b(2)] b(3) n(1) by (simp add: power_of_2_def Let_def)
  moreover have "mask (Suc b) + 1 = (2 ^ Suc b :: u64)" by (simp add: mask_eq_exp_minus_1)
  ultimately show ?thesis using b n assms by (intro exI [of _ b]) auto
qed

lemma log2_loop_pow: "k \<le> f \<Longrightarrow> log2_loop f (2 ^ k) = k"
proof (induction k arbitrary: f)
  case (Suc k)
  then have "log2_loop (f - 1) (2 ^ k) = k" by simp
  then show ?case using Suc.prems by (subst log2_loop.simps) simp
qed (simp add: log2_loop.simps)

lemma log2_u32_pow: "k < 64 \<Longrightarrow> log2_u32 (2 ^ k) = Some (word_of_nat k)"
proof -
  assume k: "k < 64"
  have u: "uint (2 ^ k :: u64) = 2 ^ k" using uint_exp2 [OF k] .
  then have "unat (2 ^ k :: u64) = 2 ^ k" by (metis nat_int of_nat_numeral of_nat_power uint_nat)
  moreover have "(2 ^ k :: u64) \<noteq> 0" using u by (metis power_not_zero unsigned_0 zero_neq_numeral)
  ultimately show ?thesis using k by (simp add: log2_u32_def log2_loop_pow)
qed

lemma is_power_of_2:
  assumes "IS_POWER_OF_2 n" "1 < unat n"
  shows "n = power_of_2 n"
proof -
  obtain b where b: "b < 64" "power_of_2 n = 2 ^ Suc b" "2 ^ b < unat n" "unat n \<le> 2 ^ Suc b" using power_of_2_cases [OF assms(2)] by blast
  have m: "unat (n - 1) = unat n - 1" using assms(2) by (auto simp: unat_sub_if_size)
  have hb: "bit x b" if "2 ^ b \<le> unat x" "unat x < 2 ^ Suc b" for x :: u64
  proof -
    have "unat x div 2 ^ b = 1" using that by (simp add: Suc_leI div_nat_eqI)
    then have "bit (unat x) b" by (simp add: bit_iff_odd)
    then show ?thesis by (simp add: bit_unsigned_iff)
  qed
  have "unat n = 2 ^ Suc b"
  proof (rule ccontr)
    assume "unat n \<noteq> 2 ^ Suc b"
    then have "bit n b" "bit (n - 1) b" using b(3,4) m by (auto intro!: hb)
    then have "bit (n AND (n - 1)) b" by (simp add: bit_and_iff)
    then show False using assms(1) by (simp add: IS_POWER_OF_2_def)
  qed
  moreover have "word_of_nat (unat n) = n" by simp
  ultimately have "n = word_of_nat (2 ^ Suc b)" by metis
  then show ?thesis using b(2) by simp
qed

lemma bucket_log2_least:
  assumes "1 \<le> unat n" "unat n \<le> 2 ^ 63"
  shows "\<exists>k<64. bucket_log2_of n = Some (word_of_nat k) \<and> unat n \<le> 2 ^ k \<and> (\<forall>j<k. 2 ^ j < unat n)"
proof (cases "unat n = 1")
  case True
  then have "n = 1" by (simp add: word_unat_eq_iff)
  then have "bucket_log2_of n = Some (word_of_nat 0)" using log2_u32_pow [of 0] by (simp add: bucket_log2_of_def IS_POWER_OF_2_def)
  then show ?thesis using True by (intro exI [of _ 0]) simp
next
  case False
  then have n: "1 < unat n" using assms(1) by simp
  obtain b where b: "b < 64" "power_of_2 n = 2 ^ Suc b" "2 ^ b < unat n" "unat n \<le> 2 ^ Suc b" using power_of_2_cases [OF n] by blast
  have "(2 :: nat) ^ b < 2 ^ 63" using b(3) assms(2) by (rule less_le_trans)
  then have "b < 63" by (simp only: power_strict_increasing_iff)
  then have k: "Suc b < 64" by simp
  have "bucket_log2_of n = log2_u32 (2 ^ Suc b)" using is_power_of_2 [of n] n b(2) by (auto simp: bucket_log2_of_def)
  then have "bucket_log2_of n = Some (word_of_nat (Suc b))" using log2_u32_pow [OF k] by simp
  moreover have "2 ^ j < unat n" if "j < Suc b" for j
  proof -
    have "(2 :: nat) ^ j \<le> 2 ^ b" using that by (intro power_increasing) auto
    then show ?thesis using b(3) by (rule le_less_trans)
  qed
  ultimately show ?thesis using k b(4) by blast
qed

text \<open>
  The width of the histogram's buckets is the least power of two that is not below the configured interval, for every
  interval between 1 and \<open>2^63\<close>; larger ones make the rounding overflow to 0, whose logarithm is undefined.
\<close>

theorem bucket_width_configured:
  assumes "read path = Some (Some j)" "1 \<le> unat (cj_bucket_interval_ns j)"
  shows "if unat (cj_bucket_interval_ns j) \<le> 2 ^ 63
    then \<exists>st'. load_config (Some path) read st = Some st' \<and> unat (st_bucket_log2 st') < 64 \<and>
      unat (cj_bucket_interval_ns j) \<le> 2 ^ unat (st_bucket_log2 st') \<and> (\<forall>i<unat (st_bucket_log2 st'). 2 ^ i < unat (cj_bucket_interval_ns j))
    else load_config (Some path) read st = None"
proof (cases "unat (cj_bucket_interval_ns j) \<le> 2 ^ 63")
  case True
  obtain k where k: "k < 64" "bucket_log2_of (cj_bucket_interval_ns j) = Some (word_of_nat k)" "unat (cj_bucket_interval_ns j) \<le> 2 ^ k"
      "\<forall>i<k. 2 ^ i < unat (cj_bucket_interval_ns j)"
    using bucket_log2_least [OF assms(2) True] by blast
  have "unat (word_of_nat k :: u32) = k" using k(1) by (simp add: unsigned_of_nat take_bit_nat_eq_self)
  then show ?thesis using True k assms(1) by (simp add: load_config_def Let_def)
next
  case False
  let ?n = "cj_bucket_interval_ns j"
  have n: "1 < unat ?n" using False by simp
  obtain b where b: "b < 64" "power_of_2 ?n = 2 ^ Suc b" "2 ^ b < unat ?n" "unat ?n \<le> 2 ^ Suc b" using power_of_2_cases [OF n] by blast
  have "b = 63"
  proof (rule ccontr)
    assume "b \<noteq> 63"
    then have "(2 :: nat) ^ Suc b \<le> 2 ^ 63" using b(1) by (intro power_increasing) auto
    then show False using b(4) False by linarith
  qed
  then have z: "power_of_2 ?n = 0" using b(2) by simp
  have "?n \<noteq> 0" using n by auto
  then have "\<not> IS_POWER_OF_2 ?n" using is_power_of_2 [OF _ n] z by auto
  then have "bucket_log2_of ?n = None" using z by (simp add: bucket_log2_of_def log2_u32_def)
  then show ?thesis using False assms(1) by (simp add: load_config_def Let_def)
qed

theorem bucket_width_configured_witness:
  "\<exists>st'. load_config (Some ''cfg'') (\<lambda>p. Some (Some demo_json)) demo_state = Some st' \<and> 1000 \<le> (2 :: nat) ^ unat (st_bucket_log2 st')"
proof -
  have f: "1 \<le> unat (cj_bucket_interval_ns demo_json)" "unat (cj_bucket_interval_ns demo_json) = 1000" by code_simp+
  show ?thesis using bucket_width_configured [of "\<lambda>p. Some (Some demo_json)" "''cfg''" demo_json demo_state] f by auto
qed

end
