(* ===== verification/Reports.thy ===== *)
theory Reports
  imports Telemetry
begin

text \<open>
  The threads that write the telemetry report (\<open>net_ib.cc\<close>): \<open>anp_create_json_thread\<close>, \<open>json_thread_init\<close>, the signal
  handler and \<open>wait_for_threads_before_exit\<close>, with the destructor of \<open>anp_state\<close>.

  A thread owns a copy of the global state; deleting the copy runs the destructor, which writes the report, and only then is
  \<open>active_threads\<close> lowered.  The two are separate steps, and the steps of all threads and of the process interleave.  At exit the handler
  registered with \<open>atexit\<close> waits for the threads; the destructor of the global state runs after it, since the state was constructed before the
  handler was registered.  Creating the thread may fail, then the copy is deleted by the caller.  The attributes and the logging are left out, and \<open>signal\<close> is taken to
  succeed, as the source only logs its failure.
\<close>

subsection \<open>The process\<close>

datatype thread_pc = Deleting | Deleted

datatype process_phase = Running | Exiting | Waited | Gone

datatype signum = SIGUSR1 | SIGUSR2 | SIGOTHER

text \<open>\<open>taken\<close> and \<open>written\<close> record the copies that were made and the states that were reported; they do not influence a step.\<close>

record 'f process =
  g_anp_state :: anp_state
  active_threads :: int
  threads :: "(nat \<times> anp_state \<times> thread_pc) list"
  next_tid :: nat
  pr_fs :: 'f
  phase :: process_phase
  signals_on :: bool
  debug_info :: bool
  taken :: "anp_state list"
  written :: "anp_state list"

record 'f rep_env =
  re_files :: "'f files"
  re_tmp :: "nat \<Rightarrow> string"
  re_time :: "int \<Rightarrow> string"
  re_iter :: "int list \<Rightarrow> int list"
  re_pid :: int
  re_host :: "byte list option"
  re_process :: "string option"

text \<open>The destructor \<open>~anp_state\<close>, run by the thread \<open>tid\<close> at the time \<open>now\<close>.\<close>

definition destroy_state :: "'f rep_env \<Rightarrow> nat \<Rightarrow> int \<Rightarrow> anp_state \<Rightarrow> 'f process \<Rightarrow> 'f process option" where
  "destroy_state E tid now st p = do {
     (_, fs) \<leftarrow> anp_shutdown (re_files E) (re_tmp E tid) (re_time E) (re_iter E) (re_pid E) (re_host E) (re_process E) now st (pr_fs p);
     Some (p\<lparr>pr_fs := fs, written := written p @ [st]\<rparr>) }"

definition anp_create_json_thread :: "'f rep_env \<Rightarrow> bool \<Rightarrow> int \<Rightarrow> 'f process \<Rightarrow> 'f process option" where
  "anp_create_json_thread E created now p =
     (let snapshot = g_anp_state p;
          p = p\<lparr>active_threads := active_threads p + 1, taken := taken p @ [snapshot]\<rparr>
      in if created then Some (p\<lparr>threads := threads p @ [(next_tid p, snapshot, Deleting)], next_tid := next_tid p + 1\<rparr>)
         else destroy_state E 0 now snapshot (p\<lparr>active_threads := active_threads p - 1\<rparr>))"

text \<open>The two steps of \<open>json_thread_init\<close>, for the thread at place \<open>i\<close>.\<close>

definition json_thread_delete :: "'f rep_env \<Rightarrow> nat \<Rightarrow> int \<Rightarrow> 'f process \<Rightarrow> 'f process option" where
  "json_thread_delete E i now p = do {
     (tid, st, pc) \<leftarrow> arr_get (threads p) i;
     if pc = Deleting then map_option (\<lambda>q. q\<lparr>threads := (threads p)[i := (tid, st, Deleted)]\<rparr>) (destroy_state E tid now st p) else None }"

definition json_thread_end :: "nat \<Rightarrow> 'f process \<Rightarrow> 'f process option" where
  "json_thread_end i p = do {
     (tid, st, pc) \<leftarrow> arr_get (threads p) i;
     if pc = Deleted then Some (p\<lparr>threads := take i (threads p) @ drop (Suc i) (threads p), active_threads := active_threads p - 1\<rparr>) else None }"

definition anp_register_signal_hdl :: "'f process \<Rightarrow> 'f process" where
  "anp_register_signal_hdl p = p\<lparr>signals_on := True\<rparr>"

definition anp_deregister_signal_hdl :: "'f process \<Rightarrow> 'f process" where
  "anp_deregister_signal_hdl p = p\<lparr>signals_on := False\<rparr>"

text \<open>\<open>exit\<close> starts the handlers registered with \<open>atexit\<close>; the one of the plugin first removes the signal handlers.\<close>

definition exit_process :: "'f process \<Rightarrow> 'f process" where
  "exit_process p = anp_deregister_signal_hdl (p\<lparr>phase := Exiting\<rparr>)"

definition wait_for_threads :: "'f process \<Rightarrow> 'f process" where
  "wait_for_threads p = (if active_threads p > 0 then p else p\<lparr>phase := Waited\<rparr>)"

definition anp_reinit_debug_log :: "'f process \<Rightarrow> 'f process" where
  "anp_reinit_debug_log p = p\<lparr>debug_info := True\<rparr>"

definition anp_sig_handler :: "'f rep_env \<Rightarrow> signum \<Rightarrow> bool \<Rightarrow> int \<Rightarrow> 'f process \<Rightarrow> 'f process option" where
  "anp_sig_handler E signum created now p =
     (if signum = SIGUSR1 then anp_create_json_thread E created now p
      else if signum = SIGUSR2 then Some (exit_process (anp_reinit_debug_log p))
      else Some (exit_process p))"

inductive rep_step :: "'f rep_env \<Rightarrow> 'f process \<Rightarrow> 'f process \<Rightarrow> bool" for E where
  telemetry: "phase p = Running \<Longrightarrow> apply_op (re_iter E) x (g_anp_state p) = Some st \<Longrightarrow> rep_step E p (p\<lparr>g_anp_state := st\<rparr>)"
| create: "phase p = Running \<Longrightarrow> anp_create_json_thread E b now p = Some q \<Longrightarrow> rep_step E p q"
| signal: "phase p = Running \<Longrightarrow> signals_on p \<Longrightarrow> anp_sig_handler E s b now p = Some q \<Longrightarrow> rep_step E p q"
| exit: "phase p = Running \<Longrightarrow> rep_step E p (exit_process p)"
| wait: "phase p = Exiting \<Longrightarrow> rep_step E p (wait_for_threads p)"
| delete: "json_thread_delete E i now p = Some q \<Longrightarrow> rep_step E p q"
| finish: "json_thread_end i p = Some q \<Longrightarrow> rep_step E p q"
| destroy: "phase p = Waited \<Longrightarrow> destroy_state E 0 now (g_anp_state p) p = Some q \<Longrightarrow> rep_step E p (q\<lparr>phase := Gone\<rparr>)"

definition started :: "'f process \<Rightarrow> bool" where
  "started p \<longleftrightarrow> threads p = [] \<and> active_threads p = 0 \<and> phase p = Running \<and> taken p = [] \<and> written p = []"

subsection \<open>No report is lost\<close>

text \<open>The copies whose threads have not reported yet.\<close>

definition pending :: "'f process \<Rightarrow> anp_state list" where
  "pending p = map (\<lambda>(tid, st, pc). st) (filter (\<lambda>(tid, st, pc). pc = Deleting) (threads p))"

text \<open>
  \<open>active_threads\<close> counts the threads; every copy is pending or reported; once the wait is over there are no threads, and the last report is that of the global state.
\<close>

definition state_reported :: "'f rep_env \<Rightarrow> 'f process \<Rightarrow> bool" where
  "state_reported E p \<longleftrightarrow> (\<exists>fs tid now st. anp_shutdown (re_files E) (re_tmp E tid) (re_time E) (re_iter E) (re_pid E) (re_host E) (re_process E) now
     (g_anp_state p) fs = Some (st, pr_fs p))"

definition reports_inv :: "'f rep_env \<Rightarrow> 'f process \<Rightarrow> bool" where
  "reports_inv E p \<longleftrightarrow> active_threads p = int (length (threads p)) \<and> (phase p \<in> {Waited, Gone} \<longrightarrow> threads p = []) \<and>
     mset (written p) + mset (pending p) = mset (taken p) + (if phase p = Gone then {#g_anp_state p#} else {#}) \<and>
     (phase p = Gone \<longrightarrow> state_reported E p)"

lemma destroy_effect:
  assumes "destroy_state E tid now st p = Some q"
  shows "\<exists>fs. q = p\<lparr>pr_fs := fs, written := written p @ [st]\<rparr> \<and> (st = g_anp_state p \<longrightarrow> state_reported E (p\<lparr>pr_fs := fs\<rparr>))"
proof -
  obtain st' fs where r: "anp_shutdown (re_files E) (re_tmp E tid) (re_time E) (re_iter E) (re_pid E) (re_host E) (re_process E) now st (pr_fs p) = Some (st', fs)"
      "q = p\<lparr>pr_fs := fs, written := written p @ [st]\<rparr>"
    using assms by (auto simp: destroy_state_def bind_eq_Some_conv)
  have "state_reported E (p\<lparr>pr_fs := fs\<rparr>)" if "st = g_anp_state p" using r(1) that unfolding state_reported_def by auto
  then show ?thesis using r(2) by blast
qed

lemma create_inv:
  assumes "reports_inv E p" "phase p = Running" "anp_create_json_thread E b now p = Some q"
  shows "reports_inv E q"
proof (cases b)
  case True
  then show ?thesis using assms by (auto simp: anp_create_json_thread_def Let_def reports_inv_def pending_def)
next
  case False
  then obtain fs where "q = p\<lparr>active_threads := active_threads p, taken := taken p @ [g_anp_state p], pr_fs := fs, written := written p @ [g_anp_state p]\<rparr>"
    using assms(3) by (auto simp: anp_create_json_thread_def Let_def dest!: destroy_effect)
  then show ?thesis using assms(1,2) by (auto simp: reports_inv_def pending_def)
qed

lemma exit_inv: "reports_inv E p \<Longrightarrow> phase p = Running \<Longrightarrow> reports_inv E (exit_process p)"
  by (simp add: reports_inv_def exit_process_def anp_deregister_signal_hdl_def pending_def)

lemma pending_delete:
  assumes "i < length ts" "ts ! i = (tid, st, Deleting)"
  shows "mset (map (\<lambda>(tid, st, pc). st) (filter (\<lambda>(tid, st, pc). pc = Deleting) ts)) =
    add_mset st (mset (map (\<lambda>(tid, st, pc). st) (filter (\<lambda>(tid, st, pc). pc = Deleting) (ts[i := (tid, st, Deleted)]))))"
  using assms by (induction ts arbitrary: i) (auto split: nat.splits prod.splits simp: less_Suc_eq_0_disj)

lemma pending_end:
  assumes "i < length ts" "ts ! i = (tid, st, Deleted)"
  shows "filter (\<lambda>(tid, st, pc). pc = Deleting) (take i ts @ drop (Suc i) ts) = filter (\<lambda>(tid, st, pc). pc = Deleting) ts"
proof -
  have "ts = take i ts @ (tid, st, Deleted) # drop (Suc i) ts" using assms by (metis id_take_nth_drop)
  then have "filter (\<lambda>(tid, st, pc). pc = Deleting) ts = filter (\<lambda>(tid, st, pc). pc = Deleting) (take i ts @ (tid, st, Deleted) # drop (Suc i) ts)"
    by simp
  then show ?thesis by simp
qed

lemma delete_inv:
  assumes "reports_inv E p" "json_thread_delete E i now p = Some q"
  shows "reports_inv E q"
proof -
  obtain tid st where t: "i < length (threads p)" "threads p ! i = (tid, st, Deleting)"
    using assms(2) by (auto simp: json_thread_delete_def bind_eq_Some_conv arr_get_def split: if_splits)
  obtain fs where q: "q = p\<lparr>pr_fs := fs, written := written p @ [st], threads := (threads p)[i := (tid, st, Deleted)]\<rparr>"
    using assms(2) t by (auto simp: json_thread_delete_def arr_get_def bind_eq_Some_conv dest!: destroy_effect)
  have "phase p \<notin> {Waited, Gone}" using assms(1) t(1) by (auto simp: reports_inv_def)
  then show ?thesis using assms(1) q pending_delete [OF t] by (simp add: reports_inv_def pending_def)
qed

lemma end_inv:
  assumes "reports_inv E p" "json_thread_end i p = Some q"
  shows "reports_inv E q"
proof -
  obtain tid st where t: "i < length (threads p)" "threads p ! i = (tid, st, Deleted)"
      "q = p\<lparr>threads := take i (threads p) @ drop (Suc i) (threads p), active_threads := active_threads p - 1\<rparr>"
    using assms(2) by (auto simp: json_thread_end_def bind_eq_Some_conv arr_get_def split: if_splits)
  have "phase p \<notin> {Waited, Gone}" using assms(1) t(1) by (auto simp: reports_inv_def)
  then show ?thesis using assms(1) t pending_end [OF t(1,2)] by (simp add: reports_inv_def pending_def)
qed

lemma rep_step_inv:
  assumes "rep_step E p q" "reports_inv E p"
  shows "reports_inv E q"
  using assms
proof cases
  case (telemetry x st)
  then show ?thesis using assms(2) by (simp add: reports_inv_def pending_def)
next
  case (signal s b now)
  have "reports_inv E (anp_reinit_debug_log p)" using assms(2) signal(1) by (simp add: reports_inv_def anp_reinit_debug_log_def pending_def)
  moreover have "phase (anp_reinit_debug_log p) = Running" using signal(1) by (simp add: anp_reinit_debug_log_def)
  ultimately show ?thesis using signal assms(2) create_inv exit_inv by (cases s) (auto simp: anp_sig_handler_def)
next
  case wait
  then show ?thesis using assms(2) by (auto simp: reports_inv_def wait_for_threads_def pending_def)
next
  case (destroy now q')
  then show ?thesis using assms(2) by (auto simp: reports_inv_def pending_def state_reported_def dest!: destroy_effect)
qed (use assms(2) create_inv exit_inv delete_inv end_inv in blast)+

lemma reach_inv: "(rep_step E)\<^sup>*\<^sup>* p q \<Longrightarrow> reports_inv E p \<Longrightarrow> reports_inv E q"
  by (induction rule: rtranclp_induct) (auto intro: rep_step_inv)


subsection \<open>The wait at exit ends\<close>

definition reportable :: "anp_state \<Rightarrow> bool" where
  "reportable st \<longleftrightarrow> tele_ok st \<and> devices st \<noteq> []"

lemmas name_updates = update_process_name_def update_host_name_def

lemma shutdown_defined:
  assumes "reportable st" "iter_law iter"
  shows "anp_shutdown F tmp tstr iter pid host process now st fs \<noteq> None"
proof -
  have "set (iter (map fst (devices st))) \<noteq> {}" using assms by (auto simp: iter_law_def reportable_def)
  then obtain d ks where d: "iter (map fst (devices st)) = d # ks" by (cases "iter (map fst (devices st))") auto
  define st' where "st' = (update_process_name process (update_host_name host (st\<lparr>st_process_id := pid\<rparr>)))\<lparr>st_device_id := Some d, st_end_time := now\<rparr>"
  have "tele_ok st'" using assms(1) unfolding reportable_def by (elim conjE) (erule tele_ok_frame, simp_all add: st'_def name_updates)
  then obtain t where "to_json tstr iter st' = Some t" using to_json_ok [OF _ assms(2), of st' tstr] by blast
  moreover have "report_file st' = Some (st_output_dir st' @ ''/device_status_'' @ int_str d @ ''.json'')" by (simp add: report_file_def st'_def)
  ultimately have "write_json_to_file F tmp tstr iter st' fs \<noteq> None" by (auto simp: write_json_to_file_def Let_def split: prod.splits)
  then show ?thesis using assms(1) d by (auto simp: anp_shutdown_def Let_def reportable_def st'_def name_updates bind_eq_None_conv)
qed

lemma destroy_defined:
  assumes "reportable st" "iter_law (re_iter E)"
  obtains q fs where "destroy_state E tid now st p = Some q" "q = p\<lparr>pr_fs := fs, written := written p @ [st]\<rparr>"
proof -
  obtain st' fs where "anp_shutdown (re_files E) (re_tmp E tid) (re_time E) (re_iter E) (re_pid E) (re_host E) (re_process E) now st (pr_fs p) = Some (st', fs)"
    using shutdown_defined [OF assms] by fastforce
  then show thesis using that [of "p\<lparr>pr_fs := fs, written := written p @ [st]\<rparr>" fs] by (simp add: destroy_state_def)
qed

definition thread_work :: "'f process \<Rightarrow> nat" where
  "thread_work p = sum_list (map (\<lambda>(tid, st, pc). if pc = Deleting then 2 else 1) (threads p))"

definition exit_ready :: "'f rep_env \<Rightarrow> anp_state \<Rightarrow> 'f process \<Rightarrow> bool" where
  "exit_ready E g p \<longleftrightarrow> reports_inv E p \<and> phase p = Exiting \<and> g_anp_state p = g \<and> reportable g \<and> (\<forall>st\<in>set (pending p). reportable st)"

lemma thread_progress:
  assumes "exit_ready E g p" "threads p \<noteq> []" "iter_law (re_iter E)"
  shows "\<exists>q. rep_step E p q \<and> exit_ready E g q \<and> thread_work q < thread_work p"
proof -
  obtain tid st pc ts where t: "threads p = (tid, st, pc) # ts" using assms(2) by (cases "threads p") auto
  have "\<exists>q. rep_step E p q \<and> phase q = phase p \<and> g_anp_state q = g_anp_state p \<and> set (pending q) \<subseteq> set (pending p) \<and> thread_work q < thread_work p"
  proof (cases pc)
    case Deleting
    then have "reportable st" using assms(1) t by (simp add: exit_ready_def pending_def)
    then obtain r fs where r: "destroy_state E tid 0 st p = Some r" "r = p\<lparr>pr_fs := fs, written := written p @ [st]\<rparr>"
      using destroy_defined assms(3) by blast
    then have "json_thread_delete E 0 0 p = Some (r\<lparr>threads := (tid, st, Deleted) # ts\<rparr>)" using t Deleting by (simp add: json_thread_delete_def arr_get_def)
    then show ?thesis using r(2) t Deleting rep_step.delete
      by (intro exI [of _ "r\<lparr>threads := (tid, st, Deleted) # ts\<rparr>"]) (simp add: pending_def thread_work_def subset_insertI)
  next
    case Deleted
    then have "json_thread_end 0 p = Some (p\<lparr>threads := ts, active_threads := active_threads p - 1\<rparr>)" using t by (simp add: json_thread_end_def arr_get_def)
    then show ?thesis using t Deleted rep_step.finish
      by (intro exI [of _ "p\<lparr>threads := ts, active_threads := active_threads p - 1\<rparr>"]) (auto simp: pending_def thread_work_def)
  qed
  then show ?thesis using assms(1) rep_step_inv unfolding exit_ready_def by (metis subsetD)
qed

lemma exit_ready_completes:
  "exit_ready E g p \<Longrightarrow> iter_law (re_iter E) \<Longrightarrow> \<exists>q. (rep_step E)\<^sup>*\<^sup>* p q \<and> phase q = Gone \<and> g_anp_state q = g"
proof (induction "thread_work p" arbitrary: p rule: less_induct)
  case less
  show ?case
  proof (cases "threads p = []")
    case True
    define w where "w = p\<lparr>phase := Waited\<rparr>"
    have "wait_for_threads p = w" using less.prems(1) True by (simp add: exit_ready_def reports_inv_def wait_for_threads_def w_def)
    then have 1: "rep_step E p w" using rep_step.wait [of p E] less.prems(1) by (simp add: exit_ready_def)
    obtain q fs where q: "destroy_state E 0 0 (g_anp_state w) w = Some q" "q = w\<lparr>pr_fs := fs, written := written w @ [g_anp_state w]\<rparr>"
      using destroy_defined [OF _ less.prems(2), of "g_anp_state w" 0 0 w] less.prems(1) by (auto simp: exit_ready_def w_def)
    then have "rep_step E w (q\<lparr>phase := Gone\<rparr>)" using rep_step.destroy [of w E 0 q] by (simp add: w_def)
    then have "(rep_step E)\<^sup>*\<^sup>* p (q\<lparr>phase := Gone\<rparr>)" using 1 by (meson converse_rtranclp_into_rtranclp r_into_rtranclp)
    then show ?thesis using q(2) less.prems(1) by (intro exI [of _ "q\<lparr>phase := Gone\<rparr>"]) (simp add: exit_ready_def w_def)
  next
    case False
    then obtain q where "rep_step E p q" "exit_ready E g q" "thread_work q < thread_work p" using thread_progress less.prems by blast
    then show ?thesis using less.hyps less.prems(2) by (meson converse_rtranclp_into_rtranclp)
  qed
qed

text \<open>
  C35: a process that exits can always run to its end: whatever was running when it began to exit, the threads can finish, the wait for them ends and the
  final state is reported, provided every state still to be reported has a device.
\<close>

theorem exit_completes:
  assumes "started p" "(rep_step E)\<^sup>*\<^sup>* p q" "phase q = Exiting" "iter_law (re_iter E)"
    and "reportable (g_anp_state q)" "\<forall>st\<in>set (pending q). reportable st"
  shows "\<exists>r. (rep_step E)\<^sup>*\<^sup>* q r \<and> phase r = Gone \<and> g_anp_state r = g_anp_state q"
proof -
  have "reports_inv E p" using assms(1) by (simp add: started_def reports_inv_def pending_def)
  then have "exit_ready E (g_anp_state q) q" using reach_inv assms unfolding exit_ready_def by blast
  then show ?thesis using exit_ready_completes assms(4) by blast
qed

subsection \<open>A concrete run\<close>

definition demo_rep :: "string list rep_env" where
  "demo_rep = \<lparr>re_files = \<lparr>f_open = (\<lambda>f fs. (True, fs)), f_write = (\<lambda>f t fs. f # fs), f_rename = (\<lambda>a b fs. (True, b # fs))\<rparr>,
     re_tmp = (\<lambda>t. ''.tmp''), re_time = (\<lambda>t. []), re_iter = (\<lambda>ks. ks), re_pid = 1, re_host = None, re_process = Some ''p''\<rparr>"

definition demo_process :: "string list process" where
  "demo_process = \<lparr>g_anp_state = demo_run, active_threads = 0, threads = [], next_tid = 1, pr_fs = [], phase = Running, signals_on = True, debug_info = False,
     taken = [], written = []\<rparr>"

text \<open>A report is asked for, and the process exits before its thread has run.\<close>

definition demo_exiting :: "string list process" where
  "demo_exiting = demo_process\<lparr>active_threads := 1, threads := [(1, demo_run, Deleting)], next_tid := 2, taken := [demo_run], phase := Exiting, signals_on := False\<rparr>"

lemma demo_reaches_exit: "started demo_process" "(rep_step demo_rep)\<^sup>*\<^sup>* demo_process demo_exiting"
proof -
  show "started demo_process" by (simp add: started_def demo_process_def)
  let ?p = "demo_process\<lparr>active_threads := 1, threads := [(1, demo_run, Deleting)], next_tid := 2, taken := [demo_run]\<rparr>"
  have "anp_sig_handler demo_rep SIGUSR1 True 0 demo_process = Some ?p"
    by (simp add: anp_sig_handler_def anp_create_json_thread_def demo_process_def Let_def)
  then have "rep_step demo_rep demo_process ?p" by (intro rep_step.signal [of _ _ SIGUSR1 True 0]) (simp_all add: demo_process_def)
  moreover have "rep_step demo_rep ?p demo_exiting"
    using rep_step.exit [of ?p demo_rep] by (simp add: exit_process_def anp_deregister_signal_hdl_def demo_exiting_def demo_process_def)
  ultimately show "(rep_step demo_rep)\<^sup>*\<^sup>* demo_process demo_exiting" by (meson converse_rtranclp_into_rtranclp r_into_rtranclp)
qed

lemma demo_reportable: "reportable demo_run"
proof -
  have "devices demo_run \<noteq> []" by code_simp
  then show ?thesis using demo_run_ok by (simp add: reportable_def)
qed

lemma demo_exiting_ready: "phase demo_exiting = Exiting" "iter_law (re_iter demo_rep)" "reportable (g_anp_state demo_exiting)"
    "\<forall>st\<in>set (pending demo_exiting). reportable st"
  using demo_reportable iter_id by (simp_all add: demo_exiting_def demo_process_def demo_rep_def pending_def)

theorem exit_completes_witness:
  "\<exists>r. (rep_step demo_rep)\<^sup>*\<^sup>* demo_exiting r \<and> phase r = Gone \<and> g_anp_state r = demo_run"
  using exit_completes [OF demo_reaches_exit demo_exiting_ready] by (simp add: demo_exiting_def demo_process_def)


end
