(* ===== verification/Devices.thy ===== *)
theory Devices
  imports Setup
begin

text \<open>
  Discovery of the devices (\<open>net_ib.cc\<close>): \<open>anpNetInit\<close>, \<open>anpNetDevices\<close> and \<open>anpNetGetProperties\<close> with
  their helpers, the dump of the counters and the thread that logs the events of a device.

  \<open>ncclIbDevs\<close> and \<open>ncclIbMergedDevs\<close> are the arrays \<open>ibDevs\<close> and \<open>mergedDevs\<close> of \<open>net\<close>, of
  \<open>MAX_IB_DEVS\<close> entries that are zero when the library is loaded; writing past them is \<open>None\<close>.  The two counters are
  the record \<open>disc\<close>, \<open>-1\<close> before the first call.  The verbs, RCCL's helpers for interface names, \<open>realpath\<close> and the parameters are the
  record \<open>disc_env\<close>.  The text that is logged and the version string are left out.
\<close>

subsection \<open>State and environment\<close>

definition MAXNAMESIZE :: nat where "MAXNAMESIZE = 64"
definition IBV_PORT_ACTIVE :: int where "IBV_PORT_ACTIVE = 4"

record disc =
  ncclNIbDevs :: int
  ncclNMergedIbDevs :: int
  relaxedOrdering :: bool

record ibv_device_attr =
  sys_image_guid :: u64
  phys_port_cnt :: nat
  max_qp :: int

record 'w disc_env =
  i_symbols :: "'w \<Rightarrow> (ncclResult \<times> unit) \<times> 'w"
  i_hooks :: "'w \<Rightarrow> 'w"
  i_fork_init :: "'w \<Rightarrow> 'w"
  i_findInterfaces :: "'w \<Rightarrow> int \<times> 'w"
  i_get_device_list :: "'w \<Rightarrow> (ncclResult \<times> string list) \<times> 'w"
  i_free_device_list :: "string list option \<Rightarrow> 'w \<Rightarrow> (ncclResult \<times> unit) \<times> 'w"
  i_open_device :: "nat \<Rightarrow> 'w \<Rightarrow> (ncclResult \<times> ctx_ptr option) \<times> 'w"
  i_close_device :: "ctx_ptr \<Rightarrow> 'w \<Rightarrow> (ncclResult \<times> unit) \<times> 'w"
  i_query_device :: "ctx_ptr \<Rightarrow> 'w \<Rightarrow> (ncclResult \<times> ibv_device_attr) \<times> 'w"
  i_query_port :: "ctx_ptr \<Rightarrow> nat \<Rightarrow> 'w \<Rightarrow> (ncclResult \<times> port_attr) \<times> 'w"
  i_async_thread :: "nat \<Rightarrow> 'w \<Rightarrow> 'w"
  i_probe_iova2 :: "'w \<Rightarrow> ncclResult \<times> 'w"
  i_realpath :: "string \<Rightarrow> string option"
  i_getenv :: "string \<Rightarrow> string option"
  i_parseStringList :: "string option \<Rightarrow> nat \<Rightarrow> (string \<times> int) list"
  i_matchIfList :: "string \<Rightarrow> nat \<Rightarrow> (string \<times> int) list \<Rightarrow> bool \<Rightarrow> bool"
  i_IbDisable :: int
  i_IbMergeVfs :: int
  i_IbMergeNics :: int
  i_IbAdaptiveRouting :: int
  i_IbPciRelaxedOrdering :: int

text \<open>
  A device of the list is its name.  \<open>i_open_device\<close> gives \<open>None\<close> for a null context, \<open>i_free_device_list\<close> takes \<open>None\<close> for a null list,
  \<open>i_hooks\<close> stands for the exit and signal handlers, \<open>i_async_thread\<close> for the start of the event thread of a device.
\<close>

type_synonym 'w dstate = "disc \<times> 'w net"

subsection \<open>Speed of a port\<close>

definition ibvWidths :: "int list" where "ibvWidths = [1, 4, 8, 12, 2]"

definition ibvSpeeds :: "int list" where
  "ibvSpeeds = [2500, 5000, 10000, 10000, 14000, 25000, 50000, 100000]"

function first_bit_loop :: "int \<Rightarrow> nat \<Rightarrow> nat \<Rightarrow> nat" where
  "first_bit_loop val mx i = (if i < mx \<and> val AND push_bit i 1 = 0 then first_bit_loop val mx (i + 1) else i)"
  by auto
termination by (relation "measure (\<lambda>(val, mx, i). mx - i)") auto

declare first_bit_loop.simps [simp del]

definition firstBitSet :: "int \<Rightarrow> nat \<Rightarrow> nat" where
  "firstBitSet val mx = first_bit_loop val mx 0"

definition ncclIbWidth :: "int \<Rightarrow> int option" where
  "ncclIbWidth width = arr_get ibvWidths (firstBitSet width (length ibvWidths - 1))"

definition ncclIbSpeed :: "int \<Rightarrow> int option" where
  "ncclIbSpeed spd = arr_get ibvSpeeds (firstBitSet spd (length ibvSpeeds - 1))"

subsection \<open>The PCI path of a device\<close>

text \<open>
  The last character names the function of a multi-port card, the third and fourth from the end the slot of a virtual
  function; both are set to zero.
\<close>

definition pci_base :: "int \<Rightarrow> string \<Rightarrow> string option" where
  "pci_base mergeVfs p = do {
     p \<leftarrow> (if p = [] then None else Some (p[length p - 1 := CHR ''0'']));
     if mergeVfs \<noteq> 0 then (if length p < 4 then None else Some (p[length p - 4 := CHR ''0'', length p - 3 := CHR ''0'']))
     else Some p }"

text \<open>The comparison with a null path is undefined.\<close>

fun count_ports :: "string \<Rightarrow> ncclIbDev list \<Rightarrow> nat \<Rightarrow> int option" where
  "count_ports p devs 0 = Some 0"
| "count_ports p devs (Suc d) = do {
     c \<leftarrow> count_ports p devs d;
     v \<leftarrow> arr_get devs d;
     q \<leftarrow> pciPath v;
     Some (if p = q then c + 1 else c) }"

definition ncclIbGetPciPath :: "'w disc_env \<Rightarrow> ncclIbDev list \<Rightarrow> nat \<Rightarrow> string \<Rightarrow> int \<Rightarrow> (string option \<times> int) option" where
  "ncclIbGetPciPath K devs n name port0 = (case i_realpath K (''/sys/class/infiniband/'' @ name @ ''/device'') of
     None \<Rightarrow> Some (None, port0)
   | Some p \<Rightarrow> do { p \<leftarrow> pci_base (i_IbMergeVfs K) p; c \<leftarrow> count_ports p devs n; Some (Some p, c) })"

subsection \<open>Merging the ports of a card\<close>

fun find_matching :: "ncclIbDev list \<Rightarrow> ncclIbMergedDev list \<Rightarrow> nat \<Rightarrow> nat \<Rightarrow> nat \<Rightarrow> nat option" where
  "find_matching devs ms dev i 0 = Some i"
| "find_matching devs ms dev i (Suc r) = do {
     m \<leftarrow> arr_get ms i;
     if md_ndevs m < NCCL_IB_MAX_DEVS_PER_NIC then do {
       compareDev \<leftarrow> arr_get (md_devs m) 0;
       a \<leftarrow> arr_get devs dev;
       b \<leftarrow> arr_get devs compareDev;
       p \<leftarrow> pciPath a;
       q \<leftarrow> pciPath b;
       if p = q \<and> guid a = guid b \<and> dv_link a = dv_link b then Some i else find_matching devs ms dev (Suc i) r }
     else find_matching devs ms dev (Suc i) r }"

definition ncclIbFindMatchingDev :: "'w dstate \<Rightarrow> nat \<Rightarrow> nat option" where
  "ncclIbFindMatchingDev s dev = (case s of (c, n) \<Rightarrow> find_matching (ibDevs n) (mergedDevs n) dev 0 (nat (ncclNMergedIbDevs c)))"

text \<open>
  The entry of a port, in the next free place of the array.  A name that fills its array has no terminator and is read on: \<open>None\<close>.
\<close>

definition add_dev :: "'w disc_env \<Rightarrow> nat \<Rightarrow> string \<Rightarrow> ctx_ptr \<Rightarrow> ibv_device_attr \<Rightarrow> nat \<Rightarrow> port_attr \<Rightarrow> 'w dstate \<Rightarrow> 'w dstate option" where
  "add_dev K d name ctx da port pa s = (case s of (c, n) \<Rightarrow> do {
     let k = nat (ncclNIbDevs c);
     v \<leftarrow> arr_get (ibDevs n) k;
     sp \<leftarrow> ncclIbSpeed (active_speed pa);
     wd \<leftarrow> ncclIbWidth (active_width pa);
     nm \<leftarrow> (if length name < MAXNAMESIZE then Some name else None);
     (path, rp) \<leftarrow> ncclIbGetPciPath K (ibDevs n) k nm (realPort v);
     Some (c, n\<lparr>ibDevs := (ibDevs n)[k := v\<lparr>device := int d, guid := sys_image_guid da, portAttr := pa, portNum := word_of_nat port,
       dv_link := pa_link_layer pa, speed := sp * wd, dv_context := ctx, pdRefs := 0, dv_pd := 0, devName := nm, pciPath := path, realPort := rp,
       maxQp := max_qp da, mrCache := empty_cache,
       dv_ar := (if i_IbAdaptiveRouting K \<noteq> -2 then i_IbAdaptiveRouting K else if pa_link_layer pa = IBV_LINK_LAYER_INFINIBAND then 1 else 0)\<rparr>]\<rparr>) })"

text \<open>The new port becomes a merged device of its own, or the next port of the one it matches.\<close>

definition merge_dev :: "int \<Rightarrow> 'w dstate \<Rightarrow> 'w dstate option" where
  "merge_dev mergeNics s = (case s of (c, n) \<Rightarrow> do {
     let k = nat (ncclNIbDevs c);
     let m = nat (ncclNMergedIbDevs c);
     i \<leftarrow> (if mergeNics \<noteq> 0 then ncclIbFindMatchingDev s k else Some m);
     v \<leftarrow> arr_get (ibDevs n) k;
     md \<leftarrow> arr_get (mergedDevs n) i;
     ds \<leftarrow> arr_set (md_devs md) (if i = m then 0 else md_ndevs md) k;
     let md = (if i = m then md\<lparr>md_ndevs := 1, md_devs := ds, md_devName := devName v\<rparr>
               else md\<lparr>md_ndevs := md_ndevs md + 1, md_devs := ds, md_devName := md_devName md @ ''+'' @ devName v\<rparr>);
     Some (c\<lparr>ncclNMergedIbDevs := (if i = m then ncclNMergedIbDevs c + 1 else ncclNMergedIbDevs c), ncclNIbDevs := ncclNIbDevs c + 1\<rparr>,
       n\<lparr>mergedDevs := (mergedDevs n)[i := md\<lparr>md_speed := md_speed md + speed v\<rparr>]\<rparr>) })"

subsection \<open>Building the list\<close>

text \<open>The devices the user selected: \<open>^\<close> excludes, \<open>=\<close> asks for exact names.\<close>

definition user_spec :: "string option \<Rightarrow> bool \<times> bool \<times> string option" where
  "user_spec env =
     (let searchNot = (case env of Some (c # _) \<Rightarrow> c = CHR ''^'' | _ \<Rightarrow> False);
          env = (if searchNot then map_option tl env else env);
          searchExact = (case env of Some (c # _) \<Rightarrow> c = CHR ''='' | _ \<Rightarrow> False);
          env = (if searchExact then map_option tl env else env)
      in (searchNot, searchExact, env))"

record hca_sel =
  searchNot :: bool
  searchExact :: bool
  userIfs :: "(string \<times> int) list"

definition visit_port :: "'w disc_env \<Rightarrow> int \<Rightarrow> hca_sel \<Rightarrow> nat \<Rightarrow> string \<Rightarrow> ctx_ptr \<Rightarrow> ibv_device_attr \<Rightarrow> nat \<Rightarrow> ('w dstate, unit) nc" where
  "visit_port K mergeNics U d name ctx da port =
     nbind (nexec (on_world (i_query_port K ctx port))) (\<lambda>(res, pa).
     if res \<noteq> ncclSuccess then nret ()
     else if pa_state pa \<noteq> IBV_PORT_ACTIVE then nret ()
     else if pa_link_layer pa \<noteq> IBV_LINK_LAYER_INFINIBAND \<and> pa_link_layer pa \<noteq> IBV_LINK_LAYER_ETHERNET then nret ()
     else if \<not> (i_matchIfList K name port (userIfs U) (searchExact U) \<noteq> searchNot U) then nret ()
     else
       nbind (nwrite (add_dev K d name ctx da port pa)) (\<lambda>_.
       nbind (nget (\<lambda>(c, n). nat (ncclNIbDevs c))) (\<lambda>k.
       nbind (nexec (on_world (\<lambda>w. ((), i_async_thread K k w)))) (\<lambda>_.
       nwrite (merge_dev mergeNics)))))"

text \<open>\<open>nPorts\<close> of the source counts the ports of this device, that is what \<open>ncclNIbDevs\<close> grew by.\<close>

definition close_if :: "'w disc_env \<Rightarrow> bool \<Rightarrow> ctx_ptr \<Rightarrow> ('w dstate, unit) nc" where
  "close_if K b ctx = nwhen b
     (nbind (nexec (on_world (i_close_device K ctx))) (\<lambda>(res, _). nguard (if res = ncclSuccess then ncclSuccess else ncclInternalError)))"

definition visit_device :: "'w disc_env \<Rightarrow> int \<Rightarrow> hca_sel \<Rightarrow> string list \<Rightarrow> nat \<Rightarrow> ('w dstate, unit) nc" where
  "visit_device K mergeNics U devices d =
     nbind (nget (\<lambda>(c, n). ncclNIbDevs c)) (\<lambda>k.
     nwhen (k < int MAX_IB_DEVS)
       (nbind (nread (\<lambda>s. arr_get devices d)) (\<lambda>name.
        nbind (nexec (on_world (i_open_device K d))) (\<lambda>(res, ctxo).
        case ctxo of None \<Rightarrow> nret () | Some ctx \<Rightarrow>
        if res \<noteq> ncclSuccess then nret () else
        nbind (nexec (on_world (i_query_device K ctx))) (\<lambda>(res, da).
        if res \<noteq> ncclSuccess then close_if K True ctx else
        nbind (nfor [1..<Suc (phys_port_cnt da)] (visit_port K mergeNics U d name ctx da)) (\<lambda>_.
        nbind (nget (\<lambda>(c, n). ncclNIbDevs c)) (\<lambda>k'.
        close_if K (k' = k) ctx)))))))"

definition zero_merged :: ncclIbMergedDev where
  "zero_merged = \<lparr>md_ndevs = 0, md_devs = [0, 0], md_speed = 0, md_devName = []\<rparr>"

definition reset_list :: "'w dstate \<Rightarrow> 'w dstate" where
  "reset_list s = (case s of (c, n) \<Rightarrow>
     (c\<lparr>ncclNIbDevs := 0, ncclNMergedIbDevs := 0\<rparr>, n\<lparr>mergedDevs := replicate MAX_IB_DEVS zero_merged\<rparr>))"

definition mixed_nics :: "'w dstate \<Rightarrow> bool" where
  "mixed_nics s = (case s of (c, n) \<Rightarrow>
     list_ex (\<lambda>d. md_ndevs (mergedDevs n ! d) \<noteq> md_ndevs (mergedDevs n ! 0)) [0..<nat (ncclNMergedIbDevs c)])"

text \<open>The label \<open>build_ib_list\<close>: a mix of cards with one and with several ports makes it start again without merging.\<close>

function build_ib_list :: "'w disc_env \<Rightarrow> hca_sel \<Rightarrow> string list \<Rightarrow> int \<Rightarrow> ('w dstate, unit) nc" where
  "build_ib_list K U devices mergeNics s =
     (case nfor [0..<length devices] (visit_device K mergeNics U devices) s of
        Some (Inr u, t) \<Rightarrow> if mergeNics \<noteq> 0 \<and> mixed_nics t then build_ib_list K U devices 0 (reset_list t) else Some (Inr u, t)
      | Some (Inl r, t) \<Rightarrow> Some (Inl r, t)
      | None \<Rightarrow> None)"
  by pat_completeness auto
termination by (relation "measure (\<lambda>(K, U, devices, mergeNics, s). if mergeNics = 0 then 0 else 1)") auto

declare build_ib_list.simps [simp del]

subsection \<open>Initialisation and properties\<close>

definition ncclIbRelaxedOrderingCapable :: "'w disc_env \<Rightarrow> ('w dstate, bool) nc" where
  "ncclIbRelaxedOrderingCapable K =
     (let roMode = i_IbPciRelaxedOrdering K in
      if roMode = 1 \<or> roMode = 2 then nbind (nexec (on_world (i_probe_iova2 K))) (\<lambda>r. nret (r \<noteq> ncclInternalError))
      else nret False)"

text \<open>The label \<open>fail\<close>: the list is freed, whatever that gives, and the error is returned.\<close>

definition or_fail :: "'w disc_env \<Rightarrow> string list option \<Rightarrow> ('w dstate, 'a) nc \<Rightarrow> ('w dstate, 'a) nc" where
  "or_fail K devices M s = (case M s of
     Some (Inl r, t) \<Rightarrow> (case on_world (i_free_device_list K devices) t of (_, t) \<Rightarrow> Some (Inl r, t))
   | x \<Rightarrow> x)"

definition list_devices :: "'w disc_env \<Rightarrow> ('w dstate, hca_sel \<times> string list) nc" where
  "list_devices K =
     nbind (nexec (on_world (i_findInterfaces K))) (\<lambda>k.
     if k \<noteq> 1 then nfail ncclInternalError else
     (case user_spec (i_getenv K ''NCCL_IB_HCA'') of (sn, se, env) \<Rightarrow>
     nbind (nexec (on_world (i_get_device_list K))) (\<lambda>(res, devices).
     if res \<noteq> ncclSuccess then nfail ncclInternalError
     else nret (\<lparr>searchNot = sn, searchExact = se, userIfs = i_parseStringList K env MAX_IB_DEVS\<rparr>, devices))))"

text \<open>The detection of the cards, done once; then the initialisation itself.\<close>

definition detect_cards :: "'w disc_env \<Rightarrow> ('w dstate, unit) nc" where
  "detect_cards K =
     nbind (nset (\<lambda>(c, n). (c\<lparr>ncclNIbDevs := 0, ncclNMergedIbDevs := 0\<rparr>, n))) (\<lambda>_.
     nbind (or_fail K None (list_devices K)) (\<lambda>(U, devices).
     or_fail K (Some devices)
       (nbind (build_ib_list K U devices (i_IbMergeNics K)) (\<lambda>_.
        nbind (nexec (on_world (i_free_device_list K (Some devices)))) (\<lambda>(res, _).
        nguard (if res = ncclSuccess then ncclSuccess else ncclInternalError))))))"

definition anpNetInit :: "'w disc_env \<Rightarrow> ('w dstate, unit) nc" where
  "anpNetInit K =
     (if i_IbDisable K \<noteq> 0 then nfail ncclInternalError else
      nbind (nexec (on_world (i_symbols K))) (\<lambda>(res, _).
      if res \<noteq> ncclSuccess then nfail ncclInternalError else
      nbind (nexec (on_world (\<lambda>w. ((), i_hooks K w)))) (\<lambda>_.
      nbind (nget (\<lambda>(c, n). ncclNIbDevs c)) (\<lambda>k.
      nwhen (k = -1)
        (nbind (nexec (on_world (\<lambda>w. ((), i_fork_init K w)))) (\<lambda>_.
         nbind (detect_cards K) (\<lambda>_.
         nbind (nget (\<lambda>(c, n). ncclNIbDevs c)) (\<lambda>k.
         nwhen (k \<noteq> 0)
           (nbind (ncclIbRelaxedOrderingCapable K) (\<lambda>r.
            nset (\<lambda>(c, n). (c\<lparr>relaxedOrdering := r\<rparr>, n))))))))))))"

definition anpNetDevices :: "'w dstate \<Rightarrow> int" where
  "anpNetDevices s = ncclNMergedIbDevs (fst s)"

datatype ptr_kind = NCCL_PTR_HOST | NCCL_PTR_CUDA | NCCL_PTR_DMABUF

record net_props =
  pr_name :: string
  pr_pciPath :: "string option"
  pr_guid :: u64
  pr_ptrSupport :: "ptr_kind list"
  pr_speed :: int
  pr_port :: int
  pr_maxComms :: int
  pr_regIsGlobal :: int
  pr_latency :: int
  pr_maxRecvs :: nat

text \<open>The flags of the supported memory are the list of those set; the device type, version and size limit are constants of RCCL and left out.\<close>

definition anpNetGetProperties :: "int \<Rightarrow> 'w dstate \<Rightarrow> nat \<Rightarrow> net_props option" where
  "anpNetGetProperties DmaBufEnable s dev = (case s of (c, n) \<Rightarrow> do {
     md \<leftarrow> arr_get (mergedDevs n) dev;
     d0 \<leftarrow> arr_get (md_devs md) 0;
     v \<leftarrow> arr_get (ibDevs n) d0;
     Some \<lparr>pr_name = md_devName md, pr_pciPath = pciPath v, pr_guid = guid v,
       pr_ptrSupport = [NCCL_PTR_HOST] @ (if ncclIbGdrSupport = ncclSuccess then [NCCL_PTR_CUDA] else []) @
         (if ncclIbDmaBufSupport DmaBufEnable = ncclSuccess then [NCCL_PTR_DMABUF] else []),
       pr_speed = md_speed md, pr_port = uint (portNum v) + realPort v, pr_maxComms = maxQp v, pr_regIsGlobal = 1, pr_latency = 0,
       pr_maxRecvs = NCCL_NET_IB_MAX_RECVS\<rparr> })"

subsection \<open>Statistics and the event thread\<close>

text \<open>The lines of the dump: a device, a counter, a counter with what is expected, and the number of errors.\<close>

datatype stat_line = Rule | Ibdev string | Counter string u64 | Expected string u64 u64 bool | Errors string u64

definition expected_line :: "string \<Rightarrow> u64 \<Rightarrow> u64 \<Rightarrow> stat_line" where
  "expected_line label got want = (if got = want then Expected label got want True else Expected label got want False)"

definition error_lines :: "string \<Rightarrow> u64 \<Rightarrow> u64 \<Rightarrow> stat_line list" where
  "error_lines label all good = (if all - good > 0 then [Errors label (all - good)] else [])"

definition anp_stats_dump_on_signal :: "'w dstate \<Rightarrow> stat_line list" where
  "anp_stats_dump_on_signal s = (case s of (c, n) \<Rightarrow> let g = xw_dbg (nx n) in
     [Rule] @ map (\<lambda>i. Ibdev (md_devName (mergedDevs n ! i))) [0..<nat (ncclNMergedIbDevs c)] @
     [Counter ''num_cts_sent'' (num_cts_sent g), Counter ''num_signalled_cts_sent'' (num_signalled_cts_sent g), Counter ''num_recv_wqe'' (num_recv_wqe g),
      expected_line ''num_recv_completion/expected'' (num_recv_completion g) (num_signalled_cts_sent g + num_recv_wqe g),
      Counter ''num_recv_completion_ok'' (num_recv_completion_ok g)] @
     error_lines ''num_recv_completion_err (ERR)'' (num_recv_completion g) (num_recv_completion_ok g) @
     [Counter ''num_wr_wqe'' (num_wr_wqe g), Counter ''num_wi_wqe'' (num_wi_wqe g),
      expected_line ''num_send_completion/expected'' (num_send_completion g) (num_wr_wqe g + num_wi_wqe g)] @
     error_lines ''num_send_completion_err (ERR)'' (num_send_completion g) (num_send_completion_ok g) @ [Rule])"

lemma error_lines_iff: "error_lines label all good \<noteq> [] \<longleftrightarrow> all \<noteq> good"
  by (simp add: error_lines_def word_gt_0)

text \<open>The thread that logs the events of a device: it ends when one of the verbs calls fails.  The log is its result.\<close>

record 'w async_env =
  a_get_event :: "ctx_ptr \<Rightarrow> 'w \<Rightarrow> (ncclResult \<times> nat) \<times> 'w"
  a_type_str :: "nat \<Rightarrow> ncclResult \<times> string"
  a_ack_event :: "nat \<Rightarrow> 'w \<Rightarrow> (ncclResult \<times> unit) \<times> 'w"
  a_EVENT_COMM_EST :: nat

partial_function (option) ncclIbAsyncThreadMain :: "'w async_env \<Rightarrow> ncclIbDev \<Rightarrow> string list \<Rightarrow> 'w \<Rightarrow> (string list \<times> 'w) option" where
  "ncclIbAsyncThreadMain A dev log w = (case a_get_event A (dv_context dev) w of ((r, ev), w) \<Rightarrow>
     if r \<noteq> ncclSuccess then Some (log, w) else
     (case a_type_str A ev of (r, str) \<Rightarrow>
     if r \<noteq> ncclSuccess then Some (log, w) else
     (case a_ack_event A ev w of ((r, _), w) \<Rightarrow>
     if r \<noteq> ncclSuccess then Some (if ev \<noteq> a_EVENT_COMM_EST A then log @ [str] else log, w)
     else ncclIbAsyncThreadMain A dev (if ev \<noteq> a_EVENT_COMM_EST A then log @ [str] else log) w)))"

lemma async_thread_ends:
  assumes "\<And>w r ev w'. a_get_event A (dv_context dev) w = ((ncclSuccess, ev), w') \<Longrightarrow> (left w' :: nat) < left w"
    and "\<And>ev w r w'. a_ack_event A ev w = (r, w') \<Longrightarrow> left w' \<le> left w"
  shows "\<exists>r. ncclIbAsyncThreadMain A dev log w = Some r"
proof (induction "left w" arbitrary: log w rule: less_induct)
  case less
  obtain r ev w1 where g: "a_get_event A (dv_context dev) w = ((r, ev), w1)" by (metis surj_pair)
  obtain r2 u w2 where k: "a_ack_event A ev w1 = ((r2, u), w2)" by (metis surj_pair)
  show ?case
  proof (cases "r = ncclSuccess")
    case True
    then have "left w2 < left w" using assms(1) [of w ev w1] assms(2) [OF k] g by simp
    then show ?thesis using less g k
      by (subst ncclIbAsyncThreadMain.simps) (auto split: prod.splits)
  qed (use g in \<open>subst ncclIbAsyncThreadMain.simps, simp\<close>)
qed

subsection \<open>The list of devices\<close>

lemma first_bit_loop_le: "i \<le> mx \<Longrightarrow> first_bit_loop val mx i \<le> mx"
  by (induction val mx i rule: first_bit_loop.induct) (subst first_bit_loop.simps, auto)

lemma firstBitSet_le: "firstBitSet val mx \<le> mx"
  by (simp add: firstBitSet_def first_bit_loop_le)

text \<open>The ports of a merged device, and what their merged device says about them.\<close>

definition ports_of :: "ncclIbMergedDev \<Rightarrow> nat list" where
  "ports_of m = take (md_ndevs m) (md_devs m)"

fun join_plus :: "string list \<Rightarrow> string" where
  "join_plus [] = []"
| "join_plus [x] = x"
| "join_plus (x # y # xs) = x @ ''+'' @ join_plus (y # xs)"

definition same_card :: "ncclIbDev \<Rightarrow> ncclIbDev \<Rightarrow> bool" where
  "same_card a b \<longleftrightarrow> pciPath a = pciPath b \<and> guid a = guid b \<and> dv_link a = dv_link b"

definition merged_ok :: "ncclIbDev list \<Rightarrow> ncclIbMergedDev \<Rightarrow> bool" where
  "merged_ok devs m \<longleftrightarrow> 1 \<le> md_ndevs m \<and> md_ndevs m \<le> NCCL_IB_MAX_DEVS_PER_NIC \<and> length (md_devs m) = NCCL_IB_MAX_DEVS_PER_NIC \<and>
     md_speed m = sum_list (map (\<lambda>d. speed (devs ! d)) (ports_of m)) \<and> md_devName m = join_plus (map (\<lambda>d. devName (devs ! d)) (ports_of m)) \<and>
     (\<forall>d\<in>set (ports_of m). same_card (devs ! d) (devs ! hd (ports_of m)))"

definition dev_unused :: "ncclIbDev \<Rightarrow> bool" where
  "dev_unused v \<longleftrightarrow> pdRefs v = 0 \<and> mrCache v = empty_cache"

definition clear_entry :: "ncclIbMergedDev \<Rightarrow> bool" where
  "clear_entry m \<longleftrightarrow> md_speed m = 0 \<and> length (md_devs m) = NCCL_IB_MAX_DEVS_PER_NIC"

text \<open>
  The invariant of the list of \<open>k\<close> ports in \<open>m\<close> merged devices: every port is in exactly one merged device; the entries not used yet
  are clear; no device is in use.
\<close>

definition list_ok :: "ncclIbDev list \<Rightarrow> ncclIbMergedDev list \<Rightarrow> nat \<Rightarrow> nat \<Rightarrow> bool" where
  "list_ok devs ms k m \<longleftrightarrow> length devs = MAX_IB_DEVS \<and> length ms = MAX_IB_DEVS \<and> m \<le> k \<and> k \<le> MAX_IB_DEVS \<and>
     mset (concat (map ports_of (take m ms))) = mset_set {0..<k} \<and> (\<forall>i<m. merged_ok devs (ms ! i)) \<and>
     (\<forall>i. m \<le> i \<and> i < MAX_IB_DEVS \<longrightarrow> clear_entry (ms ! i)) \<and> (\<forall>v\<in>set devs. dev_unused v)"

definition devices_ok :: "'w dstate \<Rightarrow> bool" where
  "devices_ok s \<longleftrightarrow> 0 \<le> ncclNIbDevs (fst s) \<and> 0 \<le> ncclNMergedIbDevs (fst s) \<and>
     list_ok (ibDevs (snd s)) (mergedDevs (snd s)) (nat (ncclNIbDevs (fst s))) (nat (ncclNMergedIbDevs (fst s)))"

lemma list_ok_port:
  assumes "list_ok devs ms k m" "i < m" "d \<in> set (ports_of (ms ! i))"
  shows "d < k"
proof -
  have "i < length ms" using assms(1,2) by (simp add: list_ok_def)
  then have "ms ! i \<in> set (take m ms)" using assms(2) by (auto simp: in_set_conv_nth)
  then have "d \<in># mset (concat (map ports_of (take m ms)))" using assms(3) by auto
  moreover have "mset (concat (map ports_of (take m ms))) = mset_set {0..<k}" using assms(1) by (simp add: list_ok_def)
  ultimately have "d \<in># mset_set {0..<k}" by metis
  then show ?thesis by simp
qed

lemma list_ok_entry: "list_ok devs ms k m \<Longrightarrow> i < m \<Longrightarrow> arr_get ms i = Some (ms ! i) \<and> merged_ok devs (ms ! i)"
  unfolding list_ok_def by (metis arr_get_in le_trans less_le_trans)

lemma merged_ok_ports: "merged_ok devs m \<Longrightarrow> ports_of m \<noteq> []"
  by (cases "md_devs m") (auto simp: merged_ok_def ports_of_def NCCL_IB_MAX_DEVS_PER_NIC_def)

lemma merged_ok_frame:
  assumes "merged_ok devs m" "\<And>d. d \<in> set (ports_of m) \<Longrightarrow> devs' ! d = devs ! d"
  shows "merged_ok devs' m"
proof -
  have "hd (ports_of m) \<in> set (ports_of m)" using merged_ok_ports [OF assms(1)] by simp
  then have hd: "devs' ! hd (ports_of m) = devs ! hd (ports_of m)" by (rule assms(2))
  have e: "map (\<lambda>d. speed (devs' ! d)) (ports_of m) = map (\<lambda>d. speed (devs ! d)) (ports_of m)"
    "map (\<lambda>d. devName (devs' ! d)) (ports_of m) = map (\<lambda>d. devName (devs ! d)) (ports_of m)"
    using assms(2) by simp_all
  have "\<forall>d\<in>set (ports_of m). same_card (devs' ! d) (devs ! hd (ports_of m))" using assms by (simp add: merged_ok_def)
  then show ?thesis using assms(1) unfolding merged_ok_def e hd by blast
qed

lemma list_ok_add:
  assumes "list_ok devs ms k m" "dev_unused v"
  shows "list_ok (devs[k := v]) ms k m"
proof -
  have "merged_ok (devs[k := v]) (ms ! i)" if "i < m" for i
  proof (rule merged_ok_frame)
    show "merged_ok devs (ms ! i)" using assms(1) that by (simp add: list_ok_def)
    show "devs[k := v] ! d = devs ! d" if "d \<in> set (ports_of (ms ! i))" for d
      using list_ok_port [OF assms(1) \<open>i < m\<close> that] by simp
  qed
  moreover have "\<forall>y\<in>set (devs[k := v]). dev_unused y"
    using assms set_update_subset_insert [of devs k v] by (auto simp: list_ok_def)
  ultimately show ?thesis using assms(1) by (simp add: list_ok_def)
qed

lemma list_ok_new:
  assumes "list_ok devs ms k m" "k < MAX_IB_DEVS" "x = \<lparr>md_ndevs = 1, md_devs = (md_devs (ms ! m))[0 := k], md_speed = speed (devs ! k), md_devName = devName (devs ! k)\<rparr>"
  shows "list_ok devs (ms[m := x]) (Suc k) (Suc m)"
proof -
  have m: "m < length ms" "m < MAX_IB_DEVS" "clear_entry (ms ! m)" using assms(1,2) by (auto simp: list_ok_def)
  then obtain a b where ab: "md_devs (ms ! m) = [a, b]"
    by (auto simp: clear_entry_def NCCL_IB_MAX_DEVS_PER_NIC_def numeral_eq_Suc length_Suc_conv)
  have x: "ports_of x = [k]" "merged_ok devs x"
    using assms(3) by (auto simp: ports_of_def merged_ok_def same_card_def NCCL_IB_MAX_DEVS_PER_NIC_def ab)
  have "take (Suc m) (ms[m := x]) = take m ms @ [x]" using m(1) by (simp add: take_Suc_conv_app_nth)
  then have "mset (concat (map ports_of (take (Suc m) (ms[m := x])))) = mset_set {0..<Suc k}"
    using assms(1) x by (simp add: list_ok_def atLeast0_lessThan_Suc)
  then show ?thesis using assms(1,2) x m by (auto simp: list_ok_def nth_list_update less_Suc_eq)
qed

lemma mset_concat_grow:
  "i < length xs \<Longrightarrow> f x = f (xs ! i) @ [k] \<Longrightarrow> mset (concat (map f (xs[i := x]))) = add_mset k (mset (concat (map f xs)))"
  by (induction xs arbitrary: i) (auto split: nat.splits)

lemma list_ok_grow:
  assumes "list_ok devs ms k m" "k < MAX_IB_DEVS" "i < m" "md_ndevs (ms ! i) < NCCL_IB_MAX_DEVS_PER_NIC" "same_card (devs ! k) (devs ! (md_devs (ms ! i) ! 0))"
    and "x = \<lparr>md_ndevs = md_ndevs (ms ! i) + 1, md_devs = (md_devs (ms ! i))[md_ndevs (ms ! i) := k], md_speed = md_speed (ms ! i) + speed (devs ! k),
      md_devName = md_devName (ms ! i) @ ''+'' @ devName (devs ! k)\<rparr>"
  shows "list_ok devs (ms[i := x]) (Suc k) m"
proof -
  have i: "i < length ms" "merged_ok devs (ms ! i)" using assms(1,3) by (auto simp: list_ok_def)
  then obtain a b where ab: "md_devs (ms ! i) = [a, b]" "md_ndevs (ms ! i) = 1"
    using assms(4) by (auto simp: merged_ok_def NCCL_IB_MAX_DEVS_PER_NIC_def numeral_eq_Suc length_Suc_conv)
  have x: "ports_of x = ports_of (ms ! i) @ [k]" "merged_ok devs x"
    using assms(5,6) i(2) ab by (auto simp: ports_of_def merged_ok_def same_card_def NCCL_IB_MAX_DEVS_PER_NIC_def)
  have "mset (concat (map ports_of ((take m ms)[i := x]))) = add_mset k (mset (concat (map ports_of (take m ms))))"
    using i(1) assms(3) x(1) by (intro mset_concat_grow) auto
  then have "mset (concat (map ports_of (take m (ms[i := x])))) = mset_set {0..<Suc k}"
    using assms(1) by (simp add: list_ok_def atLeast0_lessThan_Suc take_update_swap)
  then show ?thesis using assms(1,2,3) x by (auto simp: list_ok_def nth_list_update)
qed

lemma find_matching_result:
  "find_matching devs ms dev i r = Some j \<Longrightarrow> i \<le> j \<and> j \<le> i + r \<and>
     (j < i + r \<longrightarrow> md_ndevs (ms ! j) < NCCL_IB_MAX_DEVS_PER_NIC \<and> same_card (devs ! dev) (devs ! (md_devs (ms ! j) ! 0)))"
proof (induction r arbitrary: i)
  case (Suc r)
  show ?case
  proof (cases "find_matching devs ms dev (Suc i) r = Some j")
    case True
    then show ?thesis using Suc.IH by force
  next
    case False
    then show ?thesis using Suc.prems
      by (auto simp: bind_eq_Some_conv same_card_def split: if_splits dest!: arr_get_SomeD)
  qed
qed simp

lemma devices_ok_world: "devices_ok s \<Longrightarrow> devices_ok (snd (on_world f s))"
  by (auto simp: devices_ok_def on_world_def split: prod.splits)

lemma keeps_add: "keeps devices_ok (nwrite (add_dev K d name ctx da port pa))"
proof (rule keeps_write)
  fix s t assume s: "devices_ok s" "add_dev K d name ctx da port pa s = Some t"
  obtain c n where cn: "s = (c, n)" by (cases s)
  obtain v where "t = (c, n\<lparr>ibDevs := (ibDevs n)[nat (ncclNIbDevs c) := v]\<rparr>)" "dev_unused v"
    using s(2) cn by (auto simp: add_dev_def Let_def bind_eq_Some_conv dev_unused_def split: prod.splits)
  then show "devices_ok t" using s(1) cn by (simp add: devices_ok_def list_ok_add)
qed

lemma merge_result:
  assumes "merge_dev mergeNics (c, n) = Some t" "list_ok (ibDevs n) (mergedDevs n) (nat (ncclNIbDevs c)) (nat (ncclNMergedIbDevs c))" "0 \<le> ncclNMergedIbDevs c"
  obtains i x where "snd t = n\<lparr>mergedDevs := (mergedDevs n)[i := x]\<rparr>" "ncclNIbDevs (fst t) = ncclNIbDevs c + 1"
    "list_ok (ibDevs n) ((mergedDevs n)[i := x]) (Suc (nat (ncclNIbDevs c))) (nat (ncclNMergedIbDevs (fst t)))" "0 \<le> ncclNMergedIbDevs (fst t)"
proof -
  define k m where km: "k = nat (ncclNIbDevs c)" "m = nat (ncclNMergedIbDevs c)"
  have "\<exists>i v md ds. (if mergeNics \<noteq> 0 then ncclIbFindMatchingDev (c, n) k else Some m) = Some i \<and> arr_get (ibDevs n) k = Some v \<and>
      arr_get (mergedDevs n) i = Some md \<and> arr_set (md_devs md) (if i = m then 0 else md_ndevs md) k = Some ds"
    using assms(1) unfolding merge_dev_def Let_def km by (simp only: prod.case bind_eq_Some_conv) blast
  then obtain i v md ds where r: "(if mergeNics \<noteq> 0 then ncclIbFindMatchingDev (c, n) k else Some m) = Some i" "arr_get (ibDevs n) k = Some v"
      "arr_get (mergedDevs n) i = Some md" "arr_set (md_devs md) (if i = m then 0 else md_ndevs md) k = Some ds"
    by blast
  have k: "k < MAX_IB_DEVS" "v = ibDevs n ! k" "i < length (mergedDevs n)" "md = mergedDevs n ! i" "ds = (md_devs md)[(if i = m then 0 else md_ndevs md) := k]"
    using r assms(2) by (auto simp: list_ok_def dest!: arr_get_SomeD arr_set_SomeD)
  have i: "i \<le> m" "i < m \<Longrightarrow> md_ndevs md < NCCL_IB_MAX_DEVS_PER_NIC \<and> same_card v (ibDevs n ! (md_devs md ! 0))"
    using r(1) find_matching_result [of "ibDevs n" "mergedDevs n" k 0 m i] k by (auto simp: ncclIbFindMatchingDev_def km split: if_splits)
  show thesis
  proof (cases "i = m")
    case True
    define x where "x = \<lparr>md_ndevs = 1, md_devs = ds, md_speed = speed v, md_devName = devName v\<rparr>"
    have "clear_entry md" using assms(2) k True by (simp add: list_ok_def km)
    then have "t = (c\<lparr>ncclNMergedIbDevs := ncclNMergedIbDevs c + 1, ncclNIbDevs := ncclNIbDevs c + 1\<rparr>, n\<lparr>mergedDevs := (mergedDevs n)[i := x]\<rparr>)"
      using assms(1) r [unfolded km] True [unfolded km] unfolding merge_dev_def Let_def by (cases md) (simp add: x_def clear_entry_def)
    moreover have "list_ok (ibDevs n) ((mergedDevs n)[m := x]) (Suc k) (Suc m)"
      by (rule list_ok_new) (use assms(2) k True in \<open>simp_all add: km x_def\<close>)
    ultimately show thesis using that [of i x] assms(3) True by (simp add: km nat_add_distrib)
  next
    case False
    define x where "x = \<lparr>md_ndevs = md_ndevs md + 1, md_devs = ds, md_speed = md_speed md + speed v, md_devName = md_devName md @ ''+'' @ devName v\<rparr>"
    have "t = (c\<lparr>ncclNIbDevs := ncclNIbDevs c + 1\<rparr>, n\<lparr>mergedDevs := (mergedDevs n)[i := x]\<rparr>)"
      using assms(1) r [unfolded km] False [unfolded km] unfolding merge_dev_def Let_def by (cases md) (simp add: x_def)
    moreover have "list_ok (ibDevs n) ((mergedDevs n)[i := x]) (Suc k) m"
      by (rule list_ok_grow) (use assms(2) k i False in \<open>simp_all add: km x_def\<close>)
    ultimately show thesis using that [of i x] assms(3) by (simp add: km)
  qed
qed

lemma keeps_merge: "keeps devices_ok (nwrite (merge_dev mergeNics))"
proof (rule keeps_write)
  fix s t assume s: "devices_ok s" "merge_dev mergeNics s = Some t"
  obtain c n where cn: "s = (c, n)" by (cases s)
  show "devices_ok t"
    by (rule merge_result [of mergeNics c n t]) (use s cn in \<open>auto simp: devices_ok_def nat_add_distrib\<close>)
qed

lemma keeps_visit_port: "keeps devices_ok (visit_port K mergeNics U d name ctx da port)"
  unfolding visit_port_def by (intro keeps_rules keeps_add keeps_merge devices_ok_world)

lemma keeps_close: "keeps devices_ok (close_if K b ctx)"
  unfolding close_if_def by (intro keeps_rules devices_ok_world)

lemma keeps_visit_device: "keeps devices_ok (visit_device K mergeNics U devices d)"
  unfolding visit_device_def
  by (intro keeps_rules keeps_visit_port keeps_close devices_ok_world)
    (auto split: option.splits intro!: keeps_rules keeps_visit_port keeps_close devices_ok_world)

lemma keeps_visits: "keeps devices_ok (nfor is (visit_device K mergeNics U devices))"
  by (intro keeps_for keeps_visit_device)

lemma devices_ok_empty:
  assumes "length (ibDevs n) = MAX_IB_DEVS" "\<forall>v\<in>set (ibDevs n). dev_unused v"
  shows "devices_ok (reset_list (c, n))"
  using assms by (simp add: devices_ok_def reset_list_def list_ok_def clear_entry_def zero_merged_def NCCL_IB_MAX_DEVS_PER_NIC_def)

lemma devices_ok_reset:
  assumes "devices_ok s"
  shows "devices_ok (reset_list s)"
proof (cases s)
  case (Pair c n)
  show ?thesis unfolding Pair by (rule devices_ok_empty) (use assms Pair in \<open>simp_all add: devices_ok_def list_ok_def\<close>)
qed

text \<open>All merged devices have as many ports as the first one.\<close>

definition uniform :: "'w dstate \<Rightarrow> bool" where
  "uniform s \<longleftrightarrow> (\<forall>i<nat (ncclNMergedIbDevs (fst s)). md_ndevs (mergedDevs (snd s) ! i) = md_ndevs (mergedDevs (snd s) ! 0))"

lemma uniform_mixed: "uniform s \<longleftrightarrow> \<not> mixed_nics s"
proof (cases s)
  case (Pair c n)
  show ?thesis unfolding uniform_def mixed_nics_def Pair list_ex_iff prod.case fst_conv snd_conv set_upt by (metis atLeastLessThan_iff le0)
qed

definition unmerged :: "'w dstate \<Rightarrow> bool" where
  "unmerged s \<longleftrightarrow> 0 \<le> ncclNMergedIbDevs (fst s) \<and> (\<forall>i<nat (ncclNMergedIbDevs (fst s)). md_ndevs (mergedDevs (snd s) ! i) = 1)"

lemma unmerged_world: "unmerged s \<Longrightarrow> unmerged (snd (on_world f s))"
  by (auto simp: unmerged_def on_world_def split: prod.splits)

lemma unmerged_add: "keeps unmerged (nwrite (add_dev K d name ctx da port pa))"
proof (rule keeps_write)
  fix s t assume "unmerged s" "add_dev K d name ctx da port pa s = Some t"
  then show "unmerged t" by (cases s) (auto simp: unmerged_def add_dev_def Let_def bind_eq_Some_conv split: prod.splits)
qed

lemma unmerged_merge: "keeps unmerged (nwrite (merge_dev 0))"
proof (rule keeps_write)
  fix s t assume "unmerged s" "merge_dev 0 s = Some t"
  then show "unmerged t"
    by (cases s) (auto simp: unmerged_def merge_dev_def Let_def bind_eq_Some_conv nat_add_distrib less_Suc_eq nth_list_update dest!: arr_get_SomeD)
qed

lemma unmerged_visits: "keeps unmerged (nfor is (visit_device K 0 U devices))"
proof (rule keeps_for)
  fix i
  have port: "keeps unmerged (visit_port K 0 U d name ctx da port)" for d name ctx da port
    unfolding visit_port_def by (intro keeps_rules unmerged_add unmerged_merge unmerged_world)
  have "keeps unmerged (close_if K b ctx)" for b ctx
    unfolding close_if_def by (intro keeps_rules unmerged_world)
  then show "keeps unmerged (visit_device K 0 U devices i)"
    unfolding visit_device_def
    by (intro keeps_rules port unmerged_world) (auto split: option.splits intro!: keeps_rules port unmerged_world)
qed

text \<open>One pass over the devices, and the list two passes leave.\<close>

definition list_pass :: "'w disc_env \<Rightarrow> hca_sel \<Rightarrow> string list \<Rightarrow> int \<Rightarrow> ('w dstate, unit) nc" where
  "list_pass K U devices mergeNics = nfor [0..<length devices] (visit_device K mergeNics U devices)"

lemma build_unmerged: "build_ib_list K U devices 0 s = list_pass K U devices 0 s"
  by (subst build_ib_list.simps) (auto simp: list_pass_def split: option.splits sum.splits)

lemma build_ok:
  assumes "devices_ok s" "unmerged s" "build_ib_list K U devices mergeNics s = Some (Inr u, t)"
  shows "devices_ok t \<and> uniform t"
proof -
  have single: "devices_ok t \<and> uniform t" if "list_pass K U devices 0 s = Some (Inr u, t)" "devices_ok s" "unmerged s" for s
  proof -
    have "unmerged t" using keepsD [OF unmerged_visits that(3)] that(1) by (simp add: list_pass_def)
    moreover have "devices_ok t" using keepsD [OF keeps_visits that(2)] that(1) by (simp add: list_pass_def)
    ultimately show ?thesis by (cases "ncclNMergedIbDevs (fst t)") (auto simp: uniform_def unmerged_def)
  qed
  show ?thesis
  proof (cases "mergeNics = 0")
    case True
    then show ?thesis using assms single build_unmerged by metis
  next
    case False
    then obtain t1 where t1: "list_pass K U devices mergeNics s = Some (Inr u, t1)"
        "mixed_nics t1 \<and> list_pass K U devices 0 (reset_list t1) = Some (Inr u, t) \<or> \<not> mixed_nics t1 \<and> t = t1"
      using assms(3) by (subst (asm) build_ib_list.simps) (auto simp: list_pass_def [symmetric] build_unmerged split: option.splits sum.splits if_splits)
    have ok: "devices_ok t1" using keepsD [OF keeps_visits assms(1)] t1(1) by (simp add: list_pass_def)
    have "unmerged (reset_list t1)" by (cases t1) (simp add: unmerged_def reset_list_def)
    then show ?thesis using t1(2) single ok devices_ok_reset uniform_mixed by metis
  qed
qed


text \<open>The state in which the library is loaded.\<close>

definition loaded :: "'w dstate \<Rightarrow> bool" where
  "loaded s \<longleftrightarrow> ncclNIbDevs (fst s) = -1 \<and> length (ibDevs (snd s)) = MAX_IB_DEVS \<and> (\<forall>v\<in>set (ibDevs (snd s)). dev_unused v) \<and>
     mergedDevs (snd s) = replicate MAX_IB_DEVS zero_merged"

lemma or_fail_inv: "or_fail K ds M s = Some (Inr a, t) \<longleftrightarrow> M s = Some (Inr a, t)"
  by (auto simp: or_fail_def split: option.splits sum.splits prod.splits)

lemma list_devices_ok: "keeps devices_ok (list_devices K)"
  unfolding list_devices_def by (intro keeps_rules devices_ok_world)

lemma list_devices_unmerged: "keeps unmerged (list_devices K)"
  unfolding list_devices_def by (intro keeps_rules unmerged_world)

lemma uniform_world: "uniform s \<Longrightarrow> uniform (snd (on_world f s))"
  unfolding uniform_mixed by (auto simp: mixed_nics_def on_world_def split: prod.splits)

lemma loaded_world: "loaded s \<Longrightarrow> loaded (snd (on_world f s))"
  by (auto simp: loaded_def on_world_def split: prod.splits)

lemma loaded_reset:
  assumes "loaded s"
  shows "devices_ok (case s of (c, n) \<Rightarrow> (c\<lparr>ncclNIbDevs := 0, ncclNMergedIbDevs := 0\<rparr>, n))"
    and "unmerged (case s of (c, n) \<Rightarrow> (c\<lparr>ncclNIbDevs := 0, ncclNMergedIbDevs := 0\<rparr>, n))"
proof -
  obtain c n where s: "s = (c, n)" by (cases s)
  have "(c\<lparr>ncclNIbDevs := 0, ncclNMergedIbDevs := 0\<rparr>, n) = reset_list (c, n)" using assms s by (cases n) (simp add: loaded_def reset_list_def)
  moreover have "devices_ok (reset_list (c, n))" by (rule devices_ok_empty) (use assms s in \<open>auto simp: loaded_def\<close>)
  ultimately show "devices_ok (case s of (c, n) \<Rightarrow> (c\<lparr>ncclNIbDevs := 0, ncclNMergedIbDevs := 0\<rparr>, n))" using s by simp
  show "unmerged (case s of (c, n) \<Rightarrow> (c\<lparr>ncclNIbDevs := 0, ncclNMergedIbDevs := 0\<rparr>, n))" using s by (simp add: unmerged_def)
qed

lemma detect_cards_ok:
  assumes "loaded s" "detect_cards K s = Some (Inr u, t)"
  shows "devices_ok t \<and> uniform t"
proof -
  let ?s0 = "case s of (c, n) \<Rightarrow> (c\<lparr>ncclNIbDevs := 0, ncclNMergedIbDevs := 0\<rparr>, n)"
  obtain U devices s1 s2 x where r: "list_devices K ?s0 = Some (Inr (U, devices), s1)"
      "build_ib_list K U devices (i_IbMergeNics K) s1 = Some (Inr x, s2)" "t = snd (on_world (i_free_device_list K (Some devices)) s2)"
    using assms(2) by (auto simp: detect_cards_def elim!: nbind_SomeE simp: nc_inv or_fail_inv setup_inv split: prod.splits if_splits)
  have "devices_ok s1" "unmerged s1"
    using keepsD [OF list_devices_ok] keepsD [OF list_devices_unmerged] loaded_reset [OF assms(1)] r(1) by blast+
  then have "devices_ok s2 \<and> uniform s2" using build_ok r(2) by blast
  then show ?thesis using r(3) devices_ok_world uniform_world by blast
qed

definition list_built :: "'w dstate \<Rightarrow> bool" where
  "list_built s \<longleftrightarrow> devices_ok s \<and> uniform s"

lemma list_built_world: "list_built s \<Longrightarrow> list_built (snd (on_world f s))"
  by (simp add: list_built_def devices_ok_world uniform_world)

lemma list_built_relaxed: "list_built s \<Longrightarrow> list_built (case s of (c, n) \<Rightarrow> (c\<lparr>relaxedOrdering := r\<rparr>, n))"
  by (auto simp: list_built_def devices_ok_def uniform_mixed mixed_nics_def split: prod.splits)

lemma keeps_relaxed: "keeps list_built (nbind (ncclIbRelaxedOrderingCapable K) (\<lambda>r. nset (\<lambda>(c, n). (c\<lparr>relaxedOrdering := r\<rparr>, n))))"
  unfolding ncclIbRelaxedOrderingCapable_def Let_def by (intro keeps_rules list_built_world list_built_relaxed)

lemma ends_if: "ends_in P a Q \<Longrightarrow> ends_in P b Q \<Longrightarrow> ends_in P (if c then a else b) Q"
  by simp

lemma init_built: "ends_in loaded (anpNetInit K) (\<lambda>_. list_built)"
proof -
  have w: "ends_in loaded (nexec (on_world f)) (\<lambda>_. loaded)" for f :: "'a \<Rightarrow> 'b \<times> 'a"
    by (intro ends_keeps keeps_exec loaded_world)
  have w1: "ends_in loaded (nexec (on_world f)) (\<lambda>_. loaded)" for f :: "'a \<Rightarrow> unit \<times> 'a"
    by (intro ends_keeps keeps_exec loaded_world)
  have d: "ends_in loaded (detect_cards K) (\<lambda>_. list_built)"
    using detect_cards_ok unfolding ends_in_def list_built_def by blast
  have t: "ends_in list_built (nbind (nget (\<lambda>(c, n). ncclNIbDevs c)) (\<lambda>k. nwhen (k \<noteq> 0) (nbind (ncclIbRelaxedOrderingCapable K) (\<lambda>r.
      nset (\<lambda>(c, n). (c\<lparr>relaxedOrdering := r\<rparr>, n)))))) (\<lambda>_. list_built)"
    by (intro ends_keeps keeps_rules keeps_relaxed)
  have g: "ends_in loaded (nget (\<lambda>(c, n). ncclNIbDevs c)) (\<lambda>k s. k = -1 \<and> loaded s)"
    by (rule ends_get) (auto simp: loaded_def)
  have h: "ends_in loaded (case p of (res, _) \<Rightarrow> if res \<noteq> ncclSuccess then nfail ncclInternalError else M) Q"
    if "ends_in loaded M Q" for p :: "ncclResult \<times> unit" and M :: "('a dstate, unit) nc" and Q
    using that by (cases p) (simp add: ends_fail)
  show ?thesis
    unfolding anpNetInit_def
    by (rule ends_if, rule ends_fail, rule ends_bind [OF w], rule h, rule ends_bind [OF w1], rule ends_bind [OF g], rule ends_when,
        rule ends_weaken [OF ends_bind [OF w1 ends_bind [OF d t]]]) auto
qed

text \<open>
  C18: after a successful initialisation every port the plugin counts is in exactly one merged device; a merged device has one or two
  ports, all merged devices the same number; the ports of a merged device are of one card, and its speed and name are put together from theirs;
  no protection domain or registration exists yet.
\<close>

theorem device_list_built:
  assumes "loaded s" "anpNetInit K s = Some (Inr u, t)"
  shows "devices_ok t \<and> uniform t \<and> 0 \<le> anpNetDevices t \<and> anpNetDevices t \<le> int MAX_IB_DEVS"
proof -
  have "devices_ok t \<and> uniform t" using ends_inD [OF init_built assms] by (simp add: list_built_def)
  then show ?thesis by (auto simp: anpNetDevices_def devices_ok_def list_ok_def)
qed

text \<open>
  For every device number below the one reported, the properties are defined: the name joins the names of the ports, the speed is the sum of
  theirs, host and GPU memory are supported and eight receives can be grouped.
\<close>

theorem properties_of_card:
  assumes "devices_ok s" "int dev < anpNetDevices s"
  shows "\<exists>pr md. arr_get (mergedDevs (snd s)) dev = Some md \<and> anpNetGetProperties dmabuf s dev = Some pr \<and>
    pr_speed pr = sum_list (map (\<lambda>d. speed (ibDevs (snd s) ! d)) (ports_of md)) \<and>
    pr_name pr = join_plus (map (\<lambda>d. devName (ibDevs (snd s) ! d)) (ports_of md)) \<and>
    (\<forall>d\<in>set (ports_of md). pciPath (ibDevs (snd s) ! d) = pr_pciPath pr \<and> guid (ibDevs (snd s) ! d) = pr_guid pr) \<and>
    set (pr_ptrSupport pr) = {NCCL_PTR_HOST, NCCL_PTR_CUDA} \<union> (if dmabuf = 1 then {NCCL_PTR_DMABUF} else {}) \<and> pr_maxRecvs pr = 8"
proof -
  obtain c n where s: "s = (c, n)" by (cases s)
  define md where "md = mergedDevs n ! dev"
  have l: "list_ok (ibDevs n) (mergedDevs n) (nat (ncclNIbDevs c)) (nat (ncclNMergedIbDevs c))" "dev < nat (ncclNMergedIbDevs c)"
    using assms s by (auto simp: devices_ok_def anpNetDevices_def)
  then have md: "arr_get (mergedDevs n) dev = Some md" "merged_ok (ibDevs n) md"
    using list_ok_entry by (simp_all add: md_def)
  then obtain d0 where d0: "arr_get (md_devs md) 0 = Some d0" "hd (ports_of md) = d0" "d0 \<in> set (ports_of md)"
    by (cases "md_devs md"; cases "md_ndevs md") (auto simp: merged_ok_def ports_of_def NCCL_IB_MAX_DEVS_PER_NIC_def arr_get_def)
  have "d0 < nat (ncclNIbDevs c)" using list_ok_port [OF l] d0(3) by (simp add: md_def)
  then have "arr_get (ibDevs n) d0 = Some (ibDevs n ! d0)" using l(1) unfolding list_ok_def by (metis arr_get_in less_le_trans)
  then obtain pr where pr: "anpNetGetProperties dmabuf s dev = Some pr" "pr_speed pr = md_speed md" "pr_name pr = md_devName md"
      "pr_pciPath pr = pciPath (ibDevs n ! d0)" "pr_guid pr = guid (ibDevs n ! d0)" "pr_maxRecvs pr = 8"
      "set (pr_ptrSupport pr) = {NCCL_PTR_HOST, NCCL_PTR_CUDA} \<union> (if dmabuf = 1 then {NCCL_PTR_DMABUF} else {})"
    using md(1) d0(1) s by (simp add: anpNetGetProperties_def ncclIbGdrSupport_def ncclIbDmaBufSupport_def NCCL_NET_IB_MAX_RECVS_def insert_commute)
  have "\<forall>d\<in>set (ports_of md). same_card (ibDevs n ! d) (ibDevs n ! d0)" using md(2) d0(2) by (simp add: merged_ok_def)
  then have "\<forall>d\<in>set (ports_of md). pciPath (ibDevs n ! d) = pr_pciPath pr \<and> guid (ibDevs n ! d) = pr_guid pr"
    using pr(4,5) unfolding same_card_def by metis
  then show ?thesis using md pr s unfolding merged_ok_def by (intro exI [of _ pr] exI [of _ md]) simp
qed

subsection \<open>Concrete runs\<close>

text \<open>Cards with one port each; the paths of the first two differ in the function only.\<close>

definition demo_disc :: "string list \<Rightarrow> nat disc_env" where
  "demo_disc names = \<lparr>i_symbols = (\<lambda>w. ((ncclSuccess, ()), w)), i_hooks = id, i_fork_init = id, i_findInterfaces = (\<lambda>w. (1, w)),
     i_get_device_list = (\<lambda>w. ((ncclSuccess, names), w)), i_free_device_list = (\<lambda>d w. ((ncclSuccess, ()), w)),
     i_open_device = (\<lambda>d w. ((ncclSuccess, Some (Suc d)), Suc w)), i_close_device = (\<lambda>c w. ((ncclSuccess, ()), w)),
     i_query_device = (\<lambda>c w. ((ncclSuccess, \<lparr>sys_image_guid = (if c \<le> 2 then 7 else 8), phys_port_cnt = 1, max_qp = 1024\<rparr>), w)),
     i_query_port = (\<lambda>c p w. ((ncclSuccess, \<lparr>pa_state = 4, pa_lid = 0, active_mtu = 5, gid_tbl_len = 4, pa_link_layer = 2, active_speed = 32, active_width = 2\<rparr>), w)),
     i_async_thread = (\<lambda>k w. w), i_probe_iova2 = (\<lambda>w. (ncclSystemError, w)),
     i_realpath = (\<lambda>p. if p = ''/sys/class/infiniband/rdma0/device'' then Some ''/sys/pci/0000:03:00.0''
       else if p = ''/sys/class/infiniband/rdma1/device'' then Some ''/sys/pci/0000:03:00.1'' else Some ''/sys/pci/0000:81:00.0''),
     i_getenv = (\<lambda>v. None), i_parseStringList = (\<lambda>e k. []), i_matchIfList = (\<lambda>nm p u e. True),
     i_IbDisable = 0, i_IbMergeVfs = 1, i_IbMergeNics = 1, i_IbAdaptiveRouting = -2, i_IbPciRelaxedOrdering = 2\<rparr>"

definition demo_loaded :: "nat dstate" where
  "demo_loaded = (\<lparr>ncclNIbDevs = -1, ncclNMergedIbDevs = -1, relaxedOrdering = False\<rparr>,
     demo_net\<lparr>ibDevs := replicate MAX_IB_DEVS (demo_dev 0), mergedDevs := replicate MAX_IB_DEVS zero_merged\<rparr>)"

lemma demo_loaded_ok: "loaded demo_loaded"
  by (simp add: loaded_def demo_loaded_def dev_unused_def demo_dev_def)

theorem device_list_built_witness:
  "\<exists>t. anpNetInit (demo_disc [''rdma0'', ''rdma1'']) demo_loaded = Some (Inr (), t) \<and> devices_ok t \<and> uniform t \<and> anpNetDevices t = 1"
proof -
  have "ended (anpNetInit (demo_disc [''rdma0'', ''rdma1'']) demo_loaded) (\<lambda>_ t. anpNetDevices t = 1)" by code_simp
  then obtain t where t: "anpNetInit (demo_disc [''rdma0'', ''rdma1'']) demo_loaded = Some (Inr (), t)" "anpNetDevices t = 1"
    unfolding ended_iff by auto
  then show ?thesis using device_list_built [OF demo_loaded_ok t(1)] by simp
qed

theorem properties_of_card_witness:
  "\<exists>t pr. anpNetInit (demo_disc [''rdma0'', ''rdma1'', ''rdma2'']) demo_loaded = Some (Inr (), t) \<and> anpNetDevices t = 3 \<and>
    anpNetGetProperties 0 t 1 = Some pr \<and> pr_maxRecvs pr = 8"
proof -
  have "ended (anpNetInit (demo_disc [''rdma0'', ''rdma1'', ''rdma2'']) demo_loaded) (\<lambda>_ t. anpNetDevices t = 3)" by code_simp
  then obtain t where t: "anpNetInit (demo_disc [''rdma0'', ''rdma1'', ''rdma2'']) demo_loaded = Some (Inr (), t)" "anpNetDevices t = 3"
    unfolding ended_iff by auto
  have "devices_ok t" using ends_inD [OF init_built demo_loaded_ok t(1)] by (simp add: list_built_def)
  then show ?thesis using properties_of_card [of t 1 0] t by auto
qed

end
